(* ===== verification/Go_Prelude.thy ===== *)
theory Go_Prelude
  imports Main "HOL-Library.AList" "HOL-Library.List_Lexorder" "HOL-Library.Char_ord"
begin

text \<open>
  What the mailbox sources use of the Go language and its standard library, and the
  generic lemmas the components share.

  \<^item> A Go string is a list of bytes, \<^typ>\<open>string\<close>; \<open>len\<close> is \<^const>\<open>length\<close> and
    \<open>strings.Compare\<close> is the byte-wise lexicographic order.
  \<^item> A \<open>time.Time\<close> is the instant it denotes, in nanoseconds, and a \<open>time.Duration\<close>
    the number of nanoseconds. The code stores and compares times in UTC, so the zone is
    not part of the model.
  \<^item> An \<open>int\<close> is a 64-bit two's complement number: the arithmetic that can leave the range
    goes through \<open>wrap64\<close>.
  \<^item> A slice expression that is out of range panics: \<open>go_slice\<close> returns \<^const>\<open>None\<close>.
  \<^item> A Go map and a \<open>sync.Map\<close> are association lists with distinct keys. The order of the
    list is the order in which \<open>Range\<close> visits the entries, which Go leaves unspecified: a
    statement that holds for every list holds for every order.
\<close>

named_theorems store_defs "the definitions of the store's operations"
named_theorems frame "what an operation leaves as it was"
named_theorems keeps_inv "an operation keeps the store's invariant"

section \<open>Results\<close>

text \<open>
  The result of a Go call that may fail: a value, an error value, or a panic that unwinds the
  goroutine.
\<close>

datatype ('e, 'a) res = Ok 'a | Err 'e | Panic

fun is_Ok :: "('e, 'a) res \<Rightarrow> bool" where
  "is_Ok (Ok _) = True"
| "is_Ok _ = False"

section \<open>Times and machine integers\<close>

type_synonym time = int
type_synonym duration = int

text \<open>The zero value of \<open>time.Time\<close>: January 1, year 1, in nanoseconds since 1970.\<close>

definition zeroTime :: time where
  "zeroTime = -62135596800 * 1000000000"

definition wrap64 :: "int \<Rightarrow> int" where
  "wrap64 x = (x + 2 ^ 63) mod 2 ^ 64 - 2 ^ 63"

definition int64_range :: "int \<Rightarrow> bool" where
  "int64_range x \<longleftrightarrow> - (2 ^ 63) \<le> x \<and> x < 2 ^ 63"

lemma wrap64_in_range: "int64_range (wrap64 x)"
proof -
  have "0 \<le> (x + 2 ^ 63) mod 2 ^ 64" "(x + 2 ^ 63) mod 2 ^ 64 < 2 ^ 64"
    by simp_all
  then show ?thesis by (simp add: wrap64_def int64_range_def)
qed

lemma wrap64_id: "int64_range x \<Longrightarrow> wrap64 x = x"
  by (simp add: wrap64_def int64_range_def)

lemma wrap64_over:
  assumes "2 ^ 63 \<le> x" "x < 2 ^ 63 + 2 ^ 64"
  shows "wrap64 x = x - 2 ^ 64"
proof -
  have "(x + 2 ^ 63) mod 2 ^ 64 = (x + 2 ^ 63 - 2 ^ 64) mod 2 ^ 64"
    by (rule minus_mod_self2 [symmetric])
  also have "\<dots> = x + 2 ^ 63 - 2 ^ 64"
    using assms by (intro mod_pos_pos_trivial) auto
  finally show ?thesis by (simp add: wrap64_def)
qed

section \<open>Slices\<close>

definition go_slice :: "'a list \<Rightarrow> int \<Rightarrow> int \<Rightarrow> 'a list option" where
  "go_slice xs lo hi =
     (if 0 \<le> lo \<and> lo \<le> hi \<and> hi \<le> int (length xs)
      then Some (take (nat (hi - lo)) (drop (nat lo) xs)) else None)"

lemma go_slice_full: "go_slice xs 0 (int (length xs)) = Some xs"
  by (simp add: go_slice_def)

lemma go_slice_None: "hi < lo \<Longrightarrow> go_slice xs lo hi = None"
  by (simp add: go_slice_def)

lemma in_set_drop_conv_nth:
  "x \<in> set (drop n xs) \<longleftrightarrow> (\<exists>k. n \<le> k \<and> k < length xs \<and> x = xs ! k)"
proof
  assume "x \<in> set (drop n xs)"
  then obtain j where "j < length xs - n" "x = xs ! (n + j)"
    by (auto simp: in_set_conv_nth)
  then show "\<exists>k. n \<le> k \<and> k < length xs \<and> x = xs ! k"
    by (intro exI [of _ "n + j"]) auto
next
  assume "\<exists>k. n \<le> k \<and> k < length xs \<and> x = xs ! k"
  then obtain k where "n \<le> k" "k < length xs" "x = xs ! k" by blast
  then have "drop n xs ! (k - n) = x" "k - n < length (drop n xs)" by auto
  then show "x \<in> set (drop n xs)" by (metis nth_mem)
qed

lemma foldl_const: "foldl (\<lambda>s _. s) s xs = s"
  by (induction xs) auto

text \<open>The index of the first element that satisfies a predicate: a \<open>for \<dots> break\<close> loop.\<close>

fun find_index :: "('a \<Rightarrow> bool) \<Rightarrow> 'a list \<Rightarrow> nat option" where
  "find_index P [] = None"
| "find_index P (x # xs) = (if P x then Some 0 else map_option Suc (find_index P xs))"

lemma find_index_None: "find_index P xs = None \<longleftrightarrow> (\<forall>x\<in>set xs. \<not> P x)"
  by (induction xs) auto

lemma find_index_Some:
  "find_index P xs = Some i \<Longrightarrow> i < length xs \<and> P (xs ! i) \<and> (\<forall>j<i. \<not> P (xs ! j))"
proof (induction xs arbitrary: i)
  case Nil
  then show ?case by simp
next
  case (Cons x xs)
  then show ?case
    by (auto split: if_splits simp: less_Suc_eq_0_disj)
qed

lemma find_index_distinct:
  assumes "distinct (map f xs)" "i < length xs"
  shows "find_index (\<lambda>x. f x = f (xs ! i)) xs = Some i"
  using assms
proof (induction xs arbitrary: i)
  case Nil
  then show ?case by simp
next
  case (Cons x xs)
  show ?case
  proof (cases i)
    case 0
    then show ?thesis by simp
  next
    case (Suc j)
    with Cons.prems have "f x \<noteq> f (xs ! j)" by auto
    with Cons Suc show ?thesis by simp
  qed
qed

text \<open>\<open>append(xs[:i], xs[i+1:]...)\<close> at the first index where the element occurs.\<close>

lemma remove_at_index:
  "find_index (\<lambda>t. t = x) xs = Some i \<Longrightarrow> take i xs @ drop (Suc i) xs = remove1 x xs"
  by (induction xs arbitrary: i) (auto split: if_splits)

lemma find_index_mem: "x \<in> set xs \<Longrightarrow> \<exists>n. find_index (\<lambda>t. t = x) xs = Some n"
  by (induction xs) auto

lemma remove_at_no_index: "find_index (\<lambda>t. t = x) xs = None \<Longrightarrow> remove1 x xs = xs"
  by (induction xs) (auto split: if_splits)

section \<open>sync.Map\<close>

text \<open>
  The operations of \<open>sync.Map\<close> that the stores call. \<open>LoadOrStore\<close> returns the value now
  present and whether it was loaded; \<open>LoadAndDelete\<close> returns the value removed.
\<close>

definition map_LoadOrStore :: "'k \<Rightarrow> 'v \<Rightarrow> ('k \<times> 'v) list \<Rightarrow> ('v \<times> bool) \<times> ('k \<times> 'v) list" where
  "map_LoadOrStore k v m =
     (case map_of m k of
        Some v' \<Rightarrow> ((v', True), m)
      | None \<Rightarrow> ((v, False), AList.update k v m))"

definition map_LoadAndDelete :: "'k \<Rightarrow> ('k \<times> 'v) list \<Rightarrow> 'v option \<times> ('k \<times> 'v) list" where
  "map_LoadAndDelete k m = (map_of m k, AList.delete k m)"

abbreviation keys :: "('k \<times> 'v) list \<Rightarrow> 'k list" where
  "keys m \<equiv> map fst m"

text \<open>
  The contract of a concurrent map, as the stores rely on it: an invariant, what a load returns
  after each update, and which entries a traversal visits.
\<close>

locale sync_map =
  fixes load :: "'m \<Rightarrow> 'k \<Rightarrow> 'v option"
    and store :: "'k \<Rightarrow> 'v \<Rightarrow> 'm \<Rightarrow> 'm"
    and del :: "'k \<Rightarrow> 'm \<Rightarrow> 'm"
    and entries :: "'m \<Rightarrow> ('k \<times> 'v) list"
    and invar :: "'m \<Rightarrow> bool"
  assumes load_store: "load (store k v m) = (load m)(k \<mapsto> v)"
    and load_del: "load (del k m) = (load m)(k := None)"
    and load_entries: "invar m \<Longrightarrow> (k, v) \<in> set (entries m) \<longleftrightarrow> load m k = Some v"
    and distinct_entries: "invar m \<Longrightarrow> distinct (map fst (entries m))"
    and invar_store: "invar m \<Longrightarrow> invar (store k v m)"
    and invar_del: "invar m \<Longrightarrow> invar (del k m)"
begin

lemma store_same: "load (store k v m) k = Some v"
  by (simp add: load_store)

lemma store_other: "j \<noteq> k \<Longrightarrow> load (store k v m) j = load m j"
  by (simp add: load_store)

lemma del_other: "j \<noteq> k \<Longrightarrow> load (del k m) j = load m j"
  by (simp add: load_del)

lemma invar_fold_store: "invar m \<Longrightarrow> invar (fold (\<lambda>(k, v). store k v) kvs m)"
  by (induction kvs arbitrary: m) (auto simp: invar_store)

lemma invar_fold_del: "invar m \<Longrightarrow> invar (fold del ks m)"
  by (induction ks arbitrary: m) (auto simp: invar_del)

lemma load_fold_del: "load (fold del ks m) = (\<lambda>k. if k \<in> set ks then None else load m k)"
  by (induction ks arbitrary: m) (auto simp: load_del)

text \<open>A traversal visits the value a load returns, once.\<close>

lemma entries_map_of: "invar m \<Longrightarrow> map_of (entries m) = load m"
proof
  fix k
  assume m: "invar m"
  show "map_of (entries m) k = load m k"
  proof (cases "load m k")
    case None
    with m have "k \<notin> fst ` set (entries m)"
      by (auto simp: load_entries)
    with None show ?thesis by (simp add: map_of_eq_None_iff)
  next
    case (Some v)
    with m have "(k, v) \<in> set (entries m)" by (simp add: load_entries)
    with m Some show ?thesis by (simp add: distinct_entries)
  qed
qed

end

interpretation smap: sync_map map_of AList.update AList.delete "\<lambda>m. m" "\<lambda>m. distinct (keys m)"
proof unfold_locales
  show "map_of (AList.update k v m) = (map_of m)(k \<mapsto> v)" for k :: 'a and v :: 'b and m
    by (simp add: update_conv')
  show "map_of (AList.delete k m) = (map_of m)(k := None)" for k :: 'a and m :: "('a \<times> 'b) list"
    by (simp add: delete_conv')
  show "distinct (keys m) \<Longrightarrow> (k, v) \<in> set m \<longleftrightarrow> map_of m k = Some v"
    for k :: 'a and v :: 'b and m
    by simp
qed (simp_all add: distinct_update distinct_delete)

lemmas map_of_update [simp] = smap.load_store
lemmas map_of_delete [simp] = smap.load_del
lemmas distinct_map_ops [simp] = smap.invar_store smap.invar_del

text \<open>Filters and maps over the entries.\<close>

lemma map_of_filter_entries:
  "distinct (keys m) \<Longrightarrow>
   map_of (filter (\<lambda>(k, v). P k v) m) k =
     (case map_of m k of Some v \<Rightarrow> if P k v then Some v else None | None \<Rightarrow> None)"
  by (induction m) (auto split: option.splits simp: map_of_eq_None_iff image_iff)

lemma map_of_filter_keys: "map_of (filter (\<lambda>(k, _). P k) xs) i = (if P i then map_of xs i else None)"
  by (induction xs) auto

lemma map_of_map_entries:
  "map_of (map (\<lambda>(k, v). (k, f k v)) m) k = map_option (f k) (map_of m k)"
  by (induction m) auto

lemma keys_map_entries [simp]: "keys (map (\<lambda>(k, v). (k, f k v)) m) = keys m"
  by (induction m) auto

lemma fst_comp_entry [simp]: "fst \<circ> (\<lambda>(k, v). (k, f k v)) = fst"
  by auto

lemma delete_filter: "AList.delete k m = filter (\<lambda>(k', v). k' \<noteq> k) m"
  by (auto simp: AList.delete_eq intro!: filter_cong)

lemma update_present:
  assumes "distinct (keys m)" "map_of m k = Some v0"
  shows "AList.update k v m = map (\<lambda>(k', v'). (k', if k' = k then v else v')) m"
  using assms
proof (induction m)
  case Nil
  then show ?case by simp
next
  case (Cons p m)
  obtain k' v' where p: "p = (k', v')" by force
  show ?case
  proof (cases "k' = k")
    case True
    with Cons.prems p have "k \<notin> fst ` set m" by simp
    then have "map (\<lambda>(k', v'). (k', if k' = k then v else v')) m = m"
      by (intro map_idI) force
    with p True show ?thesis by simp
  next
    case False
    with Cons p show ?thesis by simp
  qed
qed

lemma update_fresh: "map_of m k = None \<Longrightarrow> AList.update k v m = m @ [(k, v)]"
  by (induction m) (auto split: if_splits)

text \<open>
  The deletion loop of the maintenance operations, \<open>for _, id := range ids {
  if _, loaded := m.LoadAndDelete(id); loaded { deleted++ } }\<close>: the keys it found, in order,
  and the map that is left.
\<close>

fun loadAndDeleteAll :: "'k list \<Rightarrow> ('k \<times> 'v) list \<Rightarrow> 'k list \<times> ('k \<times> 'v) list" where
  "loadAndDeleteAll [] m = ([], m)"
| "loadAndDeleteAll (k # ks) m =
     (case map_LoadAndDelete k m of
        (Some _, m') \<Rightarrow> (case loadAndDeleteAll ks m' of (ds, m'') \<Rightarrow> (k # ds, m''))
      | (None, m') \<Rightarrow> loadAndDeleteAll ks m')"

lemma loadAndDeleteAll_map:
  "snd (loadAndDeleteAll ks m) = filter (\<lambda>(k, v). k \<notin> set ks) m"
proof (induction ks arbitrary: m)
  case Nil
  then show ?case by simp
next
  case (Cons k ks)
  have "filter (\<lambda>(k', v). k' \<notin> set ks) (AList.delete k m)
      = filter (\<lambda>(k', v). k' \<notin> set (k # ks)) m"
    by (auto simp: delete_filter intro!: filter_cong)
  then show ?case
    by (simp add: map_LoadAndDelete_def Cons.IH split: option.splits prod.splits)
       (metis Cons.IH snd_conv)
qed

lemma loadAndDeleteAll_found:
  "distinct ks \<Longrightarrow> fst (loadAndDeleteAll ks m) = filter (\<lambda>k. k \<in> set (keys m)) ks"
proof (induction ks arbitrary: m)
  case Nil
  then show ?case by simp
next
  case (Cons k ks)
  have "filter (\<lambda>k'. k' \<in> set (keys (AList.delete k m))) ks = filter (\<lambda>k'. k' \<in> set (keys m)) ks"
    using Cons.prems by (auto simp: delete_filter intro!: filter_cong)
  moreover have "fst (loadAndDeleteAll ks (AList.delete k m))
      = filter (\<lambda>k'. k' \<in> set (keys (AList.delete k m))) ks"
    using Cons by simp
  ultimately show ?case
    by (auto simp: map_LoadAndDelete_def map_of_eq_None_iff split: option.splits prod.splits)
       (metis domI dom_map_of_conv_image_fst fst_conv image_iff)+
qed

text \<open>The two passes of a maintenance run: collect the keys of the entries to delete, then
  delete them. Every collected key is found, so the count is the number of entries removed.\<close>

lemma collect_and_delete:
  fixes m :: "('k \<times> 'v) list" and P :: "'v \<Rightarrow> bool"
  assumes "distinct (keys m)"
  defines "ks \<equiv> keys (filter (\<lambda>(k, v). P v) m)"
  shows "fst (loadAndDeleteAll ks m) = ks"
    and "snd (loadAndDeleteAll ks m) = filter (\<lambda>(k, v). \<not> P v) m"
proof -
  have d: "distinct ks"
    using assms(1) unfolding ks_def by (rule distinct_map_filter)
  have "set ks \<subseteq> set (keys m)" by (auto simp: ks_def)
  then show "fst (loadAndDeleteAll ks m) = ks"
    unfolding loadAndDeleteAll_found [OF d] by (auto intro: filter_True)
  have "k \<notin> set ks \<longleftrightarrow> \<not> P v" if "(k, v) \<in> set m" for k v
    using that assms(1) by (force simp: ks_def dest: eq_key_imp_eq_value)
  then show "snd (loadAndDeleteAll ks m) = filter (\<lambda>(k, v). \<not> P v) m"
    unfolding loadAndDeleteAll_map by (auto intro!: filter_cong)
qed

text \<open>
  The loop \<open>m.Range(func(key, value) { \<dots> })\<close> whose body may replace the value under the
  current key: it skips a value that fails a first test, loads the key again, and replaces the
  value it then finds or leaves it. The result is the map and the number of replacements.
\<close>

fun rangeUpdate ::
    "('v \<Rightarrow> bool) \<Rightarrow> ('v \<Rightarrow> 'v option) \<Rightarrow> ('k \<times> 'v) list \<Rightarrow> ('k \<times> 'v) list \<times> int \<Rightarrow>
     ('k \<times> 'v) list \<times> int" where
  "rangeUpdate pre upd [] st = st"
| "rangeUpdate pre upd ((k, v) # es) (m, n) =
     (if \<not> pre v then rangeUpdate pre upd es (m, n)
      else case map_of m k of
             None \<Rightarrow> rangeUpdate pre upd es (m, n)
           | Some orig \<Rightarrow>
               (case upd orig of
                  None \<Rightarrow> rangeUpdate pre upd es (m, n)
                | Some v' \<Rightarrow> rangeUpdate pre upd es (AList.update k v' m, n + 1)))"

lemma rangeUpdate_suffix:
  assumes "distinct (keys (done @ es))" "\<And>v. upd v \<noteq> None \<Longrightarrow> pre v"
  shows "rangeUpdate pre upd es (done @ es, n) =
     (done @ map (\<lambda>(k, v). (k, case upd v of None \<Rightarrow> v | Some v' \<Rightarrow> v')) es,
      n + int (length (filter (\<lambda>(k, v). upd v \<noteq> None) es)))"
  using assms(1)
proof (induction es arbitrary: "done" n)
  case Nil
  show ?case by simp
next
  case (Cons e es)
  obtain k v where e: "e = (k, v)" by force
  have look: "map_of (done @ e # es) k = Some v"
    by (subst map_of_eq_Some_iff [OF Cons.prems]) (simp add: e)
  let ?v = "case upd v of None \<Rightarrow> v | Some v' \<Rightarrow> v'"
  have upd: "AList.update k v' (done @ e # es) = (done @ [(k, v')]) @ es" for v'
    using Cons.prems by (induction "done") (auto simp: e)
  have "rangeUpdate pre upd (e # es) (done @ e # es, n) =
      rangeUpdate pre upd es ((done @ [(k, ?v)]) @ es, n + (if upd v = None then 0 else 1))"
    using look upd assms(2) [of v] by (auto simp: e split: option.splits)
  also have "\<dots> = ((done @ [(k, ?v)]) @ map (\<lambda>(k, v). (k, case upd v of None \<Rightarrow> v | Some v' \<Rightarrow> v')) es,
      n + (if upd v = None then 0 else 1) + int (length (filter (\<lambda>(k, v). upd v \<noteq> None) es)))"
    using Cons.prems by (intro Cons.IH) (simp add: e)
  finally show ?case by (simp add: e)
qed

lemma rangeUpdate_eq:
  assumes "distinct (keys m)" "\<And>v. upd v \<noteq> None \<Longrightarrow> pre v"
  shows "rangeUpdate pre upd m (m, 0) =
     (map (\<lambda>(k, v). (k, case upd v of None \<Rightarrow> v | Some v' \<Rightarrow> v')) m,
      int (length (filter (\<lambda>(k, v). upd v \<noteq> None) m)))"
  using rangeUpdate_suffix [of "[]" m upd pre 0] assms by simp

lemma rangeUpdate_if:
  assumes "distinct (keys m)" "\<And>v. upd v = (if sel v then Some (f v) else None)"
    and "\<And>v. sel v \<Longrightarrow> pre v"
  shows "rangeUpdate pre upd m (m, 0) =
     (map (\<lambda>(k, v). (k, if sel v then f v else v)) m, int (length (filter (\<lambda>(k, v). sel v) m)))"
proof -
  have "rangeUpdate pre upd m (m, 0) =
     (map (\<lambda>(k, v). (k, case upd v of None \<Rightarrow> v | Some v' \<Rightarrow> v')) m,
      int (length (filter (\<lambda>(k, v). upd v \<noteq> None) m)))"
    by (rule rangeUpdate_eq [OF assms(1)]) (auto simp: assms(2,3) split: if_splits)
  moreover have "(\<lambda>(k :: 'a, v). (k, case upd v of None \<Rightarrow> v | Some v' \<Rightarrow> v')) =
      (\<lambda>(k, v). (k, if sel v then f v else v))"
    by (auto simp: assms(2) fun_eq_iff)
  moreover have "(\<lambda>(k :: 'a, v). upd v \<noteq> None) = (\<lambda>(k, v). sel v)"
    by (auto simp: assms(2) fun_eq_iff)
  ultimately show ?thesis by simp
qed

section \<open>Strings\<close>

text \<open>\<open>strings.Contains\<close>.\<close>

fun containsStr :: "string \<Rightarrow> string \<Rightarrow> bool" where
  "containsStr sub [] = (sub = [])"
| "containsStr sub (c # s) = (take (length sub) (c # s) = sub \<or> containsStr sub s)"

lemma containsStr_iff: "containsStr sub s \<longleftrightarrow> (\<exists>a b. s = a @ sub @ b)"
proof (induction s)
  case (Cons c s)
  show ?case
  proof
    assume "containsStr sub (c # s)"
    then consider "take (length sub) (c # s) = sub" | "containsStr sub s" by auto
    then show "\<exists>a b. c # s = a @ sub @ b"
    proof cases
      case 1
      then have "c # s = [] @ sub @ drop (length sub) (c # s)"
        by (metis append_Nil append_take_drop_id)
      then show ?thesis by blast
    next
      case 2
      then obtain a b where "s = a @ sub @ b" using Cons.IH by blast
      then have "c # s = (c # a) @ sub @ b" by simp
      then show ?thesis by blast
    qed
  next
    assume "\<exists>a b. c # s = a @ sub @ b"
    then obtain a b where ab: "c # s = a @ sub @ b" by blast
    show "containsStr sub (c # s)"
    proof (cases a)
      case Nil
      with ab have "take (length sub) (c # s) = sub" by simp
      then show ?thesis by simp
    next
      case (Cons x a')
      with ab have "s = a' @ sub @ b" by simp
      then show ?thesis using Cons.IH by auto
    qed
  qed
qed auto

text \<open>
  \<open>strings.ToLower\<close>: byte by byte on a string of ASCII bytes; otherwise \<open>strings.Map\<close> with the
  case tables of the Unicode standard, which are a parameter.
\<close>

definition byteLower :: "char \<Rightarrow> char" where
  "byteLower c = (if CHR ''A'' \<le> c \<and> c \<le> CHR ''Z'' then char_of (of_char c + (32 :: nat)) else c)"

definition isASCII :: "string \<Rightarrow> bool" where
  "isASCII s = list_all (\<lambda>c. (of_char c :: nat) < 128) s"

definition strings_ToLower :: "(string \<Rightarrow> string) \<Rightarrow> string \<Rightarrow> string" where
  "strings_ToLower mapLower s = (if isASCII s then map byteLower s else mapLower s)"

end
