(* ===== verification/Store_Types.thy ===== *)
theory Store_Types
  imports Go_Prelude
begin

text \<open>
  The package \<open>store\<close>: the data every backend shares (\<open>store/message.go\<close>), its errors
  (\<open>store/errors.go\<close>), the folder identifiers, and the filters (\<open>store/filter.go\<close>).
  The lemmas say which folder identifiers are valid, that a filter builder accepts exactly the
  known fields and operators, and that field names resolve to storage keys idempotently.
\<close>

section \<open>Errors\<close>

datatype store_error =
    ErrNotFound | ErrInvalidID | ErrDuplicateEntry | ErrNotConnected | ErrAlreadyConnected
  | ErrEmptyRecipients | ErrEmptySubject | ErrFilterInvalid | ErrRegexSearchDisabled
  | ErrInvalidFolderID | ErrInvalidIdempotencyKey | ErrTransactionFailed | ErrFolderMismatch

section \<open>Message status and folders\<close>

text \<open>\<open>type MessageStatus string\<close>, with the constants of the package.\<close>

type_synonym MessageStatus = string

definition MessageStatusDraft :: MessageStatus where
  "MessageStatusDraft = ''draft''"
definition MessageStatusQueued :: MessageStatus where
  "MessageStatusQueued = ''queued''"
definition MessageStatusSent :: MessageStatus where
  "MessageStatusSent = ''sent''"
definition MessageStatusDelivered :: MessageStatus where
  "MessageStatusDelivered = ''delivered''"
definition MessageStatusFailed :: MessageStatus where
  "MessageStatusFailed = ''failed''"

definition FolderInbox :: string where "FolderInbox = ''__inbox''"
definition FolderSent :: string where "FolderSent = ''__sent''"
definition FolderArchived :: string where "FolderArchived = ''__archived''"
definition FolderTrash :: string where "FolderTrash = ''__trash''"
definition FolderSpam :: string where "FolderSpam = ''__spam''"
definition FolderOutbox :: string where "FolderOutbox = ''__outbox''"
definition FolderDrafts :: string where "FolderDrafts = ''__drafts''"
definition FolderPrefix :: string where "FolderPrefix = ''__''"

lemmas folder_defs =
  FolderInbox_def FolderSent_def FolderArchived_def FolderTrash_def FolderSpam_def
  FolderOutbox_def FolderDrafts_def FolderPrefix_def

definition reservedFolders :: "string list" where
  "reservedFolders =
     [FolderInbox, FolderSent, FolderArchived, FolderTrash, FolderSpam, FolderOutbox, FolderDrafts]"

definition IsReservedFolder :: "string \<Rightarrow> bool" where
  "IsReservedFolder folderID = (folderID \<in> set reservedFolders)"

definition IsValidFolderID :: "string \<Rightarrow> bool" where
  "IsValidFolderID folderID =
     (if folderID = '''' then False
      else if 2 \<le> length folderID \<and> take 2 folderID = FolderPrefix
      then folderID \<in> set reservedFolders
      else True)"

definition IsSentByOwner :: "string \<Rightarrow> string \<Rightarrow> bool" where
  "IsSentByOwner ownerID senderID = (ownerID = senderID)"

lemma folders_distinct: "distinct reservedFolders"
  by (simp add: reservedFolders_def folder_defs)

lemma reserved_folder_valid: "IsReservedFolder f \<Longrightarrow> IsValidFolderID f"
  by (auto simp: IsReservedFolder_def IsValidFolderID_def reservedFolders_def folder_defs)

lemma reserved_prefix: "IsReservedFolder f \<Longrightarrow> take 2 f = FolderPrefix"
  by (auto simp: IsReservedFolder_def reservedFolders_def folder_defs)

lemma FolderTrash_neq [simp]:
  "FolderTrash \<noteq> FolderInbox" "FolderTrash \<noteq> FolderSent" "FolderTrash \<noteq> FolderArchived"
  "FolderInbox \<noteq> FolderTrash" "FolderSent \<noteq> FolderTrash" "FolderArchived \<noteq> FolderTrash"
  "FolderInbox \<noteq> FolderSent" "FolderSent \<noteq> FolderInbox"
  "FolderOutbox \<noteq> FolderSent" "FolderSent \<noteq> FolderOutbox" "FolderOutbox \<noteq> FolderTrash"
  "FolderTrash \<noteq> FolderDrafts" "FolderTrash \<noteq> ''''" "FolderSent \<noteq> ''''" "FolderInbox \<noteq> ''''"
  by (simp_all add: folder_defs)

section \<open>Interface values\<close>

text \<open>
  The values of type \<open>any\<close> that the code distinguishes by a type switch or by \<open>==\<close>, by their
  dynamic type. Two interface values are equal when their dynamic types are identical and the
  values are equal, so a \<open>MessageStatus\<close> is never equal to a \<open>string\<close>. \<open>AOther\<close> stands for a
  value of any other type.
\<close>

datatype any =
    ANil
  | AString string
  | AStatus MessageStatus
  | ABool bool
  | AInt int
  | AInt64 int
  | ATime time
  | AStrings "string list"
  | AAnys "any list"
  | AOther nat

section \<open>Messages\<close>

text \<open>The interface \<open>Attachment\<close>, by what its methods return.\<close>

record Attachment =
  att_ID :: string
  att_Filename :: string
  att_ContentType :: string
  att_Size :: int
  att_URI :: string
  att_CreatedAt :: time

text \<open>
  \<open>Headers\<close> is a map with nil and the empty map identified, which no caller tells apart;
  \<open>Metadata\<close> keeps the difference (\<^const>\<open>None\<close> is the nil map).
\<close>

record MessageData =
  OwnerID :: string
  SenderID :: string
  RecipientIDs :: "string list"
  Subject :: string
  Body :: string
  Headers :: "(string \<times> string) list"
  Metadata :: "(string \<times> any) list option"
  Status :: MessageStatus
  FolderID :: string
  Attachments :: "Attachment list"
  Tags :: "string list"
  ThreadID :: string
  ReplyToID :: string
  ExternalID :: string
  ExpiresAt :: "time option"
  AvailableAt :: "time option"

text \<open>\<open>FromFolder(id)\<close> is \<open>Some id\<close>, no option \<^const>\<open>None\<close>. \<open>ApplyMoveOptions\<close> applies the
  options in order to the zero value, so the last one wins.\<close>

definition ApplyMoveOptions :: "string list \<Rightarrow> string" where
  "ApplyMoveOptions opts = foldl (\<lambda>_ from. from) '''' opts"

lemma ApplyMoveOptions_simps [simp]:
  "ApplyMoveOptions [] = ''''"
  "ApplyMoveOptions (opts @ [from]) = from"
  by (simp_all add: ApplyMoveOptions_def)

lemma ApplyMoveOptions_single [simp]: "ApplyMoveOptions [from] = from"
  by (simp add: ApplyMoveOptions_def)

section \<open>Statistics\<close>

record FolderCounts =
  fc_Total :: int
  fc_Unread :: int

definition zeroCounts :: FolderCounts where
  "zeroCounts = \<lparr>fc_Total = 0, fc_Unread = 0\<rparr>"

record MailboxStats =
  TotalMessages :: int
  UnreadCount :: int
  DraftCount :: int
  Folders :: "(string \<times> FolderCounts) list"

text \<open>A Go map read: the zero value where the key is absent.\<close>

definition folderCounts :: "(string \<times> FolderCounts) list \<Rightarrow> string \<Rightarrow> FolderCounts" where
  "folderCounts fs f = (case map_of fs f of Some c \<Rightarrow> c | None \<Rightarrow> zeroCounts)"

lemma folderCounts_update [simp]:
  "folderCounts (AList.update f c fs) g = (if g = f then c else folderCounts fs g)"
  by (simp add: folderCounts_def)

section \<open>Listing options\<close>

text \<open>\<open>SortOrder\<close> is an integer: 1 ascending, -1 descending, 0 unset.\<close>

type_synonym SortOrder = int

definition SortAsc :: SortOrder where "SortAsc = 1"
definition SortDesc :: SortOrder where "SortDesc = -1"

lemma SortOrder_simps [simp]:
  "SortAsc \<noteq> SortDesc" "SortDesc \<noteq> SortAsc" "SortAsc \<noteq> 0" "SortDesc \<noteq> 0"
  by (simp_all add: SortAsc_def SortDesc_def)

record ListOptions =
  Limit :: int
  Offset :: int
  SortBy :: string
  Order :: SortOrder
  StartAfter :: string

section \<open>Filters\<close>

record Filter =
  filterKey :: string
  filterValue :: any
  filterOperator :: string

definition zeroFilter :: Filter where
  "zeroFilter = \<lparr>filterKey = '''', filterValue = ANil, filterOperator = ''''\<rparr>"

definition validOperators :: "string list" where
  "validOperators =
     [''eq'', ''ne'', ''gt'', ''gte'', ''lt'', ''lte'', ''in'', ''nin'', ''exists'', ''contains'']"

text \<open>The \<open>switch\<close> of \<open>MessageFieldKey\<close>: its case labels with the key each returns.\<close>

definition messageFieldCases :: "(string \<times> string) list" where
  "messageFieldCases =
     [
      (''ID'', ''id''), (''id'', ''id''),
      (''OwnerID'', ''owner_id''), (''owner_id'', ''owner_id''),
      (''SenderID'', ''sender_id''), (''sender_id'', ''sender_id''),
      (''RecipientIDs'', ''recipient_ids''), (''recipient_ids'', ''recipient_ids''),
      (''Subject'', ''subject''), (''subject'', ''subject''),
      (''Body'', ''body''), (''body'', ''body''),
      (''Status'', ''status''), (''status'', ''status''),
      (''IsRead'', ''is_read''), (''is_read'', ''is_read''),
      (''FolderID'', ''folder_id''), (''folder_id'', ''folder_id''),
      (''Tags'', ''tags''), (''tags'', ''tags''),
      (''CreatedAt'', ''created_at''), (''created_at'', ''created_at''),
      (''UpdatedAt'', ''updated_at''), (''updated_at'', ''updated_at''),
      (''ThreadID'', ''thread_id''), (''thread_id'', ''thread_id''),
      (''ReplyToID'', ''reply_to_id''), (''reply_to_id'', ''reply_to_id''),
      (''ExternalID'', ''external_id''), (''external_id'', ''external_id''),
      (''IsDraft'', ''is_draft''), (''is_draft'', ''is_draft''),
      (''ExpiresAt'', ''expires_at''), (''expires_at'', ''expires_at''),
      (''AvailableAt'', ''available_at''), (''available_at'', ''available_at'')]"

definition MessageFieldKey :: "string \<Rightarrow> string option" where
  "MessageFieldKey field = map_of messageFieldCases field"

definition MessageOrderingKey :: "string \<Rightarrow> string option" where
  "MessageOrderingKey field = MessageFieldKey field"

definition NewFilter :: "string \<Rightarrow> string \<Rightarrow> any \<Rightarrow> (store_error, Filter) res" where
  "NewFilter key operator v =
     (case MessageFieldKey key of
        None \<Rightarrow> Err ErrFilterInvalid
      | Some storageKey \<Rightarrow>
          (if operator \<notin> set validOperators then Err ErrFilterInvalid
           else Ok \<lparr>filterKey = storageKey, filterValue = v, filterOperator = operator\<rparr>))"

text \<open>A builder holds the storage key, or the field it did not know.\<close>

record FilterBuilder =
  fb_key :: string
  fb_err :: bool

definition FilterBuilder_build :: "FilterBuilder \<Rightarrow> string \<Rightarrow> any \<Rightarrow> (string, Filter) res" where
  "FilterBuilder_build b op v =
     (if fb_err b then Err (fb_key b)
      else Ok \<lparr>filterKey = fb_key b, filterValue = v, filterOperator = op\<rparr>)"

definition MessageFilter :: "string \<Rightarrow> FilterBuilder" where
  "MessageFilter field =
     (case MessageFieldKey field of
        None \<Rightarrow> \<lparr>fb_key = field, fb_err = True\<rparr>
      | Some key \<Rightarrow> \<lparr>fb_key = key, fb_err = False\<rparr>)"

text \<open>\<open>f, _ := \<dots>\<close>: the filter of a successful build, the zero filter otherwise.\<close>

definition dropErr :: "(string, Filter) res \<Rightarrow> Filter" where
  "dropErr r = (case r of Ok f \<Rightarrow> f | _ \<Rightarrow> zeroFilter)"

definition OwnerIs :: "string \<Rightarrow> Filter" where
  "OwnerIs ownerID = dropErr (FilterBuilder_build (MessageFilter ''OwnerID'') ''eq'' (AString ownerID))"
definition SenderIs :: "string \<Rightarrow> Filter" where
  "SenderIs senderID = dropErr (FilterBuilder_build (MessageFilter ''SenderID'') ''eq'' (AString senderID))"
definition RecipientIs :: "string \<Rightarrow> Filter" where
  "RecipientIs recipientID =
     dropErr (FilterBuilder_build (MessageFilter ''RecipientIDs'') ''contains'' (AString recipientID))"
definition StatusIs :: "MessageStatus \<Rightarrow> Filter" where
  "StatusIs status = dropErr (FilterBuilder_build (MessageFilter ''Status'') ''eq'' (AString status))"
definition IsReadFilter :: "bool \<Rightarrow> Filter" where
  "IsReadFilter b = dropErr (FilterBuilder_build (MessageFilter ''IsRead'') ''eq'' (ABool b))"
definition InFolder :: "string \<Rightarrow> Filter" where
  "InFolder f = dropErr (FilterBuilder_build (MessageFilter ''FolderID'') ''eq'' (AString f))"
definition NotInFolder :: "string \<Rightarrow> Filter" where
  "NotInFolder f = dropErr (FilterBuilder_build (MessageFilter ''FolderID'') ''ne'' (AString f))"
definition NotDeleted :: Filter where
  "NotDeleted = NotInFolder FolderTrash"
definition HasTag :: "string \<Rightarrow> Filter" where
  "HasTag tagID = dropErr (FilterBuilder_build (MessageFilter ''Tags'') ''contains'' (AString tagID))"
definition HasAnyTag :: Filter where
  "HasAnyTag = dropErr (FilterBuilder_build (MessageFilter ''Tags'') ''exists'' (ABool True))"
definition HasTags :: "string list \<Rightarrow> Filter list" where
  "HasTags ts = map HasTag ts"
definition ThreadIs :: "string \<Rightarrow> Filter" where
  "ThreadIs t = dropErr (FilterBuilder_build (MessageFilter ''ThreadID'') ''eq'' (AString t))"
definition ReplyToIs :: "string \<Rightarrow> Filter" where
  "ReplyToIs m = dropErr (FilterBuilder_build (MessageFilter ''ReplyToID'') ''eq'' (AString m))"
definition ExternalIDIs :: "string \<Rightarrow> Filter" where
  "ExternalIDIs i = dropErr (FilterBuilder_build (MessageFilter ''ExternalID'') ''eq'' (AString i))"
definition IsDraftFilter :: "bool \<Rightarrow> Filter" where
  "IsDraftFilter b = dropErr (FilterBuilder_build (MessageFilter ''IsDraft'') ''eq'' (ABool b))"
definition HasThread :: Filter where
  "HasThread = dropErr (FilterBuilder_build (MessageFilter ''ThreadID'') ''exists'' (ABool True))"
definition NotExpired :: "time \<Rightarrow> Filter" where
  "NotExpired now = dropErr (FilterBuilder_build (MessageFilter ''ExpiresAt'') ''gt'' (ATime now))"
definition IsAvailable :: "time \<Rightarrow> Filter" where
  "IsAvailable now = dropErr (FilterBuilder_build (MessageFilter ''AvailableAt'') ''lte'' (ATime now))"

lemmas filter_defs =
  OwnerIs_def SenderIs_def RecipientIs_def StatusIs_def IsReadFilter_def InFolder_def
  NotInFolder_def NotDeleted_def HasTag_def HasAnyTag_def HasTags_def ThreadIs_def ReplyToIs_def
  ExternalIDIs_def IsDraftFilter_def HasThread_def NotExpired_def IsAvailable_def
  FilterBuilder_build_def MessageFilter_def MessageFieldKey_def messageFieldCases_def dropErr_def

text \<open>A storage key is itself an accepted field name and resolves to itself.\<close>

lemma MessageFieldKey_idem: "MessageFieldKey f = Some k \<Longrightarrow> MessageFieldKey k = Some k"
proof -
  assume "MessageFieldKey f = Some k"
  then have "(f, k) \<in> set messageFieldCases"
    by (auto simp: MessageFieldKey_def dest: map_of_SomeD)
  then have "k \<in> snd ` set messageFieldCases" by force
  moreover have "\<forall>k \<in> snd ` set messageFieldCases. MessageFieldKey k = Some k"
    by code_simp
  ultimately show ?thesis by blast
qed

lemma NewFilter_Ok_iff:
  "(\<exists>f. NewFilter key op v = Ok f) \<longleftrightarrow> MessageFieldKey key \<noteq> None \<and> op \<in> set validOperators"
  by (auto simp: NewFilter_def split: option.splits)

text \<open>
  \<open>NewFilter\<close> and the builder agree wherever \<open>NewFilter\<close> succeeds; the builder only lacks the
  check of the operator, which its methods fix.
\<close>

lemma NewFilter_build:
  "NewFilter key op v = Ok f \<Longrightarrow> FilterBuilder_build (MessageFilter key) op v = Ok f"
  by (auto simp: NewFilter_def FilterBuilder_build_def MessageFilter_def split: option.splits if_splits)

text \<open>
  A folder identifier is accepted exactly when it is one of the seven reserved folders or a
  non-empty name that does not start with the reserved prefix; so no user-defined folder can
  collide with a system folder.
\<close>

lemma IsValidFolderID_iff:
  "IsValidFolderID f \<longleftrightarrow> IsReservedFolder f \<or> (f \<noteq> '''' \<and> take 2 f \<noteq> FolderPrefix)"
proof -
  have "take 2 f = FolderPrefix \<Longrightarrow> 2 \<le> length f"
    by (cases f; cases "tl f") (auto simp: FolderPrefix_def)
  moreover have "IsReservedFolder f \<Longrightarrow> f \<noteq> '''' \<and> take 2 f = FolderPrefix"
    using reserved_prefix [of f] by (auto simp: FolderPrefix_def)
  ultimately show ?thesis
    by (auto simp: IsValidFolderID_def IsReservedFolder_def)
qed

end
