(* ===== verification/Memory_Message.thy ===== *)
theory Memory_Message
  imports Store_Types
begin

text \<open>
  The in-memory backend's message (\<open>store/memory/message.go\<close>): one record for drafts and sent
  messages, its deep copy, the setters of a draft, and how a message is built from the data of a
  send (\<open>newMessageFromData\<close> of \<open>store/memory/create.go\<close>). The clock is an argument: a call's
  reads of \<open>time.Now()\<close> return the same instant. The lemmas say that a clone is equal to its
  original, and which fields identify a message through its life.
\<close>

record message =
  msgID :: string
  ownerID :: string
  senderID :: string
  recipientIDs :: "string list"
  subject :: string
  body :: string
  headers :: "(string \<times> string) list"
  metadata :: "(string \<times> any) list option"
  status :: MessageStatus
  isRead :: bool
  readAt :: "time option"
  folderID :: string
  tags :: "string list"
  attachments :: "Attachment list"
  createdAt :: time
  updatedAt :: time
  isDraft :: bool
  threadID :: string
  replyToID :: string
  externalID :: string
  expiresAt :: "time option"
  availableAt :: "time option"

text \<open>The zero value of the struct, from which a composite literal starts.\<close>

definition zeroMessage :: message where
  "zeroMessage =
     \<lparr>msgID = '''', ownerID = '''', senderID = '''', recipientIDs = [], subject = '''', body = '''',
      headers = [], metadata = None, status = '''', isRead = False, readAt = None, folderID = '''',
      tags = [], attachments = [], createdAt = zeroTime, updatedAt = zeroTime, isDraft = False,
      threadID = '''', replyToID = '''', externalID = '''', expiresAt = None, availableAt = None\<rparr>"

text \<open>
  \<open>clone\<close> copies the scalar fields, then each slice, map and pointer that is not nil.
\<close>

definition clone :: "message \<Rightarrow> message" where
  "clone m =
     (let c = zeroMessage\<lparr>msgID := msgID m, ownerID := ownerID m, senderID := senderID m,
                subject := subject m, body := body m, status := status m, isRead := isRead m,
                folderID := folderID m, createdAt := createdAt m, updatedAt := updatedAt m,
                isDraft := isDraft m, threadID := threadID m, replyToID := replyToID m,
                externalID := externalID m\<rparr>;
          c = c\<lparr>recipientIDs := recipientIDs m\<rparr>;
          c = c\<lparr>tags := tags m\<rparr>;
          c = c\<lparr>attachments := attachments m\<rparr>;
          c = c\<lparr>headers := headers m\<rparr>;
          c = (case metadata m of None \<Rightarrow> c | Some md \<Rightarrow> c\<lparr>metadata := Some md\<rparr>);
          c = (case readAt m of None \<Rightarrow> c | Some t \<Rightarrow> c\<lparr>readAt := Some t\<rparr>);
          c = (case expiresAt m of None \<Rightarrow> c | Some t \<Rightarrow> c\<lparr>expiresAt := Some t\<rparr>);
          c = (case availableAt m of None \<Rightarrow> c | Some t \<Rightarrow> c\<lparr>availableAt := Some t\<rparr>)
      in c)"

lemma clone_eq [simp]: "clone m = m"
  by (cases m) (simp add: clone_def zeroMessage_def Let_def split: option.split)

lemma map_clone [simp]: "map clone ms = ms"
  by (simp add: map_idI)

section \<open>Draft setters\<close>

definition message_SetSubject :: "time \<Rightarrow> string \<Rightarrow> message \<Rightarrow> message" where
  "message_SetSubject now s m = m\<lparr>subject := s, updatedAt := now\<rparr>"

definition message_SetBody :: "time \<Rightarrow> string \<Rightarrow> message \<Rightarrow> message" where
  "message_SetBody now b m = m\<lparr>body := b, updatedAt := now\<rparr>"

definition message_SetRecipients :: "time \<Rightarrow> string list \<Rightarrow> message \<Rightarrow> message" where
  "message_SetRecipients now rs m = m\<lparr>recipientIDs := rs, updatedAt := now\<rparr>"

definition message_SetHeader :: "time \<Rightarrow> string \<Rightarrow> string \<Rightarrow> message \<Rightarrow> message" where
  "message_SetHeader now k v m = m\<lparr>headers := AList.update k v (headers m), updatedAt := now\<rparr>"

definition message_SetMetadata :: "time \<Rightarrow> string \<Rightarrow> any \<Rightarrow> message \<Rightarrow> message" where
  "message_SetMetadata now k v m =
     (let md = (case metadata m of None \<Rightarrow> [] | Some md \<Rightarrow> md)
      in m\<lparr>metadata := Some (AList.update k v md), updatedAt := now\<rparr>)"

definition message_AddAttachment :: "time \<Rightarrow> Attachment \<Rightarrow> message \<Rightarrow> message" where
  "message_AddAttachment now a m = m\<lparr>attachments := attachments m @ [a], updatedAt := now\<rparr>"

definition message_SetTTL :: "time \<Rightarrow> duration \<Rightarrow> message \<Rightarrow> message" where
  "message_SetTTL now d m =
     (if d \<le> 0 then m\<lparr>expiresAt := None, updatedAt := now\<rparr>
      else m\<lparr>expiresAt := Some (now + d), updatedAt := now\<rparr>)"

definition message_SetExternalID :: "time \<Rightarrow> string \<Rightarrow> message \<Rightarrow> message" where
  "message_SetExternalID now i m = m\<lparr>externalID := i, updatedAt := now\<rparr>"

definition message_SetThreadID :: "time \<Rightarrow> string \<Rightarrow> message \<Rightarrow> message" where
  "message_SetThreadID now i m = m\<lparr>threadID := i, updatedAt := now\<rparr>"

definition message_SetReplyToID :: "time \<Rightarrow> string \<Rightarrow> message \<Rightarrow> message" where
  "message_SetReplyToID now i m = m\<lparr>replyToID := i, updatedAt := now\<rparr>"

definition message_SetScheduleAt :: "time \<Rightarrow> time \<Rightarrow> message \<Rightarrow> message" where
  "message_SetScheduleAt now t m =
     (if t = zeroTime then m\<lparr>availableAt := None, updatedAt := now\<rparr>
      else m\<lparr>availableAt := Some t, updatedAt := now\<rparr>)"

lemmas setter_defs =
  message_SetSubject_def message_SetBody_def message_SetRecipients_def message_SetHeader_def
  message_SetMetadata_def message_AddAttachment_def message_SetTTL_def message_SetExternalID_def
  message_SetThreadID_def message_SetReplyToID_def message_SetScheduleAt_def

section \<open>Construction\<close>

definition newMessageFromData :: "MessageData \<Rightarrow> string \<Rightarrow> time \<Rightarrow> message" where
  "newMessageFromData data i now =
     (let m = zeroMessage\<lparr>msgID := i, ownerID := OwnerID data, senderID := SenderID data,
                subject := Subject data, body := Body data, status := Status data,
                folderID := FolderID data, threadID := ThreadID data,
                replyToID := ReplyToID data, externalID := ExternalID data,
                createdAt := now, updatedAt := now\<rparr>;
          m = m\<lparr>recipientIDs := RecipientIDs data\<rparr>;
          m = m\<lparr>tags := Tags data\<rparr>;
          m = m\<lparr>headers := Headers data\<rparr>;
          m = (case Metadata data of None \<Rightarrow> m | Some md \<Rightarrow> m\<lparr>metadata := Some md\<rparr>);
          m = m\<lparr>attachments := Attachments data\<rparr>;
          m = (case ExpiresAt data of None \<Rightarrow> m | Some t \<Rightarrow> m\<lparr>expiresAt := Some t\<rparr>);
          m = (case AvailableAt data of None \<Rightarrow> m | Some t \<Rightarrow> m\<lparr>availableAt := Some t\<rparr>)
      in m)"

lemma newMessageFromData_sel [simp]:
  "msgID (newMessageFromData d i now) = i"
  "ownerID (newMessageFromData d i now) = OwnerID d"
  "senderID (newMessageFromData d i now) = SenderID d"
  "recipientIDs (newMessageFromData d i now) = RecipientIDs d"
  "subject (newMessageFromData d i now) = Subject d"
  "body (newMessageFromData d i now) = Body d"
  "headers (newMessageFromData d i now) = Headers d"
  "metadata (newMessageFromData d i now) = Metadata d"
  "status (newMessageFromData d i now) = Status d"
  "folderID (newMessageFromData d i now) = FolderID d"
  "tags (newMessageFromData d i now) = Tags d"
  "attachments (newMessageFromData d i now) = Attachments d"
  "threadID (newMessageFromData d i now) = ThreadID d"
  "replyToID (newMessageFromData d i now) = ReplyToID d"
  "externalID (newMessageFromData d i now) = ExternalID d"
  "expiresAt (newMessageFromData d i now) = ExpiresAt d"
  "availableAt (newMessageFromData d i now) = AvailableAt d"
  "createdAt (newMessageFromData d i now) = now"
  "updatedAt (newMessageFromData d i now) = now"
  "isDraft (newMessageFromData d i now) = False"
  "isRead (newMessageFromData d i now) = False"
  "readAt (newMessageFromData d i now) = None"
  by (simp_all add: newMessageFromData_def zeroMessage_def Let_def split: option.split)

section \<open>Identity and read state\<close>

text \<open>
  The part of a message that no store operation on a sent message may change: who owns it, who
  sent it to whom, and what it says.
\<close>

definition same_content :: "message \<Rightarrow> message \<Rightarrow> bool" where
  "same_content m m' \<longleftrightarrow>
     msgID m' = msgID m \<and> ownerID m' = ownerID m \<and> senderID m' = senderID m \<and>
     recipientIDs m' = recipientIDs m \<and> subject m' = subject m \<and> body m' = body m \<and>
     headers m' = headers m \<and> metadata m' = metadata m \<and> status m' = status m \<and>
     attachments m' = attachments m \<and> createdAt m' = createdAt m \<and> isDraft m' = isDraft m \<and>
     threadID m' = threadID m \<and> replyToID m' = replyToID m \<and> externalID m' = externalID m \<and>
     expiresAt m' = expiresAt m \<and> availableAt m' = availableAt m"

lemma same_content_refl [simp]: "same_content m m"
  by (simp add: same_content_def)

lemma same_content_trans: "same_content a b \<Longrightarrow> same_content b c \<Longrightarrow> same_content a c"
  by (simp add: same_content_def)

lemma same_content_updates [simp]:
  "same_content m (m\<lparr>isRead := r, readAt := t, updatedAt := u\<rparr>)"
  "same_content m (m\<lparr>isRead := r, updatedAt := u, readAt := t\<rparr>)"
  "same_content m (m\<lparr>folderID := f, updatedAt := u\<rparr>)"
  "same_content m (m\<lparr>tags := ts, updatedAt := u\<rparr>)"
  by (simp_all add: same_content_def)

text \<open>A message is read exactly when it carries the time it was read.\<close>

definition read_consistent :: "message \<Rightarrow> bool" where
  "read_consistent m \<longleftrightarrow> (isRead m \<longleftrightarrow> readAt m \<noteq> None)"

end
