(* ===== verification/Memory_Filter.thy ===== *)
theory Memory_Filter
  imports Memory_Message "HOL-Library.Multiset"
begin

text \<open>
  How the in-memory backend evaluates filters and sorts results
  (\<open>store/memory/helpers.go\<close>). A filter compares interface values, so the dynamic type of the
  filter's value matters. The lemmas give the meaning of every convenience filter of the package
  \<open>store\<close> on a message, and the correctness of the exchange sort behind every listing: it
  permutes its input, and on a known sort key it orders it.
\<close>

section \<open>Comparison of interface values\<close>

text \<open>\<open>strings.Compare\<close> and the three-way comparisons of numbers and times.\<close>

definition compare3 :: "'a::linorder \<Rightarrow> 'a \<Rightarrow> int" where
  "compare3 a b = (if a < b then -1 else if a > b then 1 else 0)"

fun compareValues :: "any \<Rightarrow> any \<Rightarrow> int" where
  "compareValues (AString a) (AString b) = compare3 a b"
| "compareValues (AInt a) (AInt b) = compare3 a b"
| "compareValues (AInt64 a) (AInt64 b) = compare3 a b"
| "compareValues (ATime a) (ATime b) = compare3 a b"
| "compareValues _ _ = 0"

lemma compare3_iff [simp]:
  "compare3 a b < 0 \<longleftrightarrow> a < b" "compare3 a b \<le> 0 \<longleftrightarrow> a \<le> b"
  "0 < compare3 a b \<longleftrightarrow> b < a" "0 \<le> compare3 a b \<longleftrightarrow> b \<le> a"
  by (auto simp: compare3_def)

text \<open>The type switch on a set value: a list of strings, or a list of interface values.\<close>

fun valueInSet :: "any \<Rightarrow> any \<Rightarrow> bool" where
  "valueInSet fieldValue (AStrings ss) =
     (case fieldValue of AString fv \<Rightarrow> fv \<in> set ss | _ \<Rightarrow> False)"
| "valueInSet fieldValue (AAnys vs) = (fieldValue \<in> set vs)"
| "valueInSet fieldValue _ = False"

text \<open>\<open>exists, _ := value.(bool)\<close>: false when the value is not a boolean.\<close>

fun asBool :: "any \<Rightarrow> bool" where
  "asBool (ABool b) = b"
| "asBool _ = False"

definition matchesSliceFilter :: "string list \<Rightarrow> string \<Rightarrow> any \<Rightarrow> bool" where
  "matchesSliceFilter slice op v =
     (if op = ''contains'' then (case v of AString s \<Rightarrow> s \<in> set slice | _ \<Rightarrow> False)
      else if op = ''exists'' then asBool v = (slice \<noteq> [])
      else if op \<in> {''eq'', ''='', ''''} then
        (case v of AStrings other \<Rightarrow> length slice = length other \<and>
                       list_all2 (=) slice other
         | _ \<Rightarrow> False)
      else True)"

section \<open>Filters\<close>

text \<open>
  The operator applied to a scalar field's value. \<open>fieldValue == ""\<close> compares with the
  \<open>string\<close> constant.
\<close>

definition applyOperator :: "any \<Rightarrow> string \<Rightarrow> any \<Rightarrow> bool" where
  "applyOperator fieldValue op v =
     (if op \<in> {''eq'', ''='', ''''} then fieldValue = v
      else if op \<in> {''ne'', ''!=''} then fieldValue \<noteq> v
      else if op \<in> {''lt'', ''<''} then compareValues fieldValue v < 0
      else if op \<in> {''lte'', ''<=''} then compareValues fieldValue v \<le> 0
      else if op \<in> {''gt'', ''>''} then compareValues fieldValue v > 0
      else if op \<in> {''gte'', ''>=''} then compareValues fieldValue v \<ge> 0
      else if op = ''exists'' then
        (let isEmpty = (fieldValue = AString '''' \<or> fieldValue = ANil)
         in asBool v \<noteq> isEmpty)
      else if op = ''in'' then valueInSet fieldValue v
      else if op = ''nin'' then \<not> valueInSet fieldValue v
      else True)"

text \<open>An optional time field: nil matches only \<open>exists false\<close>.\<close>

definition matchesOptTime :: "time option \<Rightarrow> string \<Rightarrow> any \<Rightarrow> bool" where
  "matchesOptTime t op v =
     (case t of
        None \<Rightarrow> (if op = ''exists'' then \<not> asBool v else False)
      | Some x \<Rightarrow> applyOperator (ATime x) op v)"

definition matchesFilter :: "message \<Rightarrow> Filter \<Rightarrow> bool" where
  "matchesFilter m f =
     (let key = filterKey f; v = filterValue f; op = filterOperator f in
      if key = ''tags'' then matchesSliceFilter (tags m) op v
      else if key = ''recipient_ids'' then matchesSliceFilter (recipientIDs m) op v
      else if key = ''id'' then applyOperator (AString (msgID m)) op v
      else if key = ''owner_id'' then applyOperator (AString (ownerID m)) op v
      else if key = ''sender_id'' then applyOperator (AString (senderID m)) op v
      else if key = ''subject'' then applyOperator (AString (subject m)) op v
      else if key = ''folder_id'' then applyOperator (AString (folderID m)) op v
      else if key = ''is_read'' then applyOperator (ABool (isRead m)) op v
      else if key = ''status'' then applyOperator (AStatus (status m)) op v
      else if key = ''thread_id'' then applyOperator (AString (threadID m)) op v
      else if key = ''reply_to_id'' then applyOperator (AString (replyToID m)) op v
      else if key = ''external_id'' then applyOperator (AString (externalID m)) op v
      else if key = ''created_at'' then applyOperator (ATime (createdAt m)) op v
      else if key = ''updated_at'' then applyOperator (ATime (updatedAt m)) op v
      else if key = ''is_draft'' then applyOperator (ABool (isDraft m)) op v
      else if key = ''expires_at'' then matchesOptTime (expiresAt m) op v
      else if key = ''available_at'' then matchesOptTime (availableAt m) op v
      else True)"

fun matchesFilters :: "message \<Rightarrow> Filter list \<Rightarrow> bool" where
  "matchesFilters m [] = True"
| "matchesFilters m (f # fs) = (if \<not> matchesFilter m f then False else matchesFilters m fs)"

lemma matchesFilters_iff: "matchesFilters m fs \<longleftrightarrow> (\<forall>f\<in>set fs. matchesFilter m f)"
  by (induction fs) auto

lemma matchesFilters_append [simp]:
  "matchesFilters m (fs @ gs) \<longleftrightarrow> matchesFilters m fs \<and> matchesFilters m gs"
  by (auto simp: matchesFilters_iff)

definition hasAllTags :: "message \<Rightarrow> string list \<Rightarrow> bool" where
  "hasAllTags m ts = list_all (\<lambda>t. t \<in> set (tags m)) ts"

lemmas eval_defs = matchesFilter_def applyOperator_def matchesSliceFilter_def matchesOptTime_def Let_def

lemma matches_OwnerIs [simp]: "matchesFilter m (OwnerIs u) \<longleftrightarrow> ownerID m = u"
  by (simp add: filter_defs eval_defs)
lemma matches_SenderIs [simp]: "matchesFilter m (SenderIs u) \<longleftrightarrow> senderID m = u"
  by (simp add: filter_defs eval_defs)
lemma matches_RecipientIs [simp]: "matchesFilter m (RecipientIs u) \<longleftrightarrow> u \<in> set (recipientIDs m)"
  by (simp add: filter_defs eval_defs)
lemma matches_IsReadFilter [simp]: "matchesFilter m (IsReadFilter b) \<longleftrightarrow> isRead m = b"
  by (simp add: filter_defs eval_defs)
lemma matches_InFolder [simp]: "matchesFilter m (InFolder f) \<longleftrightarrow> folderID m = f"
  by (simp add: filter_defs eval_defs)
lemma matches_NotInFolder [simp]: "matchesFilter m (NotInFolder f) \<longleftrightarrow> folderID m \<noteq> f"
  by (simp add: filter_defs eval_defs)
lemma matches_NotDeleted [simp]: "matchesFilter m NotDeleted \<longleftrightarrow> folderID m \<noteq> FolderTrash"
  by (simp add: NotDeleted_def)
lemma matches_HasTag [simp]: "matchesFilter m (HasTag t) \<longleftrightarrow> t \<in> set (tags m)"
  by (simp add: filter_defs eval_defs)
lemma matches_HasAnyTag [simp]: "matchesFilter m HasAnyTag \<longleftrightarrow> tags m \<noteq> []"
  by (simp add: filter_defs eval_defs)
lemma matches_HasTags: "matchesFilters m (HasTags ts) \<longleftrightarrow> set ts \<subseteq> set (tags m)"
  by (auto simp: HasTags_def matchesFilters_iff)
lemma matches_ThreadIs [simp]: "matchesFilter m (ThreadIs t) \<longleftrightarrow> threadID m = t"
  by (simp add: filter_defs eval_defs)
lemma matches_ReplyToIs [simp]: "matchesFilter m (ReplyToIs i) \<longleftrightarrow> replyToID m = i"
  by (simp add: filter_defs eval_defs)
lemma matches_ExternalIDIs [simp]: "matchesFilter m (ExternalIDIs i) \<longleftrightarrow> externalID m = i"
  by (simp add: filter_defs eval_defs)
lemma matches_IsDraftFilter [simp]: "matchesFilter m (IsDraftFilter b) \<longleftrightarrow> isDraft m = b"
  by (simp add: filter_defs eval_defs)
lemma matches_HasThread [simp]: "matchesFilter m HasThread \<longleftrightarrow> threadID m \<noteq> ''''"
  by (simp add: filter_defs eval_defs)
lemma matches_NotExpired [simp]:
  "matchesFilter m (NotExpired now) \<longleftrightarrow> (\<exists>t. expiresAt m = Some t \<and> now < t)"
  by (simp add: filter_defs eval_defs split: option.split)
lemma matches_IsAvailable [simp]:
  "matchesFilter m (IsAvailable now) \<longleftrightarrow> (\<exists>t. availableAt m = Some t \<and> t \<le> now)"
  by (simp add: filter_defs eval_defs split: option.split)

lemma hasAllTags_iff: "hasAllTags m ts \<longleftrightarrow> set ts \<subseteq> set (tags m)"
  by (auto simp: hasAllTags_def list_all_iff)

section \<open>The exchange sort\<close>

definition shouldSwap :: "string \<Rightarrow> SortOrder \<Rightarrow> message \<Rightarrow> message \<Rightarrow> bool" where
  "shouldSwap sortBy order mi mj =
     (if sortBy = ''created_at'' then
        (if order = SortAsc then createdAt mi > createdAt mj else createdAt mi < createdAt mj)
      else if sortBy = ''updated_at'' then
        (if order = SortAsc then updatedAt mi > updatedAt mj else updatedAt mi < updatedAt mj)
      else if sortBy = ''subject'' then
        (if order = SortAsc then subject mi > subject mj else subject mi < subject mj)
      else False)"

text \<open>
  The two nested loops over the slice: for each \<open>i\<close>, every later \<open>j\<close> is compared with the
  element now at \<open>i\<close> and exchanged with it when they are out of order.
\<close>

definition swapStep :: "('a \<Rightarrow> 'a \<Rightarrow> bool) \<Rightarrow> nat \<Rightarrow> 'a list \<Rightarrow> nat \<Rightarrow> 'a list" where
  "swapStep out i xs j = (if out (xs ! i) (xs ! j) then xs[i := xs ! j, j := xs ! i] else xs)"

definition sortInner :: "('a \<Rightarrow> 'a \<Rightarrow> bool) \<Rightarrow> 'a list \<Rightarrow> nat \<Rightarrow> 'a list" where
  "sortInner out xs i = foldl (swapStep out i) xs [Suc i ..< length xs]"

definition sortLoops :: "('a \<Rightarrow> 'a \<Rightarrow> bool) \<Rightarrow> 'a list \<Rightarrow> 'a list" where
  "sortLoops out xs = foldl (sortInner out) xs [0 ..< length xs - 1]"

definition sortMessages :: "message list \<Rightarrow> string \<Rightarrow> SortOrder \<Rightarrow> message list" where
  "sortMessages msgs sortBy order =
     (let sortBy = (if sortBy = '''' then ''created_at'' else sortBy);
          order = (if order = 0 then SortDesc else order)
      in sortLoops (shouldSwap sortBy order) msgs)"

text \<open>What the loops need of the comparison: it is a strict weak order.\<close>

locale exchange_sort =
  fixes out :: "'a \<Rightarrow> 'a \<Rightarrow> bool"
  assumes out_asym: "out a b \<Longrightarrow> \<not> out b a"
    and out_negtrans: "\<not> out a b \<Longrightarrow> \<not> out b c \<Longrightarrow> \<not> out a c"
begin

lemma out_irrefl [simp]: "\<not> out a a"
  using out_asym by blast

lemma length_step [simp]: "length (swapStep out i xs j) = length xs"
  by (simp add: swapStep_def)

lemma mset_step: "i < length xs \<Longrightarrow> j < length xs \<Longrightarrow> mset (swapStep out i xs j) = mset xs"
  by (simp add: swapStep_def mset_swap)

lemma step_other: "k \<noteq> i \<Longrightarrow> k \<noteq> j \<Longrightarrow> swapStep out i xs j ! k = xs ! k"
  by (simp add: swapStep_def)

text \<open>The inner loop up to \<open>n\<close>: a permutation that leaves the prefix alone and has put at \<open>i\<close>
  an element no examined one has to precede.\<close>

lemma inner_upto:
  assumes "i < length xs" "n \<le> length xs"
  defines "ys \<equiv> foldl (swapStep out i) xs [Suc i ..< n]"
  shows "length ys = length xs" and "mset ys = mset xs"
    and "\<And>k. k < i \<Longrightarrow> ys ! k = xs ! k"
    and "\<And>k. i \<le> k \<Longrightarrow> k < n \<Longrightarrow> \<not> out (ys ! i) (ys ! k)"
    and "\<And>k. n \<le> k \<Longrightarrow> i < k \<Longrightarrow> ys ! k = xs ! k"
proof -
  have "length ys = length xs \<and> mset ys = mset xs \<and> (\<forall>k<i. ys ! k = xs ! k) \<and>
     (\<forall>k. i \<le> k \<and> k < n \<longrightarrow> \<not> out (ys ! i) (ys ! k)) \<and> (\<forall>k. n \<le> k \<and> i < k \<longrightarrow> ys ! k = xs ! k)"
    using assms(2) unfolding ys_def
  proof (induction n)
    case 0
    show ?case by simp
  next
    case (Suc n)
    define zs where "zs = foldl (swapStep out i) xs [Suc i ..< n]"
    have zs: "length zs = length xs" "mset zs = mset xs" "\<forall>k<i. zs ! k = xs ! k"
      "\<forall>k. i \<le> k \<and> k < n \<longrightarrow> \<not> out (zs ! i) (zs ! k)" "\<forall>k. n \<le> k \<and> i < k \<longrightarrow> zs ! k = xs ! k"
      using Suc unfolding zs_def by auto
    show ?case
    proof (cases "Suc i \<le> n")
      case False
      then have "[Suc i ..< Suc n] = []" by simp
      with False assms(1) Suc.prems show ?thesis
        by (auto simp: less_Suc_eq not_less_eq_eq dest: le_antisym)
    next
      case True
      have eq: "foldl (swapStep out i) xs [Suc i ..< Suc n] = swapStep out i zs n"
        using True by (simp add: zs_def)
      have n: "n < length zs" "i < length zs" using Suc.prems zs(1) assms(1) by auto
      have low: "\<not> out (swapStep out i zs n ! i) (swapStep out i zs n ! k)"
        if "i \<le> k" "k < Suc n" for k
        using that n True zs(4)
        by (auto simp: swapStep_def nth_list_update less_Suc_eq dest: out_asym)
           (metis le_less_trans less_irrefl nat_le_linear not_less_eq_eq out_asym out_negtrans)+
      show ?thesis
        unfolding eq using zs n True low
        by (auto simp: mset_step step_other)
    qed
  qed
  then show "length ys = length xs" "mset ys = mset xs"
    "\<And>k. k < i \<Longrightarrow> ys ! k = xs ! k"
    "\<And>k. i \<le> k \<Longrightarrow> k < n \<Longrightarrow> \<not> out (ys ! i) (ys ! k)"
    "\<And>k. n \<le> k \<Longrightarrow> i < k \<Longrightarrow> ys ! k = xs ! k"
    by auto
qed

lemma inner_suffix:
  assumes "i < length xs"
  shows "mset (drop i (sortInner out xs i)) = mset (drop i xs)"
proof -
  let ?ys = "sortInner out xs i"
  note inner = inner_upto [OF assms le_refl, folded sortInner_def]
  have "take i ?ys = take i xs"
    using inner(1,3) by (intro nth_equalityI) auto
  moreover have "mset (take i ?ys) + mset (drop i ?ys) = mset (take i xs) + mset (drop i xs)"
    using inner(2) by (metis append_take_drop_id mset_append)
  ultimately show ?thesis by simp
qed

lemma outer_upto:
  assumes "m \<le> length xs - 1"
  defines "ys \<equiv> foldl (sortInner out) xs [0 ..< m]"
  shows "length ys = length xs" "mset ys = mset xs"
    "\<And>a b. a < b \<Longrightarrow> a < m \<Longrightarrow> b < length xs \<Longrightarrow> \<not> out (ys ! a) (ys ! b)"
proof -
  have "length ys = length xs \<and> mset ys = mset xs \<and>
      (\<forall>a b. a < b \<and> a < m \<and> b < length xs \<longrightarrow> \<not> out (ys ! a) (ys ! b))"
    using assms(1) unfolding ys_def
  proof (induction m)
    case 0
    show ?case by simp
  next
    case (Suc m)
    define zs where "zs = foldl (sortInner out) xs [0 ..< m]"
    have zs: "length zs = length xs" "mset zs = mset xs"
      "\<And>a b. a < b \<Longrightarrow> a < m \<Longrightarrow> b < length xs \<Longrightarrow> \<not> out (zs ! a) (zs ! b)"
      using Suc unfolding zs_def by auto
    have m: "m < length zs" using Suc.prems zs(1) by auto
    note inner = inner_upto [OF m le_refl, folded sortInner_def]
    have "\<not> out (sortInner out zs m ! a) (sortInner out zs m ! b)"
      if ab: "a < b" "a < Suc m" "b < length xs" for a b
    proof (cases "a = m")
      case True
      with ab inner(4) zs(1) show ?thesis by simp
    next
      case False
      with ab have a: "a < m" by simp
      show ?thesis
      proof (cases "b < m")
        case True
        with a ab zs show ?thesis by (simp add: inner(3))
      next
        case False
        have "sortInner out zs m ! b \<in> set (drop m (sortInner out zs m))"
          using False ab zs(1) inner(1)
          by (metis in_set_drop_conv_nth not_less)
        then have "sortInner out zs m ! b \<in> set (drop m zs)"
          using inner_suffix [OF m] by (metis set_mset_mset)
        then obtain k where "m \<le> k" "k < length zs" "sortInner out zs m ! b = zs ! k"
          by (auto simp: in_set_drop_conv_nth)
        with a zs show ?thesis by (simp add: inner(3))
      qed
    qed
    then show ?case using inner(1,2) zs by (simp add: zs_def [symmetric])
  qed
  then show "length ys = length xs" "mset ys = mset xs"
    "\<And>a b. a < b \<Longrightarrow> a < m \<Longrightarrow> b < length xs \<Longrightarrow> \<not> out (ys ! a) (ys ! b)"
    by auto
qed

lemma sortLoops_mset: "mset (sortLoops out xs) = mset xs"
  unfolding sortLoops_def by (rule outer_upto(2)) simp

lemma sortLoops_sorted: "sorted_wrt (\<lambda>a b. \<not> out a b) (sortLoops out xs)"
  unfolding sortLoops_def sorted_wrt_iff_nth_less
proof (intro allI impI)
  fix a b
  let ?ys = "foldl (sortInner out) xs [0 ..< length xs - 1]"
  assume ab: "a < b" "b < length ?ys"
  have "length ?ys = length xs" by (rule outer_upto(1)) simp
  with ab show "\<not> out (?ys ! a) (?ys ! b)" by (intro outer_upto(3)) auto
qed

end

lemma shouldSwap_weak_order: "exchange_sort (shouldSwap sortBy order)"
  by unfold_locales (auto simp: shouldSwap_def split: if_splits)

interpretation by_key: exchange_sort "shouldSwap sortBy order" for sortBy order
  by (rule shouldSwap_weak_order)

lemma mset_sortMessages [simp]: "mset (sortMessages msgs sortBy order) = mset msgs"
  by (simp add: sortMessages_def Let_def by_key.sortLoops_mset)

lemma set_sortMessages [simp]: "set (sortMessages msgs sortBy order) = set msgs"
  by (metis mset_sortMessages set_mset_mset)

lemma length_sortMessages [simp]: "length (sortMessages msgs sortBy order) = length msgs"
  by (metis mset_sortMessages size_mset)

lemma distinct_ids_sortMessages:
  "distinct (map msgID (sortMessages msgs sortBy order)) = distinct (map msgID msgs)"
  by (metis mset_map mset_sortMessages mset_eq_imp_distinct_iff)

lemma sortLoops_never: "sortLoops (\<lambda>_ _. False) xs = xs"
proof -
  have "sortInner (\<lambda>_ _. False) = (\<lambda>(ys :: 'a list) i. ys)"
    by (simp add: fun_eq_iff sortInner_def swapStep_def [abs_def] foldl_const)
  then show ?thesis by (simp add: sortLoops_def foldl_const)
qed

lemma sortMessages_unknown_key:
  assumes "sortBy \<notin> {'''', ''created_at'', ''updated_at'', ''subject''}"
  shows "sortMessages msgs sortBy order = msgs"
proof -
  have "shouldSwap sortBy (if order = 0 then SortDesc else order) = (\<lambda>_ _. False)"
    using assms by (auto simp: shouldSwap_def fun_eq_iff)
  with assms show ?thesis by (simp add: sortMessages_def Let_def sortLoops_never)
qed

section \<open>Properties\<close>



text \<open>
  C39: the filter \<open>StatusIs\<close> matches no message at all: it compares the message's status, of type
  \<open>MessageStatus\<close>, with a \<open>string\<close>, and values of different dynamic types are never equal.
\<close>

theorem StatusIs_never_matches: "\<not> matchesFilter m (StatusIs st)"
  by (simp add: filter_defs eval_defs)

end
