(* ===== verification/Memory_Store.thy ===== *)
theory Memory_Store
  imports Memory_Filter
begin

text \<open>
  The in-memory backend (\<open>store/memory/store.go\<close> and \<open>create.go\<close>): its state, its lifecycle,
  the draft operations, the creation of messages with and without an idempotency key, and the
  maintenance operations. Each call is one step, as the per-message locks and the atomic map
  operations make it when no other call overlaps it; the theory \<open>Memory_Race\<close> interleaves the
  steps of the one operation that takes no lock.

  \<open>uuid.New()\<close> comes from a third-party package: the identifiers it returns are a parameter
  \<open>uuid\<close>, the \<open>n\<close>-th call returning \<open>uuid n\<close>, and the state counts the calls. What the code
  relies on is \<open>uuid_ok\<close>: the identifiers differ from each other and are not empty.
\<close>

section \<open>State\<close>

record Store =
  messages :: "(string \<times> message) list"
  idempotencyIdx :: "(string \<times> string) list"
  externalIdx :: "(string \<times> string) list"
  connected :: bool
  uuidSeq :: nat

type_synonym uuids = "nat \<Rightarrow> string"

definition uuid_ok :: "uuids \<Rightarrow> bool" where
  "uuid_ok uuid \<longleftrightarrow> inj uuid \<and> (\<forall>n. uuid n \<noteq> '''')"

definition newUUID :: "uuids \<Rightarrow> Store \<Rightarrow> string \<times> Store" where
  "newUUID uuid s = (uuid (uuidSeq s), s\<lparr>uuidSeq := Suc (uuidSeq s)\<rparr>)"

abbreviation msg_of :: "Store \<Rightarrow> string \<Rightarrow> message option" where
  "msg_of s \<equiv> map_of (messages s)"

section \<open>Lifecycle\<close>

definition Store_New :: Store where
  "Store_New = \<lparr>messages = [], idempotencyIdx = [], externalIdx = [], connected = False, uuidSeq = 0\<rparr>"

definition Store_Connect :: "Store \<Rightarrow> Store \<times> (store_error, unit) res" where
  "Store_Connect s =
     (if connected s then (s, Err ErrAlreadyConnected) else (s\<lparr>connected := True\<rparr>, Ok ()))"

definition Store_Close :: "Store \<Rightarrow> Store \<times> (store_error, unit) res" where
  "Store_Close s = (s\<lparr>connected := False\<rparr>, Ok ())"

section \<open>Drafts\<close>

definition Store_NewDraft :: "time \<Rightarrow> string \<Rightarrow> message" where
  "Store_NewDraft now owner =
     zeroMessage\<lparr>ownerID := owner, senderID := owner, metadata := Some [],
                 status := MessageStatusDraft, createdAt := now, updatedAt := now, isDraft := True\<rparr>"

definition Store_GetDraft :: "string \<Rightarrow> Store \<Rightarrow> (store_error, message) res" where
  "Store_GetDraft i s =
     (if \<not> connected s then Err ErrNotConnected
      else if i = '''' then Err ErrInvalidID
      else case msg_of s i of
             None \<Rightarrow> Err ErrNotFound
           | Some m \<Rightarrow> (if \<not> isDraft m then Err ErrNotFound else Ok (clone m)))"

text \<open>
  The argument of \<open>SaveDraft\<close> is an interface value: a draft of this backend, whose record is
  used as it is, or any other implementation, given by what its getters return.
\<close>

datatype DraftMessage = OwnDraft message | ForeignDraft message

fun draftRecord :: "DraftMessage \<Rightarrow> message" where
  "draftRecord (OwnDraft m) = m"
| "draftRecord (ForeignDraft g) =
     zeroMessage\<lparr>msgID := msgID g, ownerID := ownerID g, senderID := senderID g,
                 subject := subject g, body := body g, recipientIDs := recipientIDs g,
                 threadID := threadID g, replyToID := replyToID g, externalID := externalID g,
                 expiresAt := expiresAt g, availableAt := availableAt g,
                 createdAt := createdAt g, updatedAt := updatedAt g, isDraft := True,
                 headers := headers g,
                 metadata := (case metadata g of Some md \<Rightarrow> Some md | None \<Rightarrow> Some []),
                 attachments := attachments g\<rparr>"

definition Store_SaveDraft ::
    "uuids \<Rightarrow> time \<Rightarrow> DraftMessage \<Rightarrow> Store \<Rightarrow> Store \<times> (store_error, message) res" where
  "Store_SaveDraft uuid now draft s =
     (if \<not> connected s then (s, Err ErrNotConnected)
      else
        let m = draftRecord draft;
            (m, s) = (if msgID m = ''''
                      then (let (i, s') = newUUID uuid s in (m\<lparr>msgID := i\<rparr>, s')) else (m, s));
            m = m\<lparr>updatedAt := now, isDraft := True\<rparr>
        in (s\<lparr>messages := AList.update (msgID m) (clone m) (messages s)\<rparr>, Ok (clone m)))"

definition Store_DeleteDraft :: "string \<Rightarrow> Store \<Rightarrow> Store \<times> (store_error, unit) res" where
  "Store_DeleteDraft i s =
     (if \<not> connected s then (s, Err ErrNotConnected)
      else if i = '''' then (s, Err ErrInvalidID)
      else case msg_of s i of
             None \<Rightarrow> (s, Err ErrNotFound)
           | Some m \<Rightarrow>
               (if \<not> isDraft m then (s, Err ErrNotFound)
                else (s\<lparr>messages := AList.delete i (messages s)\<rparr>, Ok ())))"

record DraftList =
  dl_Drafts :: "message list"
  dl_Total :: int
  dl_HasMore :: bool

definition Store_ListDrafts :: "string \<Rightarrow> ListOptions \<Rightarrow> Store \<Rightarrow> (store_error, DraftList) res" where
  "Store_ListDrafts owner opts s =
     (if \<not> connected s then Err ErrNotConnected
      else
        let drafts = sortMessages (filter (\<lambda>m. isDraft m \<and> ownerID m = owner) (map snd (messages s)))
                       ''created_at'' SortDesc;
            n = int (length drafts);
            start = (if Offset opts > n then n else Offset opts);
            end = wrap64 (start + Limit opts);
            end = (if Limit opts = 0 then n else end);
            end = (if end > n then n else end)
        in case go_slice drafts start end of
             None \<Rightarrow> Panic
           | Some r \<Rightarrow> Ok \<lparr>dl_Drafts = map clone r, dl_Total = n, dl_HasMore = end < n\<rparr>)"

section \<open>Creation\<close>

definition Store_CreateMessage ::
    "uuids \<Rightarrow> time \<Rightarrow> MessageData \<Rightarrow> Store \<Rightarrow> Store \<times> (store_error, message) res" where
  "Store_CreateMessage uuid now data s =
     (if \<not> connected s then (s, Err ErrNotConnected)
      else
        let (i, s) = newUUID uuid s;
            m = newMessageFromData data i now;
            s = s\<lparr>messages := AList.update (msgID m) m (messages s)\<rparr>;
            s = (if externalID m \<noteq> ''''
                 then s\<lparr>externalIdx := AList.update (externalID m) (msgID m) (externalIdx s)\<rparr> else s)
        in (s, Ok (clone m)))"

definition idxKey :: "string \<Rightarrow> string \<Rightarrow> string" where
  "idxKey owner key = owner @ '':'' @ key"

text \<open>
  The loop of \<open>CreateMessageIdempotent\<close>, with the attempts left: it reserves the key for a new
  identifier, or finds the message the key already names, or drops a key whose message is gone.
  The result is the message found, or \<^const>\<open>None\<close> with the identifier to create.
\<close>

fun idempotentLoop ::
    "uuids \<Rightarrow> string \<Rightarrow> nat \<Rightarrow> string \<Rightarrow> Store \<Rightarrow> Store \<times> message option \<times> string" where
  "idempotentLoop uuid k 0 newMsgID s = (s, None, newMsgID)"
| "idempotentLoop uuid k (Suc attempts) _ s =
     (let (newMsgID, s) = newUUID uuid s;
          ((existingID, loaded), idx) = map_LoadOrStore k newMsgID (idempotencyIdx s);
          s = s\<lparr>idempotencyIdx := idx\<rparr>
      in if \<not> loaded then (s, None, newMsgID)
         else case msg_of s existingID of
                Some m \<Rightarrow> (s, Some (clone m), newMsgID)
              | None \<Rightarrow>
                  idempotentLoop uuid k attempts newMsgID
                    (s\<lparr>idempotencyIdx := AList.delete k (idempotencyIdx s)\<rparr>))"

definition Store_CreateMessageIdempotent ::
    "uuids \<Rightarrow> time \<Rightarrow> MessageData \<Rightarrow> string \<Rightarrow> Store \<Rightarrow> Store \<times> (store_error, message \<times> bool) res" where
  "Store_CreateMessageIdempotent uuid now data idempotencyKey s =
     (if \<not> connected s then (s, Err ErrNotConnected)
      else if idempotencyKey = '''' then (s, Err ErrInvalidIdempotencyKey)
      else case idempotentLoop uuid (idxKey (OwnerID data) idempotencyKey) 2 '''' s of
             (s, Some m, _) \<Rightarrow> (s, Ok (m, False))
           | (s, None, newMsgID) \<Rightarrow>
               let m = newMessageFromData data newMsgID now
               in (s\<lparr>messages := AList.update (msgID m) m (messages s)\<rparr>, Ok (clone m, True)))"

text \<open>The batch form: an entry's result does not stop the others.\<close>

fun createIdempotentLoop ::
    "uuids \<Rightarrow> time \<Rightarrow> (MessageData \<times> string) list \<Rightarrow> Store \<Rightarrow>
     Store \<times> (store_error, message \<times> bool) res list" where
  "createIdempotentLoop uuid now [] s = (s, [])"
| "createIdempotentLoop uuid now ((data, key) # es) s =
     (case Store_CreateMessageIdempotent uuid now data key s of
        (s', r) \<Rightarrow> (case createIdempotentLoop uuid now es s' of (s'', rs) \<Rightarrow> (s'', r # rs)))"

definition Store_CreateMessagesIdempotent ::
    "uuids \<Rightarrow> time \<Rightarrow> (MessageData \<times> string) list \<Rightarrow> Store \<Rightarrow>
     Store \<times> (store_error, (store_error, message \<times> bool) res list) res" where
  "Store_CreateMessagesIdempotent uuid now entries s =
     (if \<not> connected s then (s, Err ErrNotConnected)
      else case createIdempotentLoop uuid now entries s of (s', rs) \<Rightarrow> (s', Ok rs))"

fun createLoop ::
    "uuids \<Rightarrow> time \<Rightarrow> MessageData list \<Rightarrow> Store \<Rightarrow> Store \<times> (store_error, message list) res" where
  "createLoop uuid now [] s = (s, Ok [])"
| "createLoop uuid now (d # ds) s =
     (case Store_CreateMessage uuid now d s of
        (s', Ok m) \<Rightarrow>
          (case createLoop uuid now ds s' of
             (s'', Ok ms) \<Rightarrow> (s'', Ok (m # ms))
           | (s'', r) \<Rightarrow> (s'', r))
      | (s', Err e) \<Rightarrow> (s', Err e)
      | (s', Panic) \<Rightarrow> (s', Panic))"

definition Store_CreateMessages ::
    "uuids \<Rightarrow> time \<Rightarrow> MessageData list \<Rightarrow> Store \<Rightarrow> Store \<times> (store_error, message list) res" where
  "Store_CreateMessages uuid now data s =
     (if \<not> connected s then (s, Err ErrNotConnected) else createLoop uuid now data s)"

section \<open>Maintenance\<close>

text \<open>The two passes of a bulk deletion: collect the keys, then delete each and count it.\<close>

definition deleteWhere :: "(message \<Rightarrow> bool) \<Rightarrow> Store \<Rightarrow> Store \<times> int" where
  "deleteWhere P s =
     (let toDelete = keys (filter (\<lambda>(k, m). P m) (messages s));
          (deleted, ms) = loadAndDeleteAll toDelete (messages s)
      in (s\<lparr>messages := ms\<rparr>, int (length deleted)))"

definition Store_DeleteExpiredTrash :: "time \<Rightarrow> Store \<Rightarrow> Store \<times> (store_error, int) res" where
  "Store_DeleteExpiredTrash cutoff s =
     (if \<not> connected s then (s, Err ErrNotConnected)
      else case deleteWhere (\<lambda>m. \<not> isDraft m \<and> folderID m = FolderTrash \<and> updatedAt m < cutoff) s
           of (s', n) \<Rightarrow> (s', Ok n))"

definition Store_DeleteExpiredMessages :: "time \<Rightarrow> Store \<Rightarrow> Store \<times> (store_error, int) res" where
  "Store_DeleteExpiredMessages cutoff s =
     (if \<not> connected s then (s, Err ErrNotConnected)
      else case deleteWhere (\<lambda>m. \<not> isDraft m \<and> createdAt m < cutoff) s of (s', n) \<Rightarrow> (s', Ok n))"

definition Store_DeleteTTLExpiredMessages :: "time \<Rightarrow> Store \<Rightarrow> Store \<times> (store_error, int) res" where
  "Store_DeleteTTLExpiredMessages now s =
     (if \<not> connected s then (s, Err ErrNotConnected)
      else case deleteWhere
             (\<lambda>m. \<not> isDraft m \<and> (case expiresAt m of None \<Rightarrow> False | Some t \<Rightarrow> t < now)) s
           of (s', n) \<Rightarrow> (s', Ok n))"

definition Store_DeleteMessagesByIDs ::
    "string list \<Rightarrow> Store \<Rightarrow> Store \<times> (store_error, string list) res" where
  "Store_DeleteMessagesByIDs ids s =
     (if \<not> connected s then (s, Err ErrNotConnected)
      else case loadAndDeleteAll ids (messages s) of
             (deleted, ms) \<Rightarrow> (s\<lparr>messages := ms\<rparr>, Ok deleted))"

lemmas memory_store_defs [store_defs] =
  newUUID_def Store_Connect_def Store_Close_def Store_GetDraft_def Store_SaveDraft_def
  Store_DeleteDraft_def Store_CreateMessage_def Store_CreateMessageIdempotent_def
  Store_CreateMessagesIdempotent_def Store_CreateMessages_def deleteWhere_def
  Store_DeleteExpiredTrash_def Store_DeleteExpiredMessages_def Store_DeleteTTLExpiredMessages_def
  Store_DeleteMessagesByIDs_def

section \<open>Invariants\<close>

text \<open>
  What every operation keeps: the maps have distinct keys, a message is stored under its own
  identifier, which is not empty, and a message that is not a draft is read exactly when it has
  a read time.
\<close>

definition entry_ok :: "string \<Rightarrow> message \<Rightarrow> bool" where
  "entry_ok k m \<longleftrightarrow> msgID m = k \<and> k \<noteq> '''' \<and> (isDraft m \<or> read_consistent m)"

definition store_inv :: "Store \<Rightarrow> bool" where
  "store_inv s \<longleftrightarrow>
     distinct (keys (messages s)) \<and> distinct (keys (idempotencyIdx s)) \<and>
     list_all (\<lambda>(k, m). entry_ok k m) (messages s)"

text \<open>
  No identifier that is still to be drawn is in use, and the message an index entry leads to
  belongs to the owner the entry was made for.
\<close>

definition ids_fresh :: "uuids \<Rightarrow> Store \<Rightarrow> bool" where
  "ids_fresh uuid s \<longleftrightarrow>
     (\<forall>n \<ge> uuidSeq s. uuid n \<notin> set (keys (messages s)) \<and> uuid n \<notin> snd ` set (idempotencyIdx s))"

definition for_owner :: "string \<Rightarrow> string \<Rightarrow> bool" where
  "for_owner owner k \<longleftrightarrow> take (Suc (length owner)) k = owner @ '':''"

definition idx_sound :: "Store \<Rightarrow> bool" where
  "idx_sound s \<longleftrightarrow>
     (\<forall>(k, i) \<in> set (idempotencyIdx s).
        case msg_of s i of Some m \<Rightarrow> for_owner (ownerID m) k | None \<Rightarrow> True)"

definition store_ok :: "uuids \<Rightarrow> Store \<Rightarrow> bool" where
  "store_ok uuid s \<longleftrightarrow> store_inv s \<and> ids_fresh uuid s \<and> idx_sound s"

lemma for_owner_idxKey [simp]: "for_owner owner (idxKey owner key)"
  by (simp add: for_owner_def idxKey_def)

lemma store_inv_iff:
  "store_inv s \<longleftrightarrow>
     distinct (keys (messages s)) \<and> distinct (keys (idempotencyIdx s)) \<and>
     (\<forall>k m. msg_of s k = Some m \<longrightarrow> entry_ok k m)"
  by (auto simp: store_inv_def list_all_iff dest: map_of_SomeD)

lemma store_invD:
  assumes "store_inv s"
  shows "distinct (keys (messages s))" "distinct (keys (idempotencyIdx s))"
    and "\<And>k m. msg_of s k = Some m \<Longrightarrow> entry_ok k m"
  using assms by (auto simp: store_inv_iff)

lemma inv_msgID [simp]: "store_inv s \<Longrightarrow> msg_of s k = Some m \<Longrightarrow> msgID m = k"
  by (auto dest: store_invD(3) simp: entry_ok_def)

lemma inv_put:
  "store_inv s \<Longrightarrow> entry_ok i m \<Longrightarrow> store_inv (s\<lparr>messages := AList.update i m (messages s)\<rparr>)"
  by (auto simp: store_inv_iff)

lemma inv_filter: "store_inv s \<Longrightarrow> store_inv (s\<lparr>messages := filter P (messages s)\<rparr>)"
  by (auto simp: store_inv_def list_all_iff distinct_map_filter)

text \<open>Only the maps matter to the invariant.\<close>

lemma inv_other [simp]:
  "store_inv (s\<lparr>uuidSeq := n\<rparr>) = store_inv s" "store_inv (s\<lparr>connected := c\<rparr>) = store_inv s"
  "store_inv (s\<lparr>externalIdx := x\<rparr>) = store_inv s"
  "ids_fresh uuid (s\<lparr>connected := c\<rparr>) = ids_fresh uuid s"
  "ids_fresh uuid (s\<lparr>externalIdx := x\<rparr>) = ids_fresh uuid s"
  "idx_sound (s\<lparr>uuidSeq := n\<rparr>) = idx_sound s" "idx_sound (s\<lparr>connected := c\<rparr>) = idx_sound s"
  "idx_sound (s\<lparr>externalIdx := x\<rparr>) = idx_sound s"
  by (simp_all add: store_inv_def ids_fresh_def idx_sound_def)

lemma store_ok_other [simp]:
  "store_ok uuid (s\<lparr>connected := c\<rparr>) = store_ok uuid s"
  "store_ok uuid (s\<lparr>externalIdx := x\<rparr>) = store_ok uuid s"
  by (simp_all add: store_ok_def)

lemma store_ok_next [simp]: "store_ok uuid s \<Longrightarrow> store_ok uuid (s\<lparr>uuidSeq := Suc (uuidSeq s)\<rparr>)"
  by (simp add: store_ok_def ids_fresh_def)

lemma store_ok_fresh:
  assumes "store_ok uuid s" "uuidSeq s \<le> n"
  shows "msg_of s (uuid n) = None" "(k, uuid n) \<notin> set (idempotencyIdx s)"
  using assms by (force simp: store_ok_def ids_fresh_def map_of_eq_None_iff)+

text \<open>Updates at a stored identifier that keep the owner, and at a new one.\<close>

lemma store_ok_put:
  assumes "store_ok uuid s" "entry_ok i m" "msg_of s i = Some m0" "ownerID m = ownerID m0"
  shows "store_ok uuid (s\<lparr>messages := AList.update i m (messages s)\<rparr>)"
proof -
  have "i \<in> set (keys (messages s))" using assms(3) by (force dest: map_of_SomeD)
  then have "ids_fresh uuid (s\<lparr>messages := AList.update i m (messages s)\<rparr>)"
    using assms(1) by (auto simp: store_ok_def ids_fresh_def update_keys)
  moreover have "idx_sound (s\<lparr>messages := AList.update i m (messages s)\<rparr>)"
    using assms(1,3,4) by (fastforce simp: store_ok_def idx_sound_def)
  ultimately show ?thesis using assms(1,2) by (simp add: store_ok_def inv_put)
qed

lemma store_ok_put_new:
  assumes s: "store_ok uuid s" and inj: "inj uuid" and m: "entry_ok (uuid n) m"
    and n: "n < uuidSeq s"
    and idx: "\<And>k. (k, uuid n) \<in> set (idempotencyIdx s) \<Longrightarrow> for_owner (ownerID m) k"
  shows "store_ok uuid (s\<lparr>messages := AList.update (uuid n) m (messages s)\<rparr>)"
proof -
  have "uuid j \<noteq> uuid n" if "j \<ge> uuidSeq s" for j
    using inj n that by (metis injD leD)
  then have "ids_fresh uuid (s\<lparr>messages := AList.update (uuid n) m (messages s)\<rparr>)"
    using s by (auto simp: store_ok_def ids_fresh_def update_keys)
  moreover have "idx_sound (s\<lparr>messages := AList.update (uuid n) m (messages s)\<rparr>)"
    using s idx by (fastforce simp: store_ok_def idx_sound_def)
  ultimately show ?thesis using s m by (simp add: store_ok_def inv_put)
qed

lemma store_ok_filter:
  assumes "store_ok uuid s"
  shows "store_ok uuid (s\<lparr>messages := filter (\<lambda>(k, m). P k m) (messages s)\<rparr>)"
proof -
  let ?s = "s\<lparr>messages := filter (\<lambda>(k, m). P k m) (messages s)\<rparr>"
  have d: "distinct (keys (messages s))" using assms by (simp add: store_ok_def store_invD)
  have "ids_fresh uuid ?s"
    using assms by (force simp: store_ok_def ids_fresh_def)
  moreover have "idx_sound ?s"
    using assms d
    by (fastforce simp: store_ok_def idx_sound_def map_of_filter_entries split: option.splits)
  ultimately show ?thesis using assms by (simp add: store_ok_def inv_filter)
qed

lemma store_ok_del: "store_ok uuid s \<Longrightarrow> store_ok uuid (s\<lparr>messages := AList.delete i (messages s)\<rparr>)"
  unfolding delete_filter by (rule store_ok_filter)

lemma New_ok: "store_ok uuid Store_New"
  by (simp add: store_ok_def store_inv_def ids_fresh_def idx_sound_def Store_New_def)

section \<open>Creation keeps the invariants\<close>

lemma newMessage_entry_ok: "i \<noteq> '''' \<Longrightarrow> entry_ok i (newMessageFromData d i now)"
  by (simp add: entry_ok_def read_consistent_def)

lemma CreateMessage_eq:
  "connected s \<Longrightarrow>
   Store_CreateMessage uuid now d s =
     (let i = uuid (uuidSeq s); m = newMessageFromData d i now
      in (s\<lparr>uuidSeq := Suc (uuidSeq s), messages := AList.update i m (messages s),
            externalIdx := (if ExternalID d \<noteq> '''' then AList.update (ExternalID d) i (externalIdx s)
                            else externalIdx s)\<rparr>, Ok m))"
  by (simp add: Store_CreateMessage_def newUUID_def Let_def)

lemma CreateMessage_ok [keeps_inv]:
  assumes "uuid_ok uuid" "store_ok uuid s"
  shows "store_ok uuid (fst (Store_CreateMessage uuid now d s))"
proof (cases "connected s")
  case True
  let ?i = "uuid (uuidSeq s)" and ?s = "s\<lparr>uuidSeq := Suc (uuidSeq s)\<rparr>"
  have "store_ok uuid (?s\<lparr>messages := AList.update ?i (newMessageFromData d ?i now) (messages ?s)\<rparr>)"
  proof (rule store_ok_put_new)
    show "for_owner (ownerID (newMessageFromData d ?i now)) k" if "(k, ?i) \<in> set (idempotencyIdx ?s)" for k
      using that store_ok_fresh(2) [OF assms(2) order_refl] by simp
  qed (use assms in \<open>auto simp: uuid_ok_def newMessage_entry_ok\<close>)
  then show ?thesis
    using True by (simp add: CreateMessage_eq Let_def)
qed (use assms in \<open>simp add: Store_CreateMessage_def\<close>)

text \<open>The loop of the idempotent creation, on each state of the index.\<close>

lemma idempotentLoop_hit:
  assumes "map_of (idempotencyIdx s) k = Some i" "msg_of s i = Some m"
  shows "idempotentLoop uuid k (Suc n) x s = (s\<lparr>uuidSeq := Suc (uuidSeq s)\<rparr>, Some m, uuid (uuidSeq s))"
  using assms by (simp add: newUUID_def map_LoadOrStore_def)

lemma idempotentLoop_miss:
  assumes "map_of (idempotencyIdx s) k = None"
  shows "idempotentLoop uuid k (Suc n) x s =
    (s\<lparr>uuidSeq := Suc (uuidSeq s),
        idempotencyIdx := AList.update k (uuid (uuidSeq s)) (idempotencyIdx s)\<rparr>,
     None, uuid (uuidSeq s))"
  using assms by (simp add: newUUID_def map_LoadOrStore_def)

lemma idempotentLoop_stale:
  assumes "map_of (idempotencyIdx s) k = Some i" "msg_of s i = None"
  shows "idempotentLoop uuid k (Suc (Suc n)) x s =
    (s\<lparr>uuidSeq := Suc (Suc (uuidSeq s)),
        idempotencyIdx := AList.update k (uuid (Suc (uuidSeq s))) (AList.delete k (idempotencyIdx s))\<rparr>,
     None, uuid (Suc (uuidSeq s)))"
  using assms by (simp add: newUUID_def map_LoadOrStore_def)

text \<open>What the index says about a key: a stored message, or nothing to return.\<close>

definition idempotent_hit :: "Store \<Rightarrow> string \<Rightarrow> message option" where
  "idempotent_hit s k =
     (case map_of (idempotencyIdx s) k of Some i \<Rightarrow> msg_of s i | None \<Rightarrow> None)"

lemma CreateMessageIdempotent_hit:
  assumes "connected s" "key \<noteq> ''''" "idempotent_hit s (idxKey (OwnerID d) key) = Some m"
  shows "Store_CreateMessageIdempotent uuid now d key s =
           (s\<lparr>uuidSeq := Suc (uuidSeq s)\<rparr>, Ok (m, False))"
proof -
  obtain i where "map_of (idempotencyIdx s) (idxKey (OwnerID d) key) = Some i" "msg_of s i = Some m"
    using assms(3) by (auto simp: idempotent_hit_def split: option.splits)
  from idempotentLoop_hit [OF this] assms(1,2) show ?thesis
    by (simp add: Store_CreateMessageIdempotent_def numeral_2_eq_2 del: idempotentLoop.simps)
qed

text \<open>The state after the key is reserved for a new message, before the message is stored.\<close>

definition reserve :: "uuids \<Rightarrow> string \<Rightarrow> Store \<Rightarrow> Store \<times> nat" where
  "reserve uuid k s =
     (let n = (if map_of (idempotencyIdx s) k = None then uuidSeq s else Suc (uuidSeq s))
      in (s\<lparr>uuidSeq := Suc n,
            idempotencyIdx := AList.update k (uuid n) (AList.delete k (idempotencyIdx s))\<rparr>, n))"

lemma delete_absent: "map_of m k = None \<Longrightarrow> AList.delete k m = m"
  by (force simp: delete_filter filter_id_conv map_of_eq_None_iff)

lemma CreateMessageIdempotent_new:
  assumes "connected s" "key \<noteq> ''''" "idempotent_hit s (idxKey (OwnerID d) key) = None"
  shows "Store_CreateMessageIdempotent uuid now d key s =
     (let (s', n) = reserve uuid (idxKey (OwnerID d) key) s; m = newMessageFromData d (uuid n) now
      in (s'\<lparr>messages := AList.update (uuid n) m (messages s)\<rparr>, Ok (m, True)))"
proof (cases "map_of (idempotencyIdx s) (idxKey (OwnerID d) key)")
  case None
  with assms(1,2) idempotentLoop_miss [OF None] show ?thesis
    by (simp add: Store_CreateMessageIdempotent_def reserve_def numeral_2_eq_2 delete_absent
        Let_def del: idempotentLoop.simps)
next
  case (Some i)
  with assms(3) have "msg_of s i = None" by (simp add: idempotent_hit_def)
  with assms(1,2) Some idempotentLoop_stale [OF Some] show ?thesis
    by (simp add: Store_CreateMessageIdempotent_def reserve_def numeral_2_eq_2
        Let_def del: idempotentLoop.simps)
qed

lemma set_update_delete: "set (AList.update k v (AList.delete k m)) = insert (k, v) (set (AList.delete k m))"
proof -
  have "map_of (AList.delete k m) k = None" by simp
  then show ?thesis by (simp add: update_fresh)
qed

lemma reserve_ok:
  assumes "uuid_ok uuid" "store_ok uuid s" "reserve uuid k s = (s', n)"
  shows "store_ok uuid s'" "n < uuidSeq s'" "uuidSeq s \<le> n" "messages s' = messages s"
    "connected s' = connected s" "msg_of s (uuid n) = None"
    "\<And>k'. (k', uuid n) \<in> set (idempotencyIdx s') \<longleftrightarrow> k' = k"
    "\<And>k'. k' \<noteq> k \<Longrightarrow> map_of (idempotencyIdx s') k' = map_of (idempotencyIdx s) k'"
    "map_of (idempotencyIdx s') k = Some (uuid n)"
proof -
  show n: "n < uuidSeq s'" "uuidSeq s \<le> n" and same: "messages s' = messages s"
    "connected s' = connected s"
    and idx: "\<And>k'. k' \<noteq> k \<Longrightarrow> map_of (idempotencyIdx s') k' = map_of (idempotencyIdx s) k'"
      "map_of (idempotencyIdx s') k = Some (uuid n)"
    using assms(3) by (auto simp: reserve_def Let_def split: if_splits)
  show fresh: "msg_of s (uuid n) = None" using store_ok_fresh(1) [OF assms(2) n(2)] .
  have set': "set (idempotencyIdx s') = insert (k, uuid n) (set (AList.delete k (idempotencyIdx s)))"
    using assms(3) by (auto simp: reserve_def Let_def set_update_delete split: if_splits)
  have sub: "set (AList.delete k (idempotencyIdx s)) \<subseteq> set (idempotencyIdx s)"
    by (auto simp: delete_filter)
  show "(k', uuid n) \<in> set (idempotencyIdx s') \<longleftrightarrow> k' = k" for k'
    using store_ok_fresh(2) [OF assms(2) n(2)] sub by (auto simp: set')
  have "store_inv s'"
    using assms(2,3) by (auto simp: store_ok_def store_inv_def reserve_def Let_def split: if_splits)
  moreover have "ids_fresh uuid s'"
    unfolding ids_fresh_def
  proof (intro allI impI conjI)
    fix j assume j: "uuidSeq s' \<le> j"
    with n assms(1,2) show "uuid j \<notin> set (keys (messages s'))"
      unfolding same by (auto simp: store_ok_def ids_fresh_def)
    have "uuid j \<noteq> uuid n" using j n(1) assms(1) by (metis injD leD uuid_ok_def)
    moreover have "uuid j \<notin> snd ` set (idempotencyIdx s)"
      using j n assms(2) by (auto simp: store_ok_def ids_fresh_def)
    ultimately show "uuid j \<notin> snd ` set (idempotencyIdx s')"
      using sub by (auto simp: set')
  qed
  moreover have "idx_sound s'"
    using assms(2) sub fresh unfolding idx_sound_def same set'
    by (auto simp: store_ok_def idx_sound_def)
  ultimately show "store_ok uuid s'" by (simp add: store_ok_def)
qed

lemma CreateMessageIdempotent_ok [keeps_inv]:
  assumes "uuid_ok uuid" "store_ok uuid s"
  shows "store_ok uuid (fst (Store_CreateMessageIdempotent uuid now d key s))"
proof (cases "connected s \<and> key \<noteq> ''''")
  case True
  let ?k = "idxKey (OwnerID d) key"
  show ?thesis
  proof (cases "idempotent_hit s ?k")
    case (Some m)
    with True assms show ?thesis by (simp add: CreateMessageIdempotent_hit)
  next
    case None
    obtain s' n where r: "reserve uuid ?k s = (s', n)" by force
    note r_ok = reserve_ok [OF assms r]
    have "store_ok uuid
        (s'\<lparr>messages := AList.update (uuid n) (newMessageFromData d (uuid n) now) (messages s')\<rparr>)"
      using assms(1) r_ok by (intro store_ok_put_new) (auto simp: uuid_ok_def newMessage_entry_ok)
    with True None r r_ok(4) show ?thesis by (simp add: CreateMessageIdempotent_new Let_def)
  qed
qed (use assms in \<open>auto simp: Store_CreateMessageIdempotent_def\<close>)

lemma createIdempotentLoop_ok:
  "uuid_ok uuid \<Longrightarrow> store_ok uuid s \<Longrightarrow> store_ok uuid (fst (createIdempotentLoop uuid now es s))"
proof (induction uuid now es s rule: createIdempotentLoop.induct)
  case (2 uuid now d key es s)
  then show ?case
    using CreateMessageIdempotent_ok [of uuid s now d key]
    by (fastforce split: prod.splits)
qed simp

lemma CreateMessagesIdempotent_ok [keeps_inv]:
  "uuid_ok uuid \<Longrightarrow> store_ok uuid s \<Longrightarrow>
   store_ok uuid (fst (Store_CreateMessagesIdempotent uuid now es s))"
  using createIdempotentLoop_ok [of uuid s now es]
  by (simp add: Store_CreateMessagesIdempotent_def case_prod_beta)

lemma createLoop_ok:
  "uuid_ok uuid \<Longrightarrow> store_ok uuid s \<Longrightarrow> store_ok uuid (fst (createLoop uuid now ds s))"
proof (induction uuid now ds s rule: createLoop.induct)
  case (2 uuid now d ds s)
  then show ?case
    using CreateMessage_ok [of uuid s now d]
    by (fastforce split: prod.splits res.splits)
qed simp

lemma CreateMessages_ok [keeps_inv]:
  "uuid_ok uuid \<Longrightarrow> store_ok uuid s \<Longrightarrow> store_ok uuid (fst (Store_CreateMessages uuid now ds s))"
  by (simp add: Store_CreateMessages_def createLoop_ok)

section \<open>Maintenance\<close>

lemma deleteWhere_eq:
  assumes "store_inv s"
  shows "deleteWhere P s =
     (s\<lparr>messages := filter (\<lambda>(k, m). \<not> P m) (messages s)\<rparr>,
      int (length (filter (\<lambda>(k, m). P m) (messages s))))"
  using collect_and_delete [OF store_invD(1) [OF assms], of P]
  by (simp add: deleteWhere_def case_prod_beta')

lemma deleteWhere_ok: "store_ok uuid s \<Longrightarrow> store_ok uuid (fst (deleteWhere P s))"
  using store_ok_filter [of uuid s "\<lambda>_ m. \<not> P m"]
  by (simp add: deleteWhere_eq store_ok_def)

lemma maintenance_ok [keeps_inv]:
  assumes "store_ok uuid s"
  shows "store_ok uuid (fst (Store_DeleteExpiredTrash cutoff s))"
    and "store_ok uuid (fst (Store_DeleteExpiredMessages cutoff s))"
    and "store_ok uuid (fst (Store_DeleteTTLExpiredMessages cutoff s))"
    and "store_ok uuid (fst (Store_DeleteMessagesByIDs ids s))"
proof -
  show "store_ok uuid (fst (Store_DeleteExpiredTrash cutoff s))"
    and "store_ok uuid (fst (Store_DeleteExpiredMessages cutoff s))"
    and "store_ok uuid (fst (Store_DeleteTTLExpiredMessages cutoff s))"
    using assms
    by (simp_all add: Store_DeleteExpiredTrash_def Store_DeleteExpiredMessages_def
        Store_DeleteTTLExpiredMessages_def case_prod_beta' deleteWhere_ok)
  show "store_ok uuid (fst (Store_DeleteMessagesByIDs ids s))"
    using assms loadAndDeleteAll_map [of ids "messages s"]
      store_ok_filter [of uuid s "\<lambda>k m. k \<notin> set ids"]
    by (simp add: Store_DeleteMessagesByIDs_def case_prod_beta')
qed

section \<open>Drafts\<close>

text \<open>
  What the callers of \<open>SaveDraft\<close> hand over: a new draft, whose identifier is empty, or a draft
  whose identifier is that of a stored draft of the same owner.
\<close>

definition draft_known :: "DraftMessage \<Rightarrow> Store \<Rightarrow> bool" where
  "draft_known d s \<longleftrightarrow>
     (let m = draftRecord d in msgID m = '''' \<or>
        (case msg_of s (msgID m) of Some m0 \<Rightarrow> isDraft m0 \<and> ownerID m0 = ownerID m | None \<Rightarrow> False))"

lemma SaveDraft_eq:
  assumes "connected s"
  shows "Store_SaveDraft uuid now d s =
     (let m0 = draftRecord d;
          i = (if msgID m0 = '''' then uuid (uuidSeq s) else msgID m0);
          m = m0\<lparr>msgID := i, updatedAt := now, isDraft := True\<rparr>
      in ((if msgID m0 = '''' then s\<lparr>uuidSeq := Suc (uuidSeq s)\<rparr> else s)
            \<lparr>messages := AList.update i m (messages s)\<rparr>, Ok m))"
  using assms by (auto simp: Store_SaveDraft_def newUUID_def Let_def)

lemma SaveDraft_ok [keeps_inv]:
  assumes "uuid_ok uuid" "store_ok uuid s" "draft_known d s"
  shows "store_ok uuid (fst (Store_SaveDraft uuid now d s))"
proof (cases "connected s")
  case True
  let ?m0 = "draftRecord d"
  show ?thesis
  proof (cases "msgID ?m0 = ''''")
    case new: True
    let ?s = "s\<lparr>uuidSeq := Suc (uuidSeq s)\<rparr>" and ?i = "uuid (uuidSeq s)"
    let ?m = "?m0\<lparr>msgID := ?i, updatedAt := now, isDraft := True\<rparr>"
    have "store_ok uuid (?s\<lparr>messages := AList.update ?i ?m (messages ?s)\<rparr>)"
      using assms store_ok_fresh(2) [OF assms(2) order_refl]
      by (intro store_ok_put_new) (auto simp: uuid_ok_def entry_ok_def)
    with True new show ?thesis by (simp add: SaveDraft_eq Let_def)
  next
    case False
    with assms(3) obtain m1 where "msg_of s (msgID ?m0) = Some m1" "ownerID m1 = ownerID ?m0"
      by (auto simp: draft_known_def Let_def split: option.splits)
    with True False assms(2) show ?thesis
      by (auto simp: SaveDraft_eq Let_def entry_ok_def intro!: store_ok_put)
  qed
qed (use assms in \<open>simp add: Store_SaveDraft_def\<close>)

lemma DeleteDraft_ok [keeps_inv]:
  "store_ok uuid s \<Longrightarrow> store_ok uuid (fst (Store_DeleteDraft i s))"
  by (auto simp: Store_DeleteDraft_def store_ok_del split: option.split)

section \<open>Idempotent creation\<close>

text \<open>Every call with a key ends in a hit of that key and leaves the hits of other keys alone.\<close>

lemma CreateMessageIdempotent_cases:
  assumes "uuid_ok uuid" "store_ok uuid s" "connected s" "key \<noteq> ''''"
  obtains (hit) m where "idempotent_hit s (idxKey (OwnerID d) key) = Some m"
      "Store_CreateMessageIdempotent uuid now d key s =
         (s\<lparr>uuidSeq := Suc (uuidSeq s)\<rparr>, Ok (m, False))"
  | (new) s1 n where "idempotent_hit s (idxKey (OwnerID d) key) = None"
      "Store_CreateMessageIdempotent uuid now d key s =
         (s1, Ok (newMessageFromData d (uuid n) now, True))"
      "msg_of s (uuid n) = None"
      "messages s1 = messages s @ [(uuid n, newMessageFromData d (uuid n) now)]"
      "connected s1"
      "idempotencyIdx s1 = AList.update (idxKey (OwnerID d) key) (uuid n)
         (AList.delete (idxKey (OwnerID d) key) (idempotencyIdx s))"
proof (cases "idempotent_hit s (idxKey (OwnerID d) key)")
  case None
  let ?k = "idxKey (OwnerID d) key"
  obtain s' n where r: "reserve uuid ?k s = (s', n)" by force
  note r_ok = reserve_ok [OF assms(1,2) r]
  let ?s1 = "s'\<lparr>messages := AList.update (uuid n) (newMessageFromData d (uuid n) now) (messages s)\<rparr>"
  have "idempotencyIdx s' = AList.update ?k (uuid n) (AList.delete ?k (idempotencyIdx s))"
    using r by (auto simp: reserve_def Let_def)
  with None r r_ok(4,5,6) assms(3,4) show ?thesis
    by (intro new [of ?s1 n]) (simp_all add: CreateMessageIdempotent_new update_fresh Let_def)
qed (use assms in \<open>auto intro: hit simp: CreateMessageIdempotent_hit\<close>)

lemma idempotent_hit_next [simp]: "idempotent_hit (s\<lparr>uuidSeq := n\<rparr>) k = idempotent_hit s k"
  by (simp add: idempotent_hit_def split: option.split)

lemma CreateMessageIdempotent_hits:
  assumes "uuid_ok uuid" "store_ok uuid s" "connected s" "key \<noteq> ''''"
    and "Store_CreateMessageIdempotent uuid now d key s = (s1, r)"
  shows "connected s1"
    and "\<exists>m c. r = Ok (m, c) \<and> idempotent_hit s1 (idxKey (OwnerID d) key) = Some m \<and>
           length (messages s1) = length (messages s) + (if c then 1 else 0)"
    and "\<And>k m. idempotent_hit s k = Some m \<Longrightarrow> idempotent_hit s1 k = Some m"
proof -
  have *: "connected s1 \<and> (\<exists>m c. r = Ok (m, c) \<and> idempotent_hit s1 (idxKey (OwnerID d) key) = Some m \<and>
         length (messages s1) = length (messages s) + (if c then 1 else 0)) \<and>
      (\<forall>k m. idempotent_hit s k = Some m \<longrightarrow> idempotent_hit s1 k = Some m)"
    using assms(1-4)
  proof (cases rule: CreateMessageIdempotent_cases [where d = d and now = now])
    case (hit m)
    have "s1 = s\<lparr>uuidSeq := Suc (uuidSeq s)\<rparr>" "r = Ok (m, False)"
      using hit(2) assms(5) by simp_all
    with hit(1) assms(3) show ?thesis by simp blast
  next
    case (new s' n)
    have s': "s' = s1" "r = Ok (newMessageFromData d (uuid n) now, True)"
      using new(2) assms(5) by simp_all
    have hit: "idempotent_hit s1 k = (if k = idxKey (OwnerID d) key
        then Some (newMessageFromData d (uuid n) now)
        else case map_of (idempotencyIdx s) k of None \<Rightarrow> None
             | Some i \<Rightarrow> if i = uuid n then Some (newMessageFromData d (uuid n) now) else msg_of s i)"
      for k
      using new(3,4,6) by (auto simp: s'(1) idempotent_hit_def map_add_def split: option.splits)
    have "idempotent_hit s1 k = Some m" if "idempotent_hit s k = Some m" for k m
      using that new(1,3) unfolding hit by (auto simp: idempotent_hit_def split: option.splits)
    moreover have "idempotent_hit s1 (idxKey (OwnerID d) key) = Some (newMessageFromData d (uuid n) now)"
      by (simp add: hit)
    moreover have "connected s1" "length (messages s1) = length (messages s) + (if True then 1 else 0)"
      using new(4,5) s'(1) by simp_all
    ultimately show ?thesis using s'(2) by blast
  qed
  from * show "connected s1"
    and "\<exists>m c. r = Ok (m, c) \<and> idempotent_hit s1 (idxKey (OwnerID d) key) = Some m \<and>
           length (messages s1) = length (messages s) + (if c then 1 else 0)"
    and "\<And>k m. idempotent_hit s k = Some m \<Longrightarrow> idempotent_hit s1 k = Some m"
    by auto
qed

definition entry_hit :: "Store \<Rightarrow> MessageData \<times> string \<Rightarrow> message option" where
  "entry_hit s e = idempotent_hit s (idxKey (OwnerID (fst e)) (snd e))"

lemma entry_hit_pair [simp]: "entry_hit s (d, key) = idempotent_hit s (idxKey (OwnerID d) key)"
  by (simp add: entry_hit_def)

lemma createIdempotentLoop_first:
  assumes "uuid_ok uuid" "store_ok uuid s" "connected s" "list_all (\<lambda>e. snd e \<noteq> '''') es"
  shows "\<exists>s1 rs. createIdempotentLoop uuid now es s = (s1, map Ok rs) \<and> connected s1 \<and>
     map (entry_hit s1) es = map (Some \<circ> fst) rs \<and>
     length (messages s1) = length (messages s) + length (filter snd rs) \<and>
     (\<forall>k m. idempotent_hit s k = Some m \<longrightarrow> idempotent_hit s1 k = Some m)"
  using assms(2-4)
proof (induction es arbitrary: s)
  case Nil
  show ?case by (intro exI [of _ s] exI [of _ "[]"]) (use Nil in simp)
next
  case (Cons e es)
  obtain d key where e: "e = (d, key)" by force
  let ?k = "idxKey (OwnerID d) key"
  obtain s1 r where r: "Store_CreateMessageIdempotent uuid now d key s = (s1, r)" by force
  have prem: "connected s" "key \<noteq> ''''" using Cons.prems e by auto
  note hits = CreateMessageIdempotent_hits [OF assms(1) Cons.prems(1) prem r]
  obtain m c where mc: "r = Ok (m, c)" "idempotent_hit s1 ?k = Some m"
    "length (messages s1) = length (messages s) + (if c then 1 else 0)" using hits(2) by blast
  have ok1: "store_ok uuid s1"
    using CreateMessageIdempotent_ok [OF assms(1) Cons.prems(1), of now d key] r by simp
  have "list_all (\<lambda>e. snd e \<noteq> '''') es" using Cons.prems(3) by simp
  from Cons.IH [OF ok1 hits(1) this]
  obtain s2 rs where IH: "createIdempotentLoop uuid now es s1 = (s2, map Ok rs)" "connected s2"
     "map (entry_hit s2) es = map (Some \<circ> fst) rs"
     "length (messages s2) = length (messages s1) + length (filter snd rs)"
     "\<forall>k m. idempotent_hit s1 k = Some m \<longrightarrow> idempotent_hit s2 k = Some m"
    by blast
  have "createIdempotentLoop uuid now (e # es) s = (s2, map Ok ((m, c) # rs))"
    using r mc(1) IH(1) by (simp add: e)
  moreover have "map (entry_hit s2) (e # es) = map (Some \<circ> fst) ((m, c) # rs)"
    using mc(2) IH(3,5) by (simp add: e)
  moreover have "length (messages s2) = length (messages s) + length (filter snd ((m, c) # rs))"
    using mc(3) IH(4) by simp
  moreover have "\<forall>k m. idempotent_hit s k = Some m \<longrightarrow> idempotent_hit s2 k = Some m"
    using IH(5) hits(3) by simp
  ultimately show ?case using IH(2) by (intro exI conjI)
qed

lemma createIdempotentLoop_again:
  assumes "connected s" "list_all (\<lambda>e. snd e \<noteq> '''') es" "map (entry_hit s) es = map Some ms"
  shows "createIdempotentLoop uuid now es s =
     (s\<lparr>uuidSeq := uuidSeq s + length es\<rparr>, map (\<lambda>m. Ok (m, False)) ms)"
  using assms
proof (induction es arbitrary: s ms)
  case (Cons e es)
  obtain d key where e: "e = (d, key)" by force
  obtain m ms' where ms: "ms = m # ms'" using Cons.prems(3) by (cases ms) auto
  let ?s = "s\<lparr>uuidSeq := Suc (uuidSeq s)\<rparr>"
  have "entry_hit ?s = entry_hit s" by (simp add: entry_hit_def fun_eq_iff)
  with Cons.prems ms have "createIdempotentLoop uuid now es ?s =
     (?s\<lparr>uuidSeq := uuidSeq ?s + length es\<rparr>, map (\<lambda>m. Ok (m, False)) ms')"
    by (intro Cons.IH) auto
  moreover have "Store_CreateMessageIdempotent uuid now d key s = (?s, Ok (m, False))"
    using Cons.prems ms by (intro CreateMessageIdempotent_hit) (auto simp: e)
  ultimately show ?case by (simp add: e ms)
qed simp

text \<open>
  The owner of an index entry is determined by its key when owner names have no colon, as the
  service requires of its users.
\<close>

lemma for_owner_unique:
  assumes "for_owner a (idxKey b key)" "CHR '':'' \<notin> set a" "CHR '':'' \<notin> set b"
  shows "a = b"
proof -

  define rest where "rest = drop (Suc (length a)) (idxKey b key)"
  have "idxKey b key = take (Suc (length a)) (idxKey b key) @ rest"
    unfolding rest_def by (rule append_take_drop_id [symmetric])
  also have "\<dots> = a @ '':'' @ rest" using assms(1) by (simp add: for_owner_def)
  finally have "takeWhile (\<lambda>c. c \<noteq> CHR '':'') (b @ '':'' @ key) =
      takeWhile (\<lambda>c. c \<noteq> CHR '':'') (a @ '':'' @ rest)" by (simp add: idxKey_def)
  moreover have "takeWhile (\<lambda>c. c \<noteq> CHR '':'') (b @ '':'' @ key) = b"
    using assms(3) by (subst takeWhile_append2) auto
  moreover have "takeWhile (\<lambda>c. c \<noteq> CHR '':'') (a @ '':'' @ rest) = a"
    using assms(2) by (subst takeWhile_append2) auto
  ultimately show ?thesis by simp
qed

section \<open>Concrete values\<close>

text \<open>A connected empty store, a generator of identifiers and a message from one user to another.\<close>

definition demoUUID :: uuids where
  "demoUUID n = ''msg-'' @ replicate n CHR ''x''"

definition demoStore :: Store where
  "demoStore = fst (Store_Connect Store_New)"

definition demoData :: "string \<Rightarrow> string \<Rightarrow> MessageData" where
  "demoData owner sender =
     \<lparr>OwnerID = owner, SenderID = sender, RecipientIDs = [''bob''], Subject = ''hello'', Body = ''text'',
      Headers = [], Metadata = None, Status = MessageStatusDelivered, FolderID = FolderInbox,
      Attachments = [], Tags = [], ThreadID = '''', ReplyToID = '''', ExternalID = '''',
      ExpiresAt = None, AvailableAt = None\<rparr>"

lemma demoUUID_ok [simp]: "uuid_ok demoUUID"
proof -
  have "demoUUID i = demoUUID j \<Longrightarrow> i = j" for i j
    by (auto simp: demoUUID_def dest: arg_cong [where f = length])
  then show ?thesis by (auto simp: uuid_ok_def inj_def demoUUID_def)
qed

lemma demoStore_ok [simp]: "store_ok uuid demoStore" "connected demoStore" "messages demoStore = []"
  by (simp_all add: demoStore_def Store_Connect_def New_ok) (simp_all add: Store_New_def)

lemma demoData_sel [simp]:
  "OwnerID (demoData o' s) = o'" "SenderID (demoData o' s) = s" "ExternalID (demoData o' s) = ''''"
  "FolderID (demoData o' s) = FolderInbox" "ExpiresAt (demoData o' s) = None"
  by (simp_all add: demoData_def)

section \<open>Properties\<close>

text \<open>
  C4: creating a message with an idempotency key always succeeds on a connected store, and in one
  of two ways. Either it creates exactly one message, made from the data under an identifier
  not in use, or it returns a message already stored and changes none. Either way a retry with
  the same owner and key, at any time and with any content, returns that same message, reports
  that it was not created, and leaves the messages as they are.
\<close>

theorem CreateMessageIdempotent_once:
  assumes "uuid_ok uuid" "store_ok uuid s" "connected s" "key \<noteq> ''''"
  shows "\<exists>s1 m created. Store_CreateMessageIdempotent uuid now d key s = (s1, Ok (m, created)) \<and>
     (if created then m = newMessageFromData d (msgID m) now \<and> msg_of s (msgID m) = None \<and>
                      messages s1 = messages s @ [(msgID m, m)]
      else msg_of s (msgID m) = Some m \<and> messages s1 = messages s) \<and>
     (\<forall>now' d'. \<exists>s2. Store_CreateMessageIdempotent uuid now' (d'\<lparr>OwnerID := OwnerID d\<rparr>) key s1 =
                  (s2, Ok (m, False)) \<and> messages s2 = messages s1)"
proof -
  obtain s1 r where r: "Store_CreateMessageIdempotent uuid now d key s = (s1, r)" by force
  note hits = CreateMessageIdempotent_hits [OF assms r]
  obtain m c where m: "r = Ok (m, c)" "idempotent_hit s1 (idxKey (OwnerID d) key) = Some m"
    using hits(2) by blast
  have retry: "\<exists>s2. Store_CreateMessageIdempotent uuid now' (d'\<lparr>OwnerID := OwnerID d\<rparr>) key s1 =
                  (s2, Ok (m, False)) \<and> messages s2 = messages s1" for now' d'
    using CreateMessageIdempotent_hit [OF hits(1) assms(4), of "d'\<lparr>OwnerID := OwnerID d\<rparr>"] m(2) by simp
  have first: "if c then m = newMessageFromData d (msgID m) now \<and> msg_of s (msgID m) = None \<and>
                      messages s1 = messages s @ [(msgID m, m)]
      else msg_of s (msgID m) = Some m \<and> messages s1 = messages s"
    using assms
  proof (cases rule: CreateMessageIdempotent_cases [where d = d and now = now])
    case (hit m')
    then have "msg_of s (msgID m') = Some m'"
      using assms(2) by (auto simp: idempotent_hit_def store_ok_def split: option.splits)
    with hit r m show ?thesis by auto
  next
    case (new s' n)
    with r m show ?thesis by auto
  qed
  show ?thesis using r m(1) first retry by blast
qed

theorem CreateMessageIdempotent_once_witness:
  "\<exists>s1 m created. Store_CreateMessageIdempotent demoUUID 5 (demoData ''bob'' ''alice'') ''k1'' demoStore =
       (s1, Ok (m, created)) \<and>
     (if created then m = newMessageFromData (demoData ''bob'' ''alice'') (msgID m) 5 \<and>
                      msg_of demoStore (msgID m) = None \<and> messages s1 = messages demoStore @ [(msgID m, m)]
      else msg_of demoStore (msgID m) = Some m \<and> messages s1 = messages demoStore) \<and>
     (\<forall>now' d'. \<exists>s2. Store_CreateMessageIdempotent demoUUID now'
                  (d'\<lparr>OwnerID := OwnerID (demoData ''bob'' ''alice'')\<rparr>) ''k1'' s1 =
                  (s2, Ok (m, False)) \<and> messages s2 = messages s1)"
  by (rule CreateMessageIdempotent_once) simp_all

text \<open>
  C29: a batch of idempotent creations can be retried as a whole. Every entry of the first run
  gets a message, the store grows by exactly the entries reported as created, and a second run
  of the same batch returns the same messages in the same order, reports none as created and
  leaves the messages as they are.
\<close>

theorem CreateMessagesIdempotent_retry:
  assumes "uuid_ok uuid" "store_ok uuid s" "connected s" "list_all (\<lambda>e. snd e \<noteq> '''') es"
  shows "\<exists>s1 rs s2. Store_CreateMessagesIdempotent uuid now es s = (s1, Ok (map Ok rs)) \<and>
     length rs = length es \<and>
     length (messages s1) = length (messages s) + length (filter snd rs) \<and>
     Store_CreateMessagesIdempotent uuid now' es s1 = (s2, Ok (map (\<lambda>(m, _). Ok (m, False)) rs)) \<and>
     messages s2 = messages s1"
proof -
  obtain s1 rs where r: "createIdempotentLoop uuid now es s = (s1, map Ok rs)" "connected s1"
     "map (entry_hit s1) es = map (Some \<circ> fst) rs"
     "length (messages s1) = length (messages s) + length (filter snd rs)"
    using createIdempotentLoop_first [OF assms] by blast
  have "map (entry_hit s1) es = map Some (map fst rs)" using r(3) by simp
  from createIdempotentLoop_again [OF r(2) assms(4) this] have again:
    "createIdempotentLoop uuid now' es s1 =
       (s1\<lparr>uuidSeq := uuidSeq s1 + length es\<rparr>, map (\<lambda>m. Ok (m, False)) (map fst rs))" .
  have len: "length rs = length es" using r(3) by (metis length_map)
  have "Store_CreateMessagesIdempotent uuid now es s = (s1, Ok (map Ok rs))"
    using assms(3) r(1) by (simp add: Store_CreateMessagesIdempotent_def)
  moreover have "Store_CreateMessagesIdempotent uuid now' es s1 =
      (s1\<lparr>uuidSeq := uuidSeq s1 + length es\<rparr>, Ok (map (\<lambda>(m, _). Ok (m, False)) rs))"
    using r(2) again by (simp add: Store_CreateMessagesIdempotent_def comp_def case_prod_beta')
  moreover have "messages (s1\<lparr>uuidSeq := uuidSeq s1 + length es\<rparr>) = messages s1" by simp
  ultimately show ?thesis using r(4) len by (intro exI conjI)
qed

theorem CreateMessagesIdempotent_retry_witness:
  "\<exists>s1 rs s2. Store_CreateMessagesIdempotent demoUUID 5
       [(demoData ''bob'' ''alice'', ''k''), (demoData ''eve'' ''alice'', ''k'')] demoStore =
       (s1, Ok (map Ok rs)) \<and>
     length rs = length [(demoData ''bob'' ''alice'', ''k''), (demoData ''eve'' ''alice'', ''k'')] \<and>
     length (messages s1) = length (messages demoStore) + length (filter snd rs) \<and>
     Store_CreateMessagesIdempotent demoUUID 9
       [(demoData ''bob'' ''alice'', ''k''), (demoData ''eve'' ''alice'', ''k'')] s1 =
       (s2, Ok (map (\<lambda>(m, _). Ok (m, False)) rs)) \<and> messages s2 = messages s1"
  by (rule CreateMessagesIdempotent_retry) simp_all

lemma createLoop_eq:
  assumes "uuid_ok uuid" "store_ok uuid s" "connected s"
  shows "\<exists>s1. createLoop uuid now ds s =
     (s1, Ok (map (\<lambda>(d, i). newMessageFromData d i now)
                (zip ds (map uuid [uuidSeq s ..< uuidSeq s + length ds])))) \<and>
     messages s1 = messages s @ map (\<lambda>(d, i). (i, newMessageFromData d i now))
                (zip ds (map uuid [uuidSeq s ..< uuidSeq s + length ds]))"
  using assms(2,3)
proof (induction ds arbitrary: s)
  case (Cons d ds)
  let ?s = "fst (Store_CreateMessage uuid now d s)" and ?i = "uuid (uuidSeq s)"
  have c: "Store_CreateMessage uuid now d s = (?s, Ok (newMessageFromData d ?i now))"
    "connected ?s" "uuidSeq ?s = Suc (uuidSeq s)"
    "messages ?s = messages s @ [(?i, newMessageFromData d ?i now)]"
    using Cons.prems store_ok_fresh(1) [OF Cons.prems(1) order_refl]
    by (simp_all add: CreateMessage_eq Let_def update_fresh)
  have ok: "store_ok uuid ?s" by (rule CreateMessage_ok [OF assms(1) Cons.prems(1)])
  have upt: "[uuidSeq s ..< uuidSeq s + length (d # ds)] =
      uuidSeq s # [uuidSeq ?s ..< uuidSeq ?s + length ds]"
  proof -
    have eq: "uuidSeq s + length (d # ds) = uuidSeq ?s + length ds"
      and lt: "uuidSeq s < uuidSeq ?s + length ds"
      by (simp_all add: c(3))
    show ?thesis by (simp only: eq upt_conv_Cons [OF lt], simp only: c(3))
  qed
  obtain s1 where s1: "createLoop uuid now ds ?s =
     (s1, Ok (map (\<lambda>(d, i). newMessageFromData d i now)
                (zip ds (map uuid [uuidSeq ?s ..< uuidSeq ?s + length ds]))))"
     "messages s1 = messages ?s @ map (\<lambda>(d, i). (i, newMessageFromData d i now))
                (zip ds (map uuid [uuidSeq ?s ..< uuidSeq ?s + length ds]))"
    using Cons.IH [OF ok c(2)] by blast
  show ?case
  proof (intro exI conjI)
    show "createLoop uuid now (d # ds) s = (s1, Ok (map (\<lambda>(d, i). newMessageFromData d i now)
        (zip (d # ds) (map uuid [uuidSeq s ..< uuidSeq s + length (d # ds)]))))"
      unfolding upt by (subst createLoop.simps, subst c(1)) (simp add: s1(1))
    show "messages s1 = messages s @ map (\<lambda>(d, i). (i, newMessageFromData d i now))
        (zip (d # ds) (map uuid [uuidSeq s ..< uuidSeq s + length (d # ds)]))"
      unfolding upt by (simp add: s1(2) c(4))
  qed
qed simp

text \<open>
  C33: creating a batch of messages on a connected store creates all of them, in the order given,
  each from its data under an identifier of its own that was not in use, and appends nothing
  else.
\<close>

theorem CreateMessages_all:
  assumes "uuid_ok uuid" "store_ok uuid s" "connected s"
  shows "\<exists>s1 ids. Store_CreateMessages uuid now ds s =
       (s1, Ok (map (\<lambda>(d, i). newMessageFromData d i now) (zip ds ids))) \<and>
     length ids = length ds \<and> distinct ids \<and> set ids \<inter> set (keys (messages s)) = {} \<and>
     messages s1 = messages s @ map (\<lambda>(d, i). (i, newMessageFromData d i now)) (zip ds ids)"
proof -
  let ?ids = "map uuid [uuidSeq s ..< uuidSeq s + length ds]"
  have "distinct ?ids"
    using assms(1) by (simp add: uuid_ok_def distinct_map inj_on_subset [OF _ subset_UNIV])
  moreover have "set ?ids \<inter> set (keys (messages s)) = {}"
    using assms(2) by (auto simp: store_ok_def ids_fresh_def)
  moreover have "length ?ids = length ds" by simp
  moreover obtain s1 where
    "createLoop uuid now ds s = (s1, Ok (map (\<lambda>(d, i). newMessageFromData d i now) (zip ds ?ids)))"
    "messages s1 = messages s @ map (\<lambda>(d, i). (i, newMessageFromData d i now)) (zip ds ?ids)"
    using createLoop_eq [OF assms, of now ds] by blast
  ultimately show ?thesis
    using assms(3) by (intro exI [of _ s1] exI [of _ ?ids] conjI) (simp_all add: Store_CreateMessages_def)
qed

theorem CreateMessages_all_witness:
  "\<exists>s1 ids. Store_CreateMessages demoUUID 7 [demoData ''bob'' ''alice'', demoData ''eve'' ''alice''] demoStore =
       (s1, Ok (map (\<lambda>(d, i). newMessageFromData d i 7)
                  (zip [demoData ''bob'' ''alice'', demoData ''eve'' ''alice''] ids))) \<and>
     length ids = length [demoData ''bob'' ''alice'', demoData ''eve'' ''alice''] \<and> distinct ids \<and>
     set ids \<inter> set (keys (messages demoStore)) = {} \<and>
     messages s1 = messages demoStore @ map (\<lambda>(d, i). (i, newMessageFromData d i 7))
                  (zip [demoData ''bob'' ''alice'', demoData ''eve'' ''alice''] ids)"
  by (rule CreateMessages_all) simp_all

text \<open>
  C30: when no owner name contains a colon, an idempotent creation only ever returns a message of
  the owner it was called for, whatever keys other owners have used.
\<close>

theorem CreateMessageIdempotent_own:
  assumes "uuid_ok uuid" "store_ok uuid s" "connected s" "key \<noteq> ''''"
    and "CHR '':'' \<notin> set (OwnerID d)" "list_all (\<lambda>(_, m). CHR '':'' \<notin> set (ownerID m)) (messages s)"
  shows "\<exists>s1 m created. Store_CreateMessageIdempotent uuid now d key s = (s1, Ok (m, created)) \<and>
           ownerID m = OwnerID d"
  using assms(1-4)
proof (cases rule: CreateMessageIdempotent_cases [where d = d and now = now])
  case (hit m)
  then obtain i where i: "map_of (idempotencyIdx s) (idxKey (OwnerID d) key) = Some i" "msg_of s i = Some m"
    by (auto simp: idempotent_hit_def split: option.splits)
  have "for_owner (ownerID m) (idxKey (OwnerID d) key)"
    using assms(2) i(2) map_of_SomeD [OF i(1)] by (force simp: store_ok_def idx_sound_def)
  moreover have "CHR '':'' \<notin> set (ownerID m)"
    using assms(6) i(2) by (force simp: list_all_iff dest: map_of_SomeD)
  ultimately have "ownerID m = OwnerID d" using assms(5) by (blast intro: for_owner_unique)
  with hit show ?thesis by blast
qed force

theorem CreateMessageIdempotent_own_witness:
  "\<exists>s1 m created. Store_CreateMessageIdempotent demoUUID 5 (demoData ''bob'' ''alice'') ''k1'' demoStore =
     (s1, Ok (m, created)) \<and> ownerID m = OwnerID (demoData ''bob'' ''alice'')"
  by (rule CreateMessageIdempotent_own) simp_all

text \<open>
  C31: each maintenance run deletes exactly the messages it is for (expired trash, messages older
  than the retention, messages past their time to live), never a draft, keeps the others in
  place, and returns the number of messages it deleted.
\<close>

theorem maintenance_exact:
  assumes "store_inv s" "connected s"
  defines "del \<equiv> \<lambda>P. (s\<lparr>messages := filter (\<lambda>(_, m). isDraft m \<or> \<not> P m) (messages s)\<rparr>,
      Ok (int (length (filter (\<lambda>(_, m). \<not> isDraft m \<and> P m) (messages s)))))"
  shows "Store_DeleteExpiredTrash cutoff s = del (\<lambda>m. folderID m = FolderTrash \<and> updatedAt m < cutoff) \<and>
     Store_DeleteExpiredMessages cutoff s = del (\<lambda>m. createdAt m < cutoff) \<and>
     Store_DeleteTTLExpiredMessages now s =
       del (\<lambda>m. case expiresAt m of None \<Rightarrow> False | Some t \<Rightarrow> t < now)"
  using assms(1,2)
  by (simp add: Store_DeleteExpiredTrash_def Store_DeleteExpiredMessages_def
      Store_DeleteTTLExpiredMessages_def deleteWhere_eq del_def)

text \<open>
  C34: saving a draft stores it under a non-empty identifier, which a draft that has one keeps,
  and reading it back returns what was saved; no other entry changes. Deleting it removes it
  alone: a later read reports that it is not found.
\<close>

theorem SaveDraft_roundtrip:
  assumes "uuid_ok uuid" "store_ok uuid s" "connected s" "draft_known d s"
  shows "\<exists>s1 m. Store_SaveDraft uuid now d s = (s1, Ok m) \<and> msgID m \<noteq> '''' \<and>
     m = (draftRecord d)\<lparr>msgID := msgID m, updatedAt := now, isDraft := True\<rparr> \<and>
     (msgID (draftRecord d) = '''' \<and> msg_of s (msgID m) = None \<or> msgID (draftRecord d) = msgID m) \<and>
     Store_GetDraft (msgID m) s1 = Ok m \<and> msg_of s1 = (msg_of s)(msgID m \<mapsto> m) \<and>
     (\<exists>s2. Store_DeleteDraft (msgID m) s1 = (s2, Ok ()) \<and>
           Store_GetDraft (msgID m) s2 = Err ErrNotFound \<and> msg_of s2 = (msg_of s)(msgID m := None))"
proof -
  let ?m0 = "draftRecord d"
  define i where "i = (if msgID ?m0 = '''' then uuid (uuidSeq s) else msgID ?m0)"
  define m where "m = ?m0\<lparr>msgID := i, updatedAt := now, isDraft := True\<rparr>"
  define s1 where "s1 = (if msgID ?m0 = '''' then s\<lparr>uuidSeq := Suc (uuidSeq s)\<rparr> else s)
            \<lparr>messages := AList.update i m (messages s)\<rparr>"
  have save: "Store_SaveDraft uuid now d s = (s1, Ok m)"
    using assms(3) by (simp add: SaveDraft_eq Let_def s1_def m_def i_def)
  have i: "i \<noteq> ''''" "msgID m = i" "isDraft m"
    using assms(1) by (simp_all add: i_def m_def uuid_ok_def)
  have new: "msgID ?m0 = '''' \<and> msg_of s i = None \<or> msgID ?m0 = i"
    using store_ok_fresh(1) [OF assms(2) order_refl] by (simp add: i_def)
  have s1: "connected s1" "messages s1 = AList.update i m (messages s)"
    using assms(3) by (simp_all add: s1_def)
  have "Store_GetDraft i s1 = Ok m" "Store_DeleteDraft i s1 = (s1\<lparr>messages := AList.delete i (messages s1)\<rparr>, Ok ())"
    using s1 i by (simp_all add: Store_GetDraft_def Store_DeleteDraft_def)
  moreover have "Store_GetDraft i (s1\<lparr>messages := AList.delete i (messages s1)\<rparr>) = Err ErrNotFound"
    using s1 i by (simp add: Store_GetDraft_def)
  ultimately show ?thesis
    using save i new s1 by (intro exI [of _ s1] exI [of _ m]) (simp add: m_def)
qed

text \<open>A store with an old trashed message, a message past its time to live and a draft.\<close>

definition demoMail :: "string \<Rightarrow> string \<Rightarrow> message" where
  "demoMail i owner = newMessageFromData (demoData owner ''alice'') i 100"

definition demoFull :: Store where
  "demoFull =
     demoStore\<lparr>messages :=
       [(''m1'', (demoMail ''m1'' ''bob'')\<lparr>folderID := FolderTrash\<rparr>),
        (''m2'', (demoMail ''m2'' ''bob'')\<lparr>expiresAt := Some 150\<rparr>),
        (''m3'', demoMail ''m3'' ''eve''),
        (''d1'', (Store_NewDraft 100 ''bob'')\<lparr>msgID := ''d1''\<rparr>)]\<rparr>"

lemma demoFull_inv [simp]: "store_inv demoFull" "connected demoFull"
  by code_simp+

theorem maintenance_exact_witness:
  "snd (Store_DeleteExpiredTrash 200 demoFull) = Ok 1 \<and>
   snd (Store_DeleteExpiredMessages 200 demoFull) = Ok 3 \<and>
   snd (Store_DeleteTTLExpiredMessages 200 demoFull) = Ok 1"
proof -
  have "int (length (filter (\<lambda>(_, m). \<not> isDraft m \<and> folderID m = FolderTrash \<and> updatedAt m < 200)
          (messages demoFull))) = 1"
    "int (length (filter (\<lambda>(_, m). \<not> isDraft m \<and> createdAt m < 200) (messages demoFull))) = 3"
    "int (length (filter (\<lambda>(_, m). \<not> isDraft m \<and> (case expiresAt m of None \<Rightarrow> False | Some t \<Rightarrow> t < 200))
          (messages demoFull))) = 1"
    by code_simp+
  then show ?thesis
    using maintenance_exact [OF demoFull_inv, of 200 200] by simp
qed

theorem SaveDraft_roundtrip_witness:
  "\<exists>s1 m. Store_SaveDraft demoUUID 7 (OwnDraft (Store_NewDraft 5 ''bob'')) demoStore = (s1, Ok m) \<and>
     msgID m \<noteq> '''' \<and>
     m = (draftRecord (OwnDraft (Store_NewDraft 5 ''bob'')))\<lparr>msgID := msgID m, updatedAt := 7, isDraft := True\<rparr> \<and>
     (msgID (draftRecord (OwnDraft (Store_NewDraft 5 ''bob''))) = '''' \<and> msg_of demoStore (msgID m) = None \<or>
      msgID (draftRecord (OwnDraft (Store_NewDraft 5 ''bob''))) = msgID m) \<and>
     Store_GetDraft (msgID m) s1 = Ok m \<and> msg_of s1 = (msg_of demoStore)(msgID m \<mapsto> m) \<and>
     (\<exists>s2. Store_DeleteDraft (msgID m) s1 = (s2, Ok ()) \<and>
           Store_GetDraft (msgID m) s2 = Err ErrNotFound \<and>
           msg_of s2 = (msg_of demoStore)(msgID m := None))"
  by (rule SaveDraft_roundtrip)
     (simp_all add: draft_known_def Store_NewDraft_def zeroMessage_def)

end
