(* ===== verification/Memory_Write.thy ===== *)
theory Memory_Write
  imports Memory_Store
begin

text \<open>
  The mutations of the in-memory backend (\<open>store/memory/write.go\<close>): the operations on one message,
  which take its lock, replace it by a changed copy and release the lock, and the operations on all
  messages of an owner that match filters. The locale \<open>message_op\<close> is the contract of the former:
  a call is refused without effect, or changes one message in fields other than its content.
  The locale \<open>bulk_op\<close> is the contract of the latter.
\<close>

section \<open>Operations on one message\<close>

definition Store_MarkRead :: "time \<Rightarrow> bool \<Rightarrow> string \<Rightarrow> Store \<Rightarrow> Store \<times> (store_error, unit) res" where
  "Store_MarkRead now read i s =
     (if \<not> connected s then (s, Err ErrNotConnected)
      else if i = '''' then (s, Err ErrInvalidID)
      else case msg_of s i of
             None \<Rightarrow> (s, Err ErrNotFound)
           | Some orig \<Rightarrow>
               (if isDraft orig then (s, Err ErrNotFound)
                else
                  let m = (clone orig)\<lparr>isRead := read, updatedAt := now\<rparr>;
                      m = (if read then m\<lparr>readAt := Some now\<rparr> else m\<lparr>readAt := None\<rparr>)
                  in (s\<lparr>messages := AList.update i m (messages s)\<rparr>, Ok ())))"

definition Store_MoveToFolder ::
    "time \<Rightarrow> string \<Rightarrow> string list \<Rightarrow> string \<Rightarrow> Store \<Rightarrow> Store \<times> (store_error, unit) res" where
  "Store_MoveToFolder now folder opts i s =
     (if \<not> connected s then (s, Err ErrNotConnected)
      else if i = '''' then (s, Err ErrInvalidID)
      else
        let from = ApplyMoveOptions opts in
        if from \<noteq> '''' \<and> \<not> IsValidFolderID from then (s, Err ErrInvalidFolderID)
        else case msg_of s i of
               None \<Rightarrow> (s, Err ErrNotFound)
             | Some orig \<Rightarrow>
                 (if isDraft orig then (s, Err ErrNotFound)
                  else if from \<noteq> '''' \<and> folderID orig \<noteq> from then (s, Err ErrFolderMismatch)
                  else
                    let m = (clone orig)\<lparr>folderID := folder, updatedAt := now\<rparr>
                    in (s\<lparr>messages := AList.update i m (messages s)\<rparr>, Ok ())))"

definition Store_AddTag :: "time \<Rightarrow> string \<Rightarrow> string \<Rightarrow> Store \<Rightarrow> Store \<times> (store_error, unit) res" where
  "Store_AddTag now tagID i s =
     (if \<not> connected s then (s, Err ErrNotConnected)
      else if i = '''' then (s, Err ErrInvalidID)
      else case msg_of s i of
             None \<Rightarrow> (s, Err ErrNotFound)
           | Some orig \<Rightarrow>
               (if isDraft orig then (s, Err ErrNotFound)
                else if tagID \<in> set (tags orig) then (s, Ok ())
                else
                  let m = clone orig; m = m\<lparr>tags := tags m @ [tagID], updatedAt := now\<rparr>
                  in (s\<lparr>messages := AList.update i m (messages s)\<rparr>, Ok ())))"

definition Store_RemoveTag :: "time \<Rightarrow> string \<Rightarrow> string \<Rightarrow> Store \<Rightarrow> Store \<times> (store_error, unit) res" where
  "Store_RemoveTag now tagID i s =
     (if \<not> connected s then (s, Err ErrNotConnected)
      else if i = '''' then (s, Err ErrInvalidID)
      else case msg_of s i of
             None \<Rightarrow> (s, Err ErrNotFound)
           | Some orig \<Rightarrow>
               (if isDraft orig then (s, Err ErrNotFound)
                else case find_index (\<lambda>t. t = tagID) (tags orig) of
                       None \<Rightarrow> (s, Ok ())
                     | Some tagIndex \<Rightarrow>
                         let m = clone orig;
                             m = m\<lparr>tags := take tagIndex (tags m) @ drop (Suc tagIndex) (tags m),
                                   updatedAt := now\<rparr>
                         in (s\<lparr>messages := AList.update i m (messages s)\<rparr>, Ok ())))"

definition Store_Delete :: "time \<Rightarrow> string \<Rightarrow> Store \<Rightarrow> Store \<times> (store_error, unit) res" where
  "Store_Delete now i s =
     (if \<not> connected s then (s, Err ErrNotConnected)
      else if i = '''' then (s, Err ErrInvalidID)
      else case msg_of s i of
             None \<Rightarrow> (s, Err ErrNotFound)
           | Some orig \<Rightarrow>
               (if isDraft orig then (s, Err ErrNotFound)
                else
                  let m = (clone orig)\<lparr>folderID := FolderTrash, updatedAt := now\<rparr>
                  in (s\<lparr>messages := AList.update i m (messages s)\<rparr>, Ok ())))"

definition Store_HardDelete :: "string \<Rightarrow> Store \<Rightarrow> Store \<times> (store_error, unit) res" where
  "Store_HardDelete i s =
     (if \<not> connected s then (s, Err ErrNotConnected)
      else if i = '''' then (s, Err ErrInvalidID)
      else case msg_of s i of
             None \<Rightarrow> (s, Err ErrNotFound)
           | Some m \<Rightarrow>
               (if isDraft m then (s, Err ErrNotFound)
                else (s\<lparr>messages := AList.delete i (messages s)\<rparr>, Ok ())))"

definition Store_Restore :: "time \<Rightarrow> string \<Rightarrow> Store \<Rightarrow> Store \<times> (store_error, unit) res" where
  "Store_Restore now i s =
     (if \<not> connected s then (s, Err ErrNotConnected)
      else if i = '''' then (s, Err ErrInvalidID)
      else case msg_of s i of
             None \<Rightarrow> (s, Err ErrNotFound)
           | Some orig \<Rightarrow>
               (if isDraft orig \<or> folderID orig \<noteq> FolderTrash then (s, Err ErrNotFound)
                else
                  let m = clone orig;
                      m = (if IsSentByOwner (ownerID m) (senderID m)
                           then m\<lparr>folderID := FolderSent\<rparr> else m\<lparr>folderID := FolderInbox\<rparr>);
                      m = m\<lparr>updatedAt := now\<rparr>
                  in (s\<lparr>messages := AList.update i m (messages s)\<rparr>, Ok ())))"

section \<open>Operations on all matching messages\<close>

definition Store_MarkAllRead ::
    "time \<Rightarrow> string \<Rightarrow> string \<Rightarrow> Store \<Rightarrow> Store \<times> (store_error, int) res" where
  "Store_MarkAllRead now owner folder s =
     (if \<not> connected s then (s, Err ErrNotConnected)
      else
        let (ms, count) =
              rangeUpdate
                (\<lambda>m. \<not> (isDraft m \<or> ownerID m \<noteq> owner \<or> folderID m \<noteq> folder \<or> isRead m))
                (\<lambda>orig. if \<not> isDraft orig \<and> \<not> isRead orig \<and> ownerID orig = owner \<and> folderID orig = folder
                        then Some ((clone orig)\<lparr>isRead := True, readAt := Some now, updatedAt := now\<rparr>)
                        else None)
                (messages s) (messages s, 0)
        in (s\<lparr>messages := ms\<rparr>, Ok count))"

definition iterateFiltered ::
    "time \<Rightarrow> string \<Rightarrow> Filter list \<Rightarrow> (message \<Rightarrow> message) \<Rightarrow> Store \<Rightarrow> Store \<times> int" where
  "iterateFiltered now owner filters fn s =
     (let (ms, count) =
            rangeUpdate (\<lambda>m. \<not> (isDraft m \<or> ownerID m \<noteq> owner))
              (\<lambda>orig. if isDraft orig \<or> ownerID orig \<noteq> owner then None
                      else if (case availableAt orig of None \<Rightarrow> False | Some t \<Rightarrow> t > now) then None
                      else if \<not> matchesFilters orig filters then None
                      else Some ((fn (clone orig))\<lparr>updatedAt := now\<rparr>))
              (messages s) (messages s, 0)
      in (s\<lparr>messages := ms\<rparr>, count))"

definition Store_MarkReadByFilter ::
    "time \<Rightarrow> bool \<Rightarrow> string \<Rightarrow> Filter list \<Rightarrow> Store \<Rightarrow> Store \<times> (store_error, int) res" where
  "Store_MarkReadByFilter now read owner filters s =
     (if \<not> connected s then (s, Err ErrNotConnected)
      else case iterateFiltered now owner filters
             (\<lambda>m. let m = m\<lparr>isRead := read\<rparr>
                  in if read then m\<lparr>readAt := Some now\<rparr> else m\<lparr>readAt := None\<rparr>) s
           of (s', n) \<Rightarrow> (s', Ok n))"

definition Store_MoveByFilter ::
    "time \<Rightarrow> string \<Rightarrow> string \<Rightarrow> Filter list \<Rightarrow> Store \<Rightarrow> Store \<times> (store_error, int) res" where
  "Store_MoveByFilter now folder owner filters s =
     (if \<not> connected s then (s, Err ErrNotConnected)
      else case iterateFiltered now owner filters (\<lambda>m. m\<lparr>folderID := folder\<rparr>) s
           of (s', n) \<Rightarrow> (s', Ok n))"

definition Store_DeleteByFilter ::
    "time \<Rightarrow> string \<Rightarrow> Filter list \<Rightarrow> Store \<Rightarrow> Store \<times> (store_error, int) res" where
  "Store_DeleteByFilter now owner filters s =
     (if \<not> connected s then (s, Err ErrNotConnected)
      else case iterateFiltered now owner filters (\<lambda>m. m\<lparr>folderID := FolderTrash\<rparr>) s
           of (s', n) \<Rightarrow> (s', Ok n))"

definition Store_AddTagByFilter ::
    "time \<Rightarrow> string \<Rightarrow> string \<Rightarrow> Filter list \<Rightarrow> Store \<Rightarrow> Store \<times> (store_error, int) res" where
  "Store_AddTagByFilter now tagID owner filters s =
     (if \<not> connected s then (s, Err ErrNotConnected)
      else case iterateFiltered now owner filters
             (\<lambda>m. if tagID \<in> set (tags m) then m else m\<lparr>tags := tags m @ [tagID]\<rparr>) s
           of (s', n) \<Rightarrow> (s', Ok n))"

definition Store_RemoveTagByFilter ::
    "time \<Rightarrow> string \<Rightarrow> string \<Rightarrow> Filter list \<Rightarrow> Store \<Rightarrow> Store \<times> (store_error, int) res" where
  "Store_RemoveTagByFilter now tagID owner filters s =
     (if \<not> connected s then (s, Err ErrNotConnected)
      else case iterateFiltered now owner filters
             (\<lambda>m. case find_index (\<lambda>t. t = tagID) (tags m) of
                     None \<Rightarrow> m
                   | Some i \<Rightarrow> m\<lparr>tags := take i (tags m) @ drop (Suc i) (tags m)\<rparr>) s
           of (s', n) \<Rightarrow> (s', Ok n))"

section \<open>The contract of an operation on one message\<close>

text \<open>
  \<open>change\<close> says what becomes of the message: a changed copy, or \<^const>\<open>None\<close> when it is removed.
  An operation is refused where the store is closed, the identifier is empty, or it names no
  message or a draft; otherwise it may still be refused, find nothing to do, or make the change.
\<close>

locale message_op =
  fixes op :: "string \<Rightarrow> Store \<Rightarrow> Store \<times> (store_error, unit) res"
    and change :: "message \<Rightarrow> message option"
  assumes refused: "\<not> connected s \<or> i = '''' \<or> (case msg_of s i of None \<Rightarrow> True | Some m \<Rightarrow> isDraft m) \<Longrightarrow>
      \<exists>e. op i s = (s, Err e)"
    and closed: "\<not> connected s \<Longrightarrow> op i s = (s, Err ErrNotConnected)"
    and no_id: "connected s \<Longrightarrow> op '''' s = (s, Err ErrInvalidID)"
    and effect: "connected s \<Longrightarrow> i \<noteq> '''' \<Longrightarrow> msg_of s i = Some m \<Longrightarrow> \<not> isDraft m \<Longrightarrow>
      (\<exists>e. op i s = (s, Err e)) \<or> op i s = (s, Ok ()) \<or>
      op i s = (s\<lparr>messages := (case change m of Some m' \<Rightarrow> AList.update i m' (messages s)
                                | None \<Rightarrow> AList.delete i (messages s))\<rparr>, Ok ())"
    and change_content: "change m = Some m' \<Longrightarrow> same_content m m'"
    and change_read: "change m = Some m' \<Longrightarrow> read_consistent m \<Longrightarrow> read_consistent m'"
begin

lemma op_cases:
  obtains (error) e where "op i s = (s, Err e)"
  | (kept) "op i s = (s, Ok ())"
  | (changed) m where "connected s" "i \<noteq> ''''" "msg_of s i = Some m" "\<not> isDraft m"
      "op i s = (s\<lparr>messages := (case change m of Some m' \<Rightarrow> AList.update i m' (messages s)
                                | None \<Rightarrow> AList.delete i (messages s))\<rparr>, Ok ())"
proof (cases "\<not> connected s \<or> i = '''' \<or> (case msg_of s i of None \<Rightarrow> True | Some m \<Rightarrow> isDraft m)")
  case True
  then show ?thesis using refused error by blast
next
  case False
  then obtain m where "connected s" "i \<noteq> ''''" "msg_of s i = Some m" "\<not> isDraft m"
    by (auto split: option.splits)
  from effect [OF this] this show ?thesis using error kept changed by blast
qed

lemma op_no_panic: "snd (op i s) \<noteq> Panic"
  by (cases rule: op_cases [of i s]) auto

lemma op_error: "\<not> is_Ok (snd (op i s)) \<Longrightarrow> fst (op i s) = s"
  by (cases rule: op_cases [of i s]) auto

lemma op_msg_of:
  "msg_of (fst (op i s)) = msg_of s \<or>
   msg_of (fst (op i s)) = (msg_of s)(i := Option.bind (msg_of s i) change)"
  by (cases rule: op_cases [of i s]) (auto split: option.splits)

lemma op_other: "j \<noteq> i \<Longrightarrow> msg_of (fst (op i s)) j = msg_of s j"
  using op_msg_of [of i s] by auto

lemma op_draft: "msg_of s j = Some d \<Longrightarrow> isDraft d \<Longrightarrow> msg_of (fst (op i s)) j = Some d"
  by (cases rule: op_cases [of i s]) (auto split: option.splits)

text \<open>A message found after the call was there before it, with the same content.\<close>

lemma op_content:
  "msg_of (fst (op i s)) j = Some m' \<Longrightarrow> \<exists>m. msg_of s j = Some m \<and> same_content m m'"
  using op_msg_of [of i s]
  by (cases "msg_of s j") (auto dest: change_content split: if_splits bind_splits)

lemma op_rest:
  "idempotencyIdx (fst (op i s)) = idempotencyIdx s" "externalIdx (fst (op i s)) = externalIdx s"
  "connected (fst (op i s)) = connected s" "uuidSeq (fst (op i s)) = uuidSeq s"
  by (cases rule: op_cases [of i s]; simp)+

lemma op_keys: "set (keys (messages (fst (op i s)))) \<subseteq> set (keys (messages s))"
proof
  fix k assume "k \<in> set (keys (messages (fst (op i s))))"
  then obtain m' where "msg_of (fst (op i s)) k = Some m'"
    by (metis map_of_eq_None_iff not_Some_eq set_map)
  then obtain m where "msg_of s k = Some m" using op_content by blast
  then show "k \<in> set (keys (messages s))" by (force dest: map_of_SomeD)
qed

lemma op_ok: "store_ok uuid s \<Longrightarrow> store_ok uuid (fst (op i s))"
proof (cases rule: op_cases [of i s])
  case (changed m)
  assume s: "store_ok uuid s"
  show ?thesis
  proof (cases "change m")
    case None
    with s changed show ?thesis by (simp add: store_ok_del)
  next
    case (Some m')
    have "entry_ok i m" using s changed(3) by (auto simp: store_ok_def dest: store_invD(3))
    then have "entry_ok i m'"
      using change_content [OF Some] change_read [OF Some] changed(4)
      by (auto simp: entry_ok_def same_content_def)
    moreover have "ownerID m' = ownerID m"
      using change_content [OF Some] by (simp add: same_content_def)
    ultimately show ?thesis using s changed Some by (simp add: store_ok_put)
  qed
qed auto

end

lemmas message_op_defs =
  Store_MarkRead_def Store_MoveToFolder_def Store_AddTag_def Store_RemoveTag_def
  Store_Delete_def Store_HardDelete_def Store_Restore_def

interpretation markRead: message_op "Store_MarkRead now read"
    "\<lambda>m. Some (m\<lparr>isRead := read, updatedAt := now, readAt := (if read then Some now else None)\<rparr>)"
  for now read
  by unfold_locales (auto simp: Store_MarkRead_def read_consistent_def Let_def split: option.splits)

interpretation move: message_op "Store_MoveToFolder now folder opts"
    "\<lambda>m. Some (m\<lparr>folderID := folder, updatedAt := now\<rparr>)" for now folder opts
  by unfold_locales (auto simp: Store_MoveToFolder_def read_consistent_def Let_def split: option.splits)

interpretation addTag: message_op "Store_AddTag now tagID"
    "\<lambda>m. Some (m\<lparr>tags := tags m @ [tagID], updatedAt := now\<rparr>)" for now tagID
  by unfold_locales (auto simp: Store_AddTag_def read_consistent_def Let_def split: option.splits)

interpretation removeTag: message_op "Store_RemoveTag now tagID"
    "\<lambda>m. Some (m\<lparr>tags := remove1 tagID (tags m), updatedAt := now\<rparr>)" for now tagID
  by unfold_locales
     (auto simp: Store_RemoveTag_def read_consistent_def Let_def remove_at_index split: option.splits)

interpretation softDelete: message_op "Store_Delete now"
    "\<lambda>m. Some (m\<lparr>folderID := FolderTrash, updatedAt := now\<rparr>)" for now
  by unfold_locales (auto simp: Store_Delete_def read_consistent_def Let_def split: option.splits)

interpretation hardDelete: message_op Store_HardDelete "\<lambda>_. None"
  by unfold_locales (auto simp: Store_HardDelete_def split: option.splits)

definition restoreFolder :: "message \<Rightarrow> string" where
  "restoreFolder m = (if IsSentByOwner (ownerID m) (senderID m) then FolderSent else FolderInbox)"

interpretation restore: message_op "Store_Restore now"
    "\<lambda>m. Some (m\<lparr>folderID := restoreFolder m, updatedAt := now\<rparr>)" for now
  by unfold_locales
     (auto simp: Store_Restore_def read_consistent_def restoreFolder_def Let_def split: option.splits)

section \<open>The contract of a bulk operation\<close>

text \<open>
  \<open>sel\<close> says which messages of the owner the operation changes, \<open>upd\<close> how. The count it returns is
  the number of messages selected.
\<close>

locale bulk_op =
  fixes op :: "Store \<Rightarrow> Store \<times> (store_error, int) res"
    and owner :: string
    and sel :: "message \<Rightarrow> bool"
    and upd :: "message \<Rightarrow> message"
  assumes bulk_closed: "\<not> connected s \<Longrightarrow> op s = (s, Err ErrNotConnected)"
    and bulk: "connected s \<Longrightarrow> distinct (keys (messages s)) \<Longrightarrow>
      op s = (s\<lparr>messages := map (\<lambda>(k, m). (k, if sel m then upd m else m)) (messages s)\<rparr>,
              Ok (int (length (filter (\<lambda>(k, m). sel m) (messages s)))))"
    and sel_own: "sel m \<Longrightarrow> ownerID m = owner \<and> \<not> isDraft m"
    and upd_content: "same_content m (upd m)"
    and upd_read: "read_consistent m \<Longrightarrow> read_consistent (upd m)"
begin

lemma bulk_msg_of:
  assumes "store_inv s" "connected s"
  shows "msg_of (fst (op s)) k = map_option (\<lambda>m. if sel m then upd m else m) (msg_of s k)"
  using bulk [OF assms(2) store_invD(1) [OF assms(1)]]
  by (simp add: map_of_map_entries [where f = "\<lambda>_ m. if sel m then upd m else m"])

lemma bulk_others:
  assumes "store_inv s" "msg_of s k = Some m" "ownerID m \<noteq> owner \<or> isDraft m"
  shows "msg_of (fst (op s)) k = Some m"
  using assms sel_own [of m] by (cases "connected s") (auto simp: bulk_msg_of bulk_closed)

lemma bulk_content:
  assumes "store_inv s" "msg_of (fst (op s)) k = Some m'"
  shows "\<exists>m. msg_of s k = Some m \<and> same_content m m'"
  using assms upd_content by (cases "connected s") (auto simp: bulk_msg_of bulk_closed)

lemma bulk_ok:
  assumes "store_ok uuid s"
  shows "store_ok uuid (fst (op s))"
proof (cases "connected s")
  case True
  have inv: "store_inv s" using assms by (simp add: store_ok_def)
  note op = bulk [OF True store_invD(1) [OF inv]] and msgs = bulk_msg_of [OF inv True]
  have keys: "keys (messages (fst (op s))) = keys (messages s)"
    by (auto simp: op)
  have rest: "idempotencyIdx (fst (op s)) = idempotencyIdx s" "uuidSeq (fst (op s)) = uuidSeq s"
    by (simp_all add: op)
  have own: "ownerID (upd m) = ownerID m" for m
    using upd_content [of m] by (simp add: same_content_def)
  have "entry_ok k m'" if k: "msg_of (fst (op s)) k = Some m'" for k m'
  proof -
    obtain m where m: "msg_of s k = Some m" "m' = (if sel m then upd m else m)"
      using k by (auto simp: msgs)
    then show ?thesis
      using store_invD(3) [OF inv m(1)] upd_content [of m] upd_read [of m] sel_own [of m]
      by (auto simp: entry_ok_def same_content_def)
  qed
  then have "store_inv (fst (op s))"
    using store_invD(1,2) [OF inv] by (simp add: store_inv_iff keys rest)
  moreover have "ids_fresh uuid (fst (op s))"
    using assms unfolding store_ok_def ids_fresh_def keys rest by blast
  moreover have "idx_sound (fst (op s))"
    using assms unfolding store_ok_def idx_sound_def rest msgs
    by (fastforce simp: own split: option.splits)
  ultimately show ?thesis by (simp add: store_ok_def)
qed (use assms in \<open>simp add: bulk_closed\<close>)

end

text \<open>The messages a filtered operation selects: visible ones of the owner that match.\<close>

definition selected :: "time \<Rightarrow> string \<Rightarrow> Filter list \<Rightarrow> message \<Rightarrow> bool" where
  "selected now owner filters m \<longleftrightarrow>
     \<not> isDraft m \<and> ownerID m = owner \<and>
     (case availableAt m of None \<Rightarrow> True | Some t \<Rightarrow> t \<le> now) \<and> matchesFilters m filters"

lemma iterateFiltered_eq:
  assumes "distinct (keys (messages s))"
  shows "iterateFiltered now owner filters fn s =
     (s\<lparr>messages := map (\<lambda>(k, m). (k, if selected now owner filters m
                                      then (fn m)\<lparr>updatedAt := now\<rparr> else m)) (messages s)\<rparr>,
      int (length (filter (\<lambda>(k, m). selected now owner filters m) (messages s))))"
proof -
  have "rangeUpdate (\<lambda>m. \<not> (isDraft m \<or> ownerID m \<noteq> owner))
     (\<lambda>orig. if isDraft orig \<or> ownerID orig \<noteq> owner then None
      else if (case availableAt orig of None \<Rightarrow> False | Some t \<Rightarrow> t > now) then None
      else if \<not> matchesFilters orig filters then None
      else Some ((fn (clone orig))\<lparr>updatedAt := now\<rparr>)) (messages s) (messages s, 0) =
    (map (\<lambda>(k, m). (k, if selected now owner filters m
                        then (fn m)\<lparr>updatedAt := now\<rparr> else m)) (messages s),
     int (length (filter (\<lambda>(k, m). selected now owner filters m) (messages s))))"
    by (rule rangeUpdate_if [OF assms]) (auto simp: selected_def split: option.splits)
  then show ?thesis unfolding iterateFiltered_def by simp
qed

text \<open>The messages \<open>MarkAllRead\<close> selects.\<close>

definition unreadIn :: "string \<Rightarrow> string \<Rightarrow> message \<Rightarrow> bool" where
  "unreadIn owner folder m \<longleftrightarrow>
     \<not> isDraft m \<and> ownerID m = owner \<and> folderID m = folder \<and> \<not> isRead m"

lemma MarkAllRead_eq:
  assumes "distinct (keys (messages s))" "connected s"
  shows "Store_MarkAllRead now owner folder s =
     (s\<lparr>messages := map (\<lambda>(k, m). (k, if unreadIn owner folder m
          then m\<lparr>isRead := True, readAt := Some now, updatedAt := now\<rparr> else m)) (messages s)\<rparr>,
      Ok (int (length (filter (\<lambda>(k, m). unreadIn owner folder m) (messages s)))))"
proof -
  have "rangeUpdate (\<lambda>m. \<not> (isDraft m \<or> ownerID m \<noteq> owner \<or> folderID m \<noteq> folder \<or> isRead m))
     (\<lambda>orig. if \<not> isDraft orig \<and> \<not> isRead orig \<and> ownerID orig = owner \<and> folderID orig = folder
      then Some ((clone orig)\<lparr>isRead := True, readAt := Some now, updatedAt := now\<rparr>) else None)
      (messages s) (messages s, 0) =
    (map (\<lambda>(k, m). (k, if unreadIn owner folder m
          then m\<lparr>isRead := True, readAt := Some now, updatedAt := now\<rparr> else m)) (messages s),
     int (length (filter (\<lambda>(k, m). unreadIn owner folder m) (messages s))))"
    by (rule rangeUpdate_if [OF assms(1)]) (auto simp: unreadIn_def)
  then show ?thesis unfolding Store_MarkAllRead_def using assms(2) by simp
qed

interpretation markAllRead: bulk_op "Store_MarkAllRead now owner folder" owner "unreadIn owner folder"
    "\<lambda>m. m\<lparr>isRead := True, readAt := Some now, updatedAt := now\<rparr>" for now owner folder
proof unfold_locales
  show "Store_MarkAllRead now owner folder s = (s, Err ErrNotConnected)" if "\<not> connected s" for s
    using that by (simp add: Store_MarkAllRead_def)
qed (simp_all add: MarkAllRead_eq unreadIn_def read_consistent_def)

text \<open>The five filtered operations share their selection.\<close>

lemma filtered_bulk_op:
  assumes "\<And>s. \<not> connected s \<Longrightarrow> op s = (s, Err ErrNotConnected)"
    and "\<And>s. connected s \<Longrightarrow> op s = (case iterateFiltered now owner filters fn s of (s', n) \<Rightarrow> (s', Ok n))"
    and "\<And>m. same_content m (fn m)" "\<And>m. read_consistent m \<Longrightarrow> read_consistent (fn m)"
  shows "bulk_op op owner (selected now owner filters) (\<lambda>m. (fn m)\<lparr>updatedAt := now\<rparr>)"
proof unfold_locales
  show "same_content m ((fn m)\<lparr>updatedAt := now\<rparr>)" for m
    using assms(3) [of m] by (simp add: same_content_def)
  show "read_consistent ((fn m)\<lparr>updatedAt := now\<rparr>)" if "read_consistent m" for m
    using assms(4) [OF that] by (simp add: read_consistent_def)
qed (simp_all add: assms(1,2) iterateFiltered_eq selected_def)

interpretation markReadBy: bulk_op "Store_MarkReadByFilter now read owner filters" owner
    "selected now owner filters"
    "\<lambda>m. (let m = m\<lparr>isRead := read\<rparr> in if read then m\<lparr>readAt := Some now\<rparr> else m\<lparr>readAt := None\<rparr>)
           \<lparr>updatedAt := now\<rparr>" for now read owner filters
  by (rule filtered_bulk_op)
     (simp_all add: Store_MarkReadByFilter_def same_content_def read_consistent_def Let_def)

interpretation moveBy: bulk_op "Store_MoveByFilter now folder owner filters" owner
    "selected now owner filters" "\<lambda>m. m\<lparr>folderID := folder\<rparr>\<lparr>updatedAt := now\<rparr>"
  for now folder owner filters
  by (rule filtered_bulk_op)
     (simp_all add: Store_MoveByFilter_def same_content_def read_consistent_def)

interpretation deleteBy: bulk_op "Store_DeleteByFilter now owner filters" owner
    "selected now owner filters" "\<lambda>m. m\<lparr>folderID := FolderTrash\<rparr>\<lparr>updatedAt := now\<rparr>"
  for now owner filters
  by (rule filtered_bulk_op)
     (simp_all add: Store_DeleteByFilter_def same_content_def read_consistent_def)

interpretation addTagBy: bulk_op "Store_AddTagByFilter now tagID owner filters" owner
    "selected now owner filters"
    "\<lambda>m. (if tagID \<in> set (tags m) then m else m\<lparr>tags := tags m @ [tagID]\<rparr>)\<lparr>updatedAt := now\<rparr>"
  for now tagID owner filters
  by (rule filtered_bulk_op)
     (simp_all add: Store_AddTagByFilter_def same_content_def read_consistent_def)

interpretation removeTagBy: bulk_op "Store_RemoveTagByFilter now tagID owner filters" owner
    "selected now owner filters"
    "\<lambda>m. (case find_index (\<lambda>t. t = tagID) (tags m) of None \<Rightarrow> m
           | Some i \<Rightarrow> m\<lparr>tags := take i (tags m) @ drop (Suc i) (tags m)\<rparr>)\<lparr>updatedAt := now\<rparr>"
  for now tagID owner filters
  by (rule filtered_bulk_op)
     (simp_all add: Store_RemoveTagByFilter_def same_content_def read_consistent_def split: option.split)

section \<open>Properties\<close>

text \<open>
  C8: a conditional move is a compare-and-swap on the folder. When the message is in the folder
  named as its source, the move succeeds and changes the folder of that message alone; every
  later move conditional on the same source, to any target, is then refused with a folder
  mismatch and changes nothing. So of any number of workers that claim a message by such a move,
  one wins.
\<close>

theorem MoveToFolder_claims_once:
  assumes "connected s" "i \<noteq> ''''" "msg_of s i = Some m" "\<not> isDraft m"
    and "folderID m = from" "IsValidFolderID from" "target \<noteq> from"
  shows "\<exists>s1. Store_MoveToFolder now target [from] i s = (s1, Ok ()) \<and>
     msg_of s1 = (msg_of s)(i \<mapsto> m\<lparr>folderID := target, updatedAt := now\<rparr>) \<and>
     (\<forall>now' target'. Store_MoveToFolder now' target' [from] i s1 = (s1, Err ErrFolderMismatch))"
proof -
  have "from \<noteq> ''''" using assms(6) by (auto simp: IsValidFolderID_def)
  with assms show ?thesis by (auto simp: Store_MoveToFolder_def Let_def)
qed

theorem MoveToFolder_claims_once_witness:
  "\<exists>s1. Store_MoveToFolder 9 FolderArchived [FolderInbox] ''m3'' demoFull = (s1, Ok ()) \<and>
     msg_of s1 = (msg_of demoFull)(''m3'' \<mapsto> (demoMail ''m3'' ''eve'')\<lparr>folderID := FolderArchived, updatedAt := 9\<rparr>) \<and>
     (\<forall>now' target'. Store_MoveToFolder now' target' [FolderInbox] ''m3'' s1 = (s1, Err ErrFolderMismatch))"
  by (rule MoveToFolder_claims_once) (code_simp+)

text \<open>
  Deleting a message moves it to the trash, and restoring it from there brings it back to the
  sent folder when its owner sent it and to the inbox otherwise, with its content, tags and read
  state as they were; a second restore is refused, and no other message changes.
\<close>

lemma Delete_Restore:
  assumes "connected s" "i \<noteq> ''''" "msg_of s i = Some m" "\<not> isDraft m"
  shows "\<exists>s1 s2. Store_Delete now i s = (s1, Ok ()) \<and>
     msg_of s1 = (msg_of s)(i \<mapsto> m\<lparr>folderID := FolderTrash, updatedAt := now\<rparr>) \<and>
     Store_Restore now' i s1 = (s2, Ok ()) \<and>
     msg_of s2 = (msg_of s)(i \<mapsto> m\<lparr>folderID := (if ownerID m = senderID m then FolderSent else FolderInbox),
                                      updatedAt := now'\<rparr>) \<and>
     Store_Restore now'' i s2 = (s2, Err ErrNotFound)"
  using assms by (auto simp: Store_Delete_def Store_Restore_def IsSentByOwner_def Let_def)

text \<open>
  Adding a tag twice is adding it once, removing a tag that was just added gives the tags back
  as they were, and the tags of a message stay free of duplicates.
\<close>

lemma AddTag_RemoveTag:
  assumes "connected s" "i \<noteq> ''''" "msg_of s i = Some m" "\<not> isDraft m" "distinct (tags m)"
  shows "\<exists>s1 m1. Store_AddTag now t i s = (s1, Ok ()) \<and> msg_of s1 i = Some m1 \<and>
     set (tags m1) = insert t (set (tags m)) \<and> distinct (tags m1) \<and>
     Store_AddTag now' t i s1 = (s1, Ok ()) \<and>
     (\<exists>s2 m2. Store_RemoveTag now' t i s1 = (s2, Ok ()) \<and> msg_of s2 i = Some m2 \<and>
        tags m2 = remove1 t (tags m) \<and> t \<notin> set (tags m2))"
proof (cases "t \<in> set (tags m)")
  case True
  then obtain n where "find_index (\<lambda>x. x = t) (tags m) = Some n"
    using find_index_mem by force
  with True assms show ?thesis
    by (intro exI [of _ s] exI [of _ m])
       (simp add: Store_AddTag_def Store_RemoveTag_def remove_at_index insert_absorb Let_def)
next
  case False
  let ?m = "m\<lparr>tags := tags m @ [t], updatedAt := now\<rparr>"
  obtain n where n: "find_index (\<lambda>x. x = t) (tags m @ [t]) = Some n"
    using find_index_mem [of t "tags m @ [t]"] by auto
  have "take n (tags m @ [t]) @ drop (Suc n) (tags m @ [t]) = tags m"
    using remove_at_index [OF n] False by (simp add: remove1_append remove1_idem)
  with False assms n show ?thesis
    by (intro exI [of _ "s\<lparr>messages := AList.update i ?m (messages s)\<rparr>"] exI [of _ ?m])
       (simp add: Store_AddTag_def Store_RemoveTag_def remove1_idem Let_def)
qed

text \<open>
  C35: marking a folder read marks every unread message of the owner in that folder and nothing
  else, and returns how many it marked; afterwards none is unread, so a second call marks none
  and leaves the store as it is.
\<close>

theorem MarkAllRead_exact:
  assumes "store_inv s" "connected s"
  shows "\<exists>s1. Store_MarkAllRead now owner folder s =
       (s1, Ok (int (length (filter (\<lambda>(_, m). unreadIn owner folder m) (messages s))))) \<and>
     (\<forall>k. msg_of s1 k = map_option (\<lambda>m. if unreadIn owner folder m
            then m\<lparr>isRead := True, readAt := Some now, updatedAt := now\<rparr> else m) (msg_of s k)) \<and>
     Store_MarkAllRead now' owner folder s1 = (s1, Ok 0)"
proof -
  let ?f = "\<lambda>m. if unreadIn owner folder m
            then m\<lparr>isRead := True, readAt := Some now, updatedAt := now\<rparr> else m"
  let ?s1 = "s\<lparr>messages := map (\<lambda>(k, m). (k, ?f m)) (messages s)\<rparr>"
  note d = store_invD(1) [OF assms(1)]
  have first: "Store_MarkAllRead now owner folder s =
       (?s1, Ok (int (length (filter (\<lambda>(_, m). unreadIn owner folder m) (messages s)))))"
    by (simp add: MarkAllRead_eq [OF d assms(2)])
  have read: "\<not> unreadIn owner folder (?f m)" for m by (simp add: unreadIn_def)
  have "distinct (keys (messages ?s1))" using d by simp
  moreover have "connected ?s1" using assms(2) by simp
  moreover have "filter (\<lambda>(_, m). unreadIn owner folder m) (messages ?s1) = []"
    using read by (auto simp: filter_empty_conv simp del: if_split)
  moreover have "map (\<lambda>(k, m). (k, if unreadIn owner folder m
          then m\<lparr>isRead := True, readAt := Some now', updatedAt := now'\<rparr> else m)) (messages ?s1) = messages ?s1"
    using read by (auto intro!: map_idI simp del: if_split split: if_splits)
  ultimately have second: "Store_MarkAllRead now' owner folder ?s1 = (?s1, Ok 0)"
    by (simp add: MarkAllRead_eq)
  have "msg_of ?s1 k = map_option ?f (msg_of s k)" for k
    by (simp add: map_of_map_entries [where f = "\<lambda>_. ?f"])
  then show ?thesis using first second by blast
qed

theorem MarkAllRead_exact_witness:
  "\<exists>s1. Store_MarkAllRead 9 ''bob'' FolderInbox demoFull =
       (s1, Ok (int (length (filter (\<lambda>(_, m). unreadIn ''bob'' FolderInbox m) (messages demoFull))))) \<and>
     (\<forall>k. msg_of s1 k = map_option (\<lambda>m. if unreadIn ''bob'' FolderInbox m
            then m\<lparr>isRead := True, readAt := Some 9, updatedAt := 9\<rparr> else m) (msg_of demoFull k)) \<and>
     Store_MarkAllRead 10 ''bob'' FolderInbox s1 = (s1, Ok 0)"
  by (rule MarkAllRead_exact) simp_all

text \<open>What a filtered operation amounts to, given what it does to a selected message.\<close>

definition bulkResult ::
    "time \<Rightarrow> string \<Rightarrow> Filter list \<Rightarrow> Store \<Rightarrow> (message \<Rightarrow> message) \<Rightarrow> Store \<times> (store_error, int) res" where
  "bulkResult now owner filters s fn =
     (s\<lparr>messages := map (\<lambda>(k, m). (k, if selected now owner filters m
          then (fn m)\<lparr>updatedAt := now\<rparr> else m)) (messages s)\<rparr>,
      Ok (int (length (filter (\<lambda>(k, m). selected now owner filters m) (messages s)))))"

text \<open>
  C11: a filtered bulk operation (mark read or unread, move, delete, add or remove a tag) changes
  exactly the owner's visible messages that match all filters, in the way it says, and returns
  their number; every other message, every draft and every other owner's mail stays as it was.
\<close>

theorem bulk_by_filter_exact:
  assumes "store_inv s" "connected s"
  shows "Store_MarkReadByFilter now True owner filters s = bulkResult now owner filters s (\<lambda>m. m\<lparr>isRead := True, readAt := Some now\<rparr>) \<and>
     Store_MarkReadByFilter now False owner filters s = bulkResult now owner filters s (\<lambda>m. m\<lparr>isRead := False, readAt := None\<rparr>) \<and>
     Store_MoveByFilter now folder owner filters s = bulkResult now owner filters s (\<lambda>m. m\<lparr>folderID := folder\<rparr>) \<and>
     Store_DeleteByFilter now owner filters s = bulkResult now owner filters s (\<lambda>m. m\<lparr>folderID := FolderTrash\<rparr>) \<and>
     Store_AddTagByFilter now t owner filters s = bulkResult now owner filters s
       (\<lambda>m. if t \<in> set (tags m) then m else m\<lparr>tags := tags m @ [t]\<rparr>) \<and>
     Store_RemoveTagByFilter now t owner filters s = bulkResult now owner filters s (\<lambda>m. m\<lparr>tags := remove1 t (tags m)\<rparr>)"
proof -
  have rm: "(case find_index (\<lambda>x. x = t) (tags m) of None \<Rightarrow> m
        | Some i \<Rightarrow> m\<lparr>tags := take i (tags m) @ drop (Suc i) (tags m)\<rparr>) = m\<lparr>tags := remove1 t (tags m)\<rparr>"
    for m
    by (auto simp: remove_at_index remove_at_no_index split: option.split)
  note d = store_invD(1) [OF assms(1)]
  show ?thesis
    unfolding bulkResult_def Store_MarkReadByFilter_def Store_MoveByFilter_def Store_DeleteByFilter_def
      Store_AddTagByFilter_def Store_RemoveTagByFilter_def iterateFiltered_eq [OF d] rm Let_def
    using assms(2) by (simp cong: if_cong)
qed

theorem bulk_by_filter_exact_witness:
  "Store_MoveByFilter 120 ''work'' ''bob'' [NotDeleted] demoFull =
     bulkResult 120 ''bob'' [NotDeleted] demoFull (\<lambda>m. m\<lparr>folderID := ''work''\<rparr>) \<and>
   snd (bulkResult 120 ''bob'' [NotDeleted] demoFull (\<lambda>m. m\<lparr>folderID := ''work''\<rparr>)) = Ok 1"
proof -
  have "snd (bulkResult 120 ''bob'' [NotDeleted] demoFull (\<lambda>m. m\<lparr>folderID := ''work''\<rparr>)) = Ok 1"
    by code_simp
  then show ?thesis
    using bulk_by_filter_exact [OF demoFull_inv, of 120 "''bob''" "[NotDeleted]" "''work''"] by blast
qed

section \<open>Ageing messages\<close>

text \<open>The helpers of \<open>helpers.go\<close> that shift times into the past.\<close>

definition Store_AgeMessages :: "duration \<Rightarrow> Store \<Rightarrow> Store" where
  "Store_AgeMessages d s =
     s\<lparr>messages := map (\<lambda>(k, m). (k, if \<not> isDraft m
         then m\<lparr>createdAt := createdAt m - d, updatedAt := updatedAt m - d\<rparr> else m)) (messages s)\<rparr>"

definition ageByID :: "(message \<Rightarrow> message) \<Rightarrow> string list \<Rightarrow> Store \<Rightarrow> Store" where
  "ageByID f ids s =
     foldl (\<lambda>s i. case msg_of s i of
              Some m \<Rightarrow> s\<lparr>messages := AList.update i (f m) (messages s)\<rparr>
            | None \<Rightarrow> s) s ids"

definition Store_AgeMessagesByID :: "duration \<Rightarrow> string list \<Rightarrow> Store \<Rightarrow> Store" where
  "Store_AgeMessagesByID d =
     ageByID (\<lambda>m. m\<lparr>createdAt := createdAt m - d, updatedAt := updatedAt m - d\<rparr>)"

definition Store_AgeTTLByID :: "duration \<Rightarrow> string list \<Rightarrow> Store \<Rightarrow> Store" where
  "Store_AgeTTLByID d =
     ageByID (\<lambda>m. case expiresAt m of None \<Rightarrow> m | Some t \<Rightarrow> m\<lparr>expiresAt := Some (t - d)\<rparr>)"

definition Store_AgeScheduleAll :: "duration \<Rightarrow> Store \<Rightarrow> Store" where
  "Store_AgeScheduleAll d s =
     s\<lparr>messages := map (\<lambda>(k, m). (k, if \<not> isDraft m
         then (case availableAt m of None \<Rightarrow> m | Some t \<Rightarrow> m\<lparr>availableAt := Some (t - d)\<rparr>) else m)) (messages s)\<rparr>"

definition Store_AgeTTLAll :: "duration \<Rightarrow> Store \<Rightarrow> Store" where
  "Store_AgeTTLAll d s =
     s\<lparr>messages := map (\<lambda>(k, m). (k, if \<not> isDraft m
         then (case expiresAt m of None \<Rightarrow> m | Some t \<Rightarrow> m\<lparr>expiresAt := Some (t - d)\<rparr>) else m)) (messages s)\<rparr>"

definition Store_AgeScheduleByID :: "duration \<Rightarrow> string list \<Rightarrow> Store \<Rightarrow> Store" where
  "Store_AgeScheduleByID d =
     ageByID (\<lambda>m. case availableAt m of None \<Rightarrow> m | Some t \<Rightarrow> m\<lparr>availableAt := Some (t - d)\<rparr>)"

text \<open>Ageing the messages by \<open>d\<close> and expiring them is expiring them with a cutoff \<open>d\<close> later.\<close>

lemma AgeMessages_expire:
  assumes "store_inv s" "connected s"
  shows "snd (Store_DeleteExpiredMessages cutoff (Store_AgeMessages d s)) =
         snd (Store_DeleteExpiredMessages (cutoff + d) s)"
proof -
  let ?f = "\<lambda>m. if \<not> isDraft m
         then m\<lparr>createdAt := createdAt m - d, updatedAt := updatedAt m - d\<rparr> else m"
  have "entry_ok k (?f m) = entry_ok k m" for k m
    by (auto simp: entry_ok_def read_consistent_def)
  then have "store_inv (Store_AgeMessages d s)"
    using assms(1) by (auto simp: store_inv_def Store_AgeMessages_def list_all_iff)
  moreover have sel: "\<not> isDraft (?f m) \<and> createdAt (?f m) < cutoff \<longleftrightarrow> \<not> isDraft m \<and> createdAt m < cutoff + d" for m
    by auto
  have "length (filter (\<lambda>(k, m). \<not> isDraft m \<and> createdAt m < cutoff) (map (\<lambda>(k :: string, m). (k, ?f m)) ms)) =
      length (filter (\<lambda>(k, m). \<not> isDraft m \<and> createdAt m < cutoff + d) ms)" for ms
  proof (induction ms)
    case (Cons e ms)
    then show ?case using sel [of "snd e"] by (cases e) (simp del: if_split)
  qed simp
  ultimately show ?thesis
    using assms by (simp add: Store_DeleteExpiredMessages_def deleteWhere_eq Store_AgeMessages_def)
qed

end
