(* ===== verification/Memory_Query.thy ===== *)
theory Memory_Query
  imports Memory_Write
begin

text \<open>
  The reads of the in-memory backend (\<open>store/memory/query.go\<close> and \<open>stats.go\<close>): lookup, filtered
  listing with cursor pagination, counting, text search, thread participants and mailbox
  statistics. The lemmas say which messages each read returns, that following the cursor visits
  the result page by page, and that the statistics count what the listings list.
\<close>

section \<open>Operations\<close>

definition isAvailableNow :: "time \<Rightarrow> message \<Rightarrow> bool" where
  "isAvailableNow now m = (case availableAt m of None \<Rightarrow> True | Some t \<Rightarrow> \<not> t > now)"

text \<open>The keys of a Go map used as a set, in the order of first insertion.\<close>

definition seenKeys :: "'a list \<Rightarrow> 'a list" where
  "seenKeys xs = keys (foldl (\<lambda>seen x. AList.update x () seen) [] xs)"

definition Store_ThreadParticipants :: "string \<Rightarrow> Store \<Rightarrow> (store_error, string list) res" where
  "Store_ThreadParticipants thread s =
     (if \<not> connected s then Err ErrNotConnected
      else
        let seen = seenKeys (map ownerID (filter (\<lambda>m. \<not> isDraft m \<and> threadID m = thread \<and>
                     folderID m \<noteq> FolderTrash \<and> folderID m \<noteq> FolderDrafts) (map snd (messages s))))
        in if seen = [] then Err ErrNotFound else Ok seen)"

definition Store_Get :: "string \<Rightarrow> Store \<Rightarrow> (store_error, message) res" where
  "Store_Get i s =
     (if \<not> connected s then Err ErrNotConnected
      else if i = '''' then Err ErrInvalidID
      else case msg_of s i of
             None \<Rightarrow> Err ErrNotFound
           | Some m \<Rightarrow> (if isDraft m then Err ErrNotFound else Ok (clone m)))"

record MessageList =
  ml_Messages :: "message list"
  ml_Total :: int
  ml_HasMore :: bool
  ml_NextCursor :: string

text \<open>
  The pagination of \<open>Find\<close> and \<open>Search\<close>, the same statements in both: the position after the
  cursor, or an empty page when the cursor is not in the result, then the slice of at most
  \<open>Limit\<close> messages.
\<close>

definition paginate :: "message list \<Rightarrow> ListOptions \<Rightarrow> (store_error, MessageList) res" where
  "paginate all opts =
     (let total = int (length all);
          start = (if StartAfter opts \<noteq> ''''
                   then map_option (\<lambda>i. int i + 1) (find_index (\<lambda>m. msgID m = StartAfter opts) all)
                   else Some 0)
      in case start of
           None \<Rightarrow> Ok \<lparr>ml_Messages = [], ml_Total = total, ml_HasMore = False, ml_NextCursor = ''''\<rparr>
         | Some start \<Rightarrow>
             let end = wrap64 (start + Limit opts);
                 end = (if Limit opts = 0 then total else end);
                 end = (if end > total then total else end)
             in case go_slice all start end of
                  None \<Rightarrow> Panic
                | Some result \<Rightarrow>
                    Ok \<lparr>ml_Messages = map clone result, ml_Total = total,
                        ml_HasMore = end < total, ml_NextCursor = ''''\<rparr>)"

definition Store_Find ::
    "time \<Rightarrow> Filter list \<Rightarrow> ListOptions \<Rightarrow> Store \<Rightarrow> (store_error, MessageList) res" where
  "Store_Find now filters opts s =
     (if \<not> connected s then Err ErrNotConnected
      else
        let all = filter (\<lambda>m. \<not> isDraft m \<and> isAvailableNow now m \<and> matchesFilters m filters)
                    (map snd (messages s));
            sortBy = (if SortBy opts = '''' then ''created_at'' else SortBy opts);
            all = sortMessages all sortBy (Order opts)
        in paginate all opts)"

definition Store_Count :: "time \<Rightarrow> Filter list \<Rightarrow> Store \<Rightarrow> (store_error, int) res" where
  "Store_Count now filters s =
     (if \<not> connected s then Err ErrNotConnected
      else Ok (foldl (\<lambda>count (_, m).
             if \<not> isDraft m \<and> isAvailableNow now m \<and> matchesFilters m filters then count + 1 else count)
             0 (messages s)))"

record SearchQuery =
  sq_OwnerID :: string
  sq_Query :: string
  sq_Fields :: "string list"
  sq_Tags :: "string list"
  sq_Filters :: "Filter list"
  sq_Options :: ListOptions

definition searchMatch :: "(string \<Rightarrow> string) \<Rightarrow> time \<Rightarrow> SearchQuery \<Rightarrow> message \<Rightarrow> bool" where
  "searchMatch mapLower now query m =
     (let lower = strings_ToLower mapLower; searchTerm = lower (sq_Query query) in
      if isDraft m then False
      else if \<not> isAvailableNow now m then False
      else if sq_OwnerID query \<noteq> '''' \<and> ownerID m \<noteq> sq_OwnerID query then False
      else if \<not> matchesFilters m (sq_Filters query) then False
      else if length (sq_Tags query) > 0 \<and> \<not> hasAllTags m (sq_Tags query) then False
      else if searchTerm \<noteq> '''' \<and> \<not> containsStr searchTerm (lower (subject m)) \<and>
              \<not> containsStr searchTerm (lower (body m)) then False
      else True)"

definition Store_Search ::
    "(string \<Rightarrow> string) \<Rightarrow> time \<Rightarrow> SearchQuery \<Rightarrow> Store \<Rightarrow> (store_error, MessageList) res" where
  "Store_Search mapLower now query s =
     (if \<not> connected s then Err ErrNotConnected
      else
        let all = filter (searchMatch mapLower now query) (map snd (messages s));
            all = sortMessages all (SortBy (sq_Options query)) (Order (sq_Options query))
        in paginate all (sq_Options query))"

section \<open>Statistics\<close>

definition countMessage :: "message \<Rightarrow> (string \<times> FolderCounts) list \<Rightarrow> (string \<times> FolderCounts) list" where
  "countMessage m counts =
     (let c = folderCounts counts (folderID m);
          c = c\<lparr>fc_Total := fc_Total c + 1\<rparr>;
          c = (if \<not> isRead m then c\<lparr>fc_Unread := fc_Unread c + 1\<rparr> else c)
      in AList.update (folderID m) c counts)"

definition Store_CountByFolders ::
    "time \<Rightarrow> string \<Rightarrow> string list \<Rightarrow> Store \<Rightarrow> (store_error, (string \<times> FolderCounts) list) res" where
  "Store_CountByFolders now owner folderIDs s =
     (if \<not> connected s then Err ErrNotConnected
      else Ok (foldl (\<lambda>counts (_, m).
             if isDraft m \<or> ownerID m \<noteq> owner \<or> \<not> isAvailableNow now m then counts
             else if folderID m \<notin> set folderIDs then counts
             else countMessage m counts) [] (messages s)))"

definition Store_FindWithCount ::
    "time \<Rightarrow> Filter list \<Rightarrow> ListOptions \<Rightarrow> Store \<Rightarrow> (store_error, MessageList \<times> int) res" where
  "Store_FindWithCount now filters opts s =
     (case Store_Find now filters opts s of
        Err e \<Rightarrow> Err e
      | Panic \<Rightarrow> Panic
      | Ok list \<Rightarrow>
          (case Store_Count now filters s of
             Err e \<Rightarrow> Err e
           | Panic \<Rightarrow> Panic
           | Ok n \<Rightarrow> Ok (list, n)))"

definition Store_ListDistinctFolders :: "time \<Rightarrow> string \<Rightarrow> Store \<Rightarrow> (store_error, string list) res" where
  "Store_ListDistinctFolders now owner s =
     (if \<not> connected s then Err ErrNotConnected
      else Ok (seenKeys (map folderID (filter (\<lambda>m. \<not> (isDraft m \<or> ownerID m \<noteq> owner \<or> \<not> isAvailableNow now m))
             (map snd (messages s))))))"

definition zeroStats :: MailboxStats where
  "zeroStats = \<lparr>TotalMessages = 0, UnreadCount = 0, DraftCount = 0, Folders = []\<rparr>"

definition statsStep :: "time \<Rightarrow> string \<Rightarrow> MailboxStats \<Rightarrow> message \<Rightarrow> MailboxStats" where
  "statsStep now owner stats m =
     (if ownerID m \<noteq> owner then stats
      else if isDraft m then stats\<lparr>DraftCount := DraftCount stats + 1\<rparr>
      else if \<not> isAvailableNow now m then stats
      else
        let stats = stats\<lparr>TotalMessages := TotalMessages stats + 1\<rparr>;
            stats = (if \<not> isRead m then stats\<lparr>UnreadCount := UnreadCount stats + 1\<rparr> else stats)
        in stats\<lparr>Folders := countMessage m (Folders stats)\<rparr>)"

definition Store_MailboxStats :: "time \<Rightarrow> string \<Rightarrow> Store \<Rightarrow> (store_error, MailboxStats) res" where
  "Store_MailboxStats now owner s =
     (if \<not> connected s then Err ErrNotConnected
      else Ok (foldl (statsStep now owner) zeroStats (map snd (messages s))))"

section \<open>Sets built by insertion\<close>

lemma seenKeys_gen:
  "set (keys (foldl (\<lambda>seen x. AList.update x () seen) acc xs)) = set (keys acc) \<union> set xs"
  "distinct (keys acc) \<Longrightarrow> distinct (keys (foldl (\<lambda>seen x. AList.update x () seen) acc xs))"
  by (induction xs arbitrary: acc) (auto simp: dom_update)

lemma seenKeys [simp]: "set (seenKeys xs) = set xs" "distinct (seenKeys xs)"
  using seenKeys_gen [of "[]" xs] by (simp_all add: seenKeys_def)

lemma seenKeys_empty [simp]: "seenKeys xs = [] \<longleftrightarrow> xs = []"
  by (metis seenKeys(1) set_empty)

section \<open>Pagination\<close>

definition matching :: "time \<Rightarrow> Filter list \<Rightarrow> message \<Rightarrow> bool" where
  "matching now filters m \<longleftrightarrow> \<not> isDraft m \<and> isAvailableNow now m \<and> matchesFilters m filters"

text \<open>The full result of a listing, in its order, before it is cut into pages.\<close>

definition found :: "time \<Rightarrow> Filter list \<Rightarrow> ListOptions \<Rightarrow> Store \<Rightarrow> message list" where
  "found now filters opts s =
     sortMessages (filter (matching now filters) (map snd (messages s)))
       (if SortBy opts = '''' then ''created_at'' else SortBy opts) (Order opts)"

lemma Find_eq:
  "connected s \<Longrightarrow> Store_Find now filters opts s = paginate (found now filters opts s) opts"
  by (simp add: Store_Find_def found_def matching_def [abs_def])

lemma set_found:
  assumes "store_inv s"
  shows "m \<in> set (found now filters opts s) \<longleftrightarrow> msg_of s (msgID m) = Some m \<and> matching now filters m"
proof -
  have "msg_of s (msgID m) = Some m" if "(k, m) \<in> set (messages s)" for k
  proof -
    have "msg_of s k = Some m" using that store_invD(1) [OF assms] by simp
    with inv_msgID [OF assms this] show ?thesis by simp
  qed
  then have "m \<in> snd ` set (messages s) \<longleftrightarrow> msg_of s (msgID m) = Some m"
    by (force dest: map_of_SomeD)
  then show ?thesis by (simp add: found_def)
qed

lemma ids_messages:
  assumes "store_inv s"
  shows "map msgID (map snd (messages s)) = keys (messages s)"
  unfolding map_map
proof (rule map_cong [OF refl])
  fix e assume "e \<in> set (messages s)"
  with assms have "entry_ok (fst e) (snd e)"
    unfolding store_inv_def list_all_iff by (simp add: case_prod_beta')
  then show "(msgID \<circ> snd) e = fst e" by (simp add: entry_ok_def)
qed

lemma distinct_found:
  assumes "store_inv s"
  shows "distinct (map msgID (found now filters opts s))"
proof -
  have "distinct (map msgID (map snd (messages s)))"
    unfolding ids_messages [OF assms] by (rule store_invD(1) [OF assms])
  then have "distinct (map msgID (filter (matching now filters) (map snd (messages s))))"
    by (rule distinct_map_filter)
  then show ?thesis by (simp add: found_def distinct_ids_sortMessages)
qed

text \<open>The page that starts at a position: the beginning, or after the message at the cursor.\<close>

definition at_position :: "message list \<Rightarrow> nat \<Rightarrow> string \<Rightarrow> bool" where
  "at_position all p cursor \<longleftrightarrow>
     (p = 0 \<and> cursor = '''' \<or> 0 < p \<and> p \<le> length all \<and> cursor = msgID (all ! (p - 1)) \<and> cursor \<noteq> '''')"

lemma paginate_page:
  assumes "distinct (map msgID all)" "at_position all p (StartAfter opts)" "p \<le> length all"
    and "0 < Limit opts" "int (length all) + Limit opts < 2 ^ 63"
  shows "paginate all opts =
     Ok \<lparr>ml_Messages = take (nat (Limit opts)) (drop p all), ml_Total = int (length all),
         ml_HasMore = int p + Limit opts < int (length all), ml_NextCursor = ''''\<rparr>"
proof -
  have start: "(if StartAfter opts \<noteq> ''''
       then map_option (\<lambda>i. int i + 1) (find_index (\<lambda>m. msgID m = StartAfter opts) all)
       else Some 0) = Some (int p)"
  proof (cases "p = 0")
    case True
    with assms(2) show ?thesis by (simp add: at_position_def)
  next
    case False
    with assms(2) have c: "StartAfter opts = msgID (all ! (p - 1))" "StartAfter opts \<noteq> ''''"
      "p - 1 < length all"
      by (auto simp: at_position_def)
    with False find_index_distinct [OF assms(1) c(3)] show ?thesis by simp
  qed
  have wrap: "wrap64 (int p + Limit opts) = int p + Limit opts"
    using assms(3-5) by (intro wrap64_id) (auto simp: int64_range_def)
  define e where "e = (if int p + Limit opts > int (length all) then int (length all) else int p + Limit opts)"
  have "go_slice all (int p) e = Some (take (nat (e - int p)) (drop p all))"
    using assms(3,4) by (auto simp: go_slice_def e_def)
  moreover have "take (nat (e - int p)) (drop p all) = take (nat (Limit opts)) (drop p all)"
    using assms(3,4) by (auto simp: e_def)
  moreover have "e < int (length all) \<longleftrightarrow> int p + Limit opts < int (length all)"
    by (auto simp: e_def)
  ultimately show ?thesis
    using assms(4) by (simp add: paginate_def start wrap e_def [symmetric] Let_def)
qed

lemma paginate_all:
  assumes "StartAfter opts = ''''" "Limit opts = 0"
  shows "paginate all opts =
     Ok \<lparr>ml_Messages = all, ml_Total = int (length all), ml_HasMore = False, ml_NextCursor = ''''\<rparr>"
  using assms by (simp add: paginate_def go_slice_full Let_def)

text \<open>A page only holds messages of the result.\<close>

lemma paginate_Ok:
  assumes "paginate all opts = Ok l"
  shows "ml_Messages l = [] \<or> (\<exists>a b ys. go_slice all a b = Some ys \<and> ml_Messages l = map clone ys)"
proof -
  define st where "st = (if StartAfter opts \<noteq> ''''
       then map_option (\<lambda>i. int i + 1) (find_index (\<lambda>m. msgID m = StartAfter opts) all)
       else Some 0)"
  have eq: "paginate all opts =
     (case st of
           None \<Rightarrow> Ok \<lparr>ml_Messages = [], ml_Total = int (length all), ml_HasMore = False, ml_NextCursor = ''''\<rparr>
         | Some start \<Rightarrow>
             let e = wrap64 (start + Limit opts);
                 e = (if Limit opts = 0 then int (length all) else e);
                 e = (if e > int (length all) then int (length all) else e)
             in case go_slice all start e of
                  None \<Rightarrow> Panic
                | Some result \<Rightarrow>
                    Ok \<lparr>ml_Messages = map clone result, ml_Total = int (length all),
                        ml_HasMore = e < int (length all), ml_NextCursor = ''''\<rparr>)"
    unfolding paginate_def st_def Let_def by (rule refl)
  show ?thesis
  proof (cases st)
    case None
    with eq assms show ?thesis by simp
  next
    case (Some start)
    obtain e where e: "paginate all opts = (case go_slice all start e of
                  None \<Rightarrow> Panic
                | Some result \<Rightarrow>
                    Ok \<lparr>ml_Messages = map clone result, ml_Total = int (length all),
                        ml_HasMore = e < int (length all), ml_NextCursor = ''''\<rparr>)"
      unfolding eq Some Let_def option.case by blast
    show ?thesis
      using assms unfolding e by (cases "go_slice all start e") auto
  qed
qed

lemma go_slice_subset: "go_slice all a b = Some ys \<Longrightarrow> set ys \<subseteq> set all"
  by (auto simp: go_slice_def split: if_splits dest: in_set_takeD in_set_dropD)

lemma paginate_subset:
  assumes "paginate all opts = Ok l"
  shows "set (ml_Messages l) \<subseteq> set all"
  using paginate_Ok [OF assms] go_slice_subset [of all] by force

lemma Find_found:
  assumes "Store_Find now filters opts s = Ok l" "store_inv s" "m \<in> set (ml_Messages l)"
  shows "msg_of s (msgID m) = Some m" "matching now filters m"
proof -
  have c: "connected s"
    using assms(1) unfolding Store_Find_def by (cases "connected s") simp_all
  have "m \<in> set (found now filters opts s)"
    using paginate_subset [of "found now filters opts s" opts l] assms(1,3) Find_eq [OF c]
    by (simp add: subset_iff)
  then show "msg_of s (msgID m) = Some m" "matching now filters m"
    using set_found [OF assms(2)] by simp_all
qed

text \<open>Where a page starts, when the cursor is empty or in the result.\<close>

definition pageStart :: "message list \<Rightarrow> ListOptions \<Rightarrow> nat option" where
  "pageStart all opts =
     (if StartAfter opts = '''' then Some 0
      else map_option Suc (find_index (\<lambda>m. msgID m = StartAfter opts) all))"

lemma pageStart_le: "pageStart all opts = Some p \<Longrightarrow> p \<le> length all"
  by (auto simp: pageStart_def split: if_splits dest: find_index_Some)

lemma paginate_Panic_iff:
  assumes "int64_range (Limit opts)" "length all < 2 ^ 62"
  shows "paginate all opts = Panic \<longleftrightarrow>
    (\<exists>p. pageStart all opts = Some p \<and> (Limit opts < 0 \<or> 2 ^ 63 \<le> int p + Limit opts))"
proof -
  have start: "(if StartAfter opts \<noteq> ''''
       then map_option (\<lambda>i. int i + 1) (find_index (\<lambda>m. msgID m = StartAfter opts) all)
       else Some 0) = map_option int (pageStart all opts)"
    by (simp add: pageStart_def option.map_comp comp_def add.commute)
  show ?thesis
  proof (cases "pageStart all opts")
    case None
    with start show ?thesis by (simp add: paginate_def Let_def)
  next
    case (Some p)
    have p: "int p < 2 ^ 62" "p \<le> length all"
      using pageStart_le [OF Some] assms(2) by simp_all
    let ?n = "int (length all)"
    define e0 where "e0 = wrap64 (int p + Limit opts)"
    define e where "e = (if (if Limit opts = 0 then ?n else e0) > ?n then ?n
        else if Limit opts = 0 then ?n else e0)"
    have "paginate all opts = Panic \<longleftrightarrow> go_slice all (int p) e = None"
      using start Some by (auto simp: paginate_def Let_def e_def e0_def split: option.splits)
    also have "\<dots> \<longleftrightarrow> e < int p"
      using p by (auto simp: go_slice_def e_def)
    also have "\<dots> \<longleftrightarrow> Limit opts < 0 \<or> 2 ^ 63 \<le> int p + Limit opts"
    proof (cases "2 ^ 63 \<le> int p + Limit opts")
      case True
      have "e0 = int p + Limit opts - 2 ^ 64"
        unfolding e0_def using True p assms(1) by (intro wrap64_over) (auto simp: int64_range_def)
      with True p assms(1) show ?thesis by (auto simp: e_def int64_range_def)
    next
      case False
      have "e0 = int p + Limit opts"
        unfolding e0_def using False assms(1) p by (intro wrap64_id) (auto simp: int64_range_def)
      with False p show ?thesis by (auto simp: e_def)
    qed
    finally show ?thesis using Some by simp
  qed
qed

section \<open>Counting\<close>

lemma foldl_count:
  "foldl (\<lambda>c (_, m). if P m then c + 1 else c) (n :: int) xs = n + int (length (filter P (map snd xs)))"
  by (induction xs arbitrary: n) auto

lemma Count_eq:
  "connected s \<Longrightarrow>
   Store_Count now filters s = Ok (int (length (filter (matching now filters) (map snd (messages s)))))"
  by (simp add: Store_Count_def matching_def [abs_def] foldl_count)

lemma length_found: "length (found now filters opts s) = length (filter (matching now filters) (map snd (messages s)))"
  by (simp add: found_def)

lemma length_found_le: "length (found now filters opts s) \<le> length (messages s)"
  using length_filter_le [of "matching now filters" "map snd (messages s)"] length_found
  by (metis length_map)

lemma folderCounts_Nil [simp]: "folderCounts [] f = zeroCounts"
  by (simp add: folderCounts_def)

text \<open>The counts of one folder in a list of messages.\<close>

definition tally :: "message list \<Rightarrow> string \<Rightarrow> FolderCounts" where
  "tally ms f =
     \<lparr>fc_Total = int (length (filter (\<lambda>m. folderID m = f) ms)),
      fc_Unread = int (length (filter (\<lambda>m. folderID m = f \<and> \<not> isRead m) ms))\<rparr>"

definition addCounts :: "FolderCounts \<Rightarrow> FolderCounts \<Rightarrow> FolderCounts" where
  "addCounts a b = \<lparr>fc_Total = fc_Total a + fc_Total b, fc_Unread = fc_Unread a + fc_Unread b\<rparr>"

lemma countMessage_folder:
  "folderCounts (countMessage m cs) f = addCounts (folderCounts cs f) (tally [m] f)"
  by (auto simp: countMessage_def tally_def addCounts_def Let_def)

lemma tally_Cons: "tally (m # ms) f = addCounts (tally [m] f) (tally ms f)"
  by (auto simp: tally_def addCounts_def)

lemma addCounts_assoc: "addCounts (addCounts a b) c = addCounts a (addCounts b c)"
  by (simp add: addCounts_def)

lemma addCounts_zero [simp]: "addCounts zeroCounts a = a" "addCounts a (tally [] f) = a"
  by (simp_all add: addCounts_def zeroCounts_def tally_def)

lemma CountByFolders_gen:
  "folderCounts (foldl (\<lambda>counts (_, m). if P m then countMessage m counts else counts) cs xs) f =
     addCounts (folderCounts cs f) (tally (filter P (map snd xs)) f)"
proof (induction xs arbitrary: cs)
  case (Cons x xs)
  obtain k m where "x = (k, m)" by force
  then show ?case
    by (simp add: Cons.IH countMessage_folder addCounts_assoc
        tally_Cons [of m "filter P (map snd xs)"])
qed simp

definition visible :: "time \<Rightarrow> string \<Rightarrow> message \<Rightarrow> bool" where
  "visible now owner m \<longleftrightarrow> ownerID m = owner \<and> \<not> isDraft m \<and> isAvailableNow now m"

lemma matching_owner: "matching now [OwnerIs owner] m \<longleftrightarrow> visible now owner m"
  by (auto simp: matching_def visible_def)

lemma statsStep_fold:
  "foldl (statsStep now owner) st ms =
     \<lparr>TotalMessages = TotalMessages st + int (length (filter (visible now owner) ms)),
      UnreadCount = UnreadCount st + int (length (filter (\<lambda>m. visible now owner m \<and> \<not> isRead m) ms)),
      DraftCount = DraftCount st + int (length (filter (\<lambda>m. ownerID m = owner \<and> isDraft m) ms)),
      Folders = foldl (\<lambda>fs m. countMessage m fs) (Folders st) (filter (visible now owner) ms)\<rparr>"
proof (induction ms arbitrary: st)
  case (Cons m ms)
  have "visible now owner m \<longleftrightarrow> ownerID m = owner \<and> \<not> isDraft m \<and> isAvailableNow now m"
    by (simp add: visible_def)
  then show ?case
    unfolding foldl_Cons Cons.IH by (simp add: statsStep_def Let_def)
qed simp

lemma countMessages_folder:
  "folderCounts (foldl (\<lambda>fs m. countMessage m fs) cs ms) f = addCounts (folderCounts cs f) (tally ms f)"
proof (induction ms arbitrary: cs)
  case (Cons m ms)
  then show ?case by (simp add: countMessage_folder addCounts_assoc tally_Cons [of m ms])
qed simp

section \<open>Properties\<close>

text \<open>
  C12: following the cursor visits a listing page by page. With a positive limit, the page after
  position \<open>p\<close> of the sorted result is the next at most \<open>Limit\<close> messages, \<open>Total\<close> is the size of
  the whole result, and \<open>HasMore\<close> says whether messages remain after the page. The result has
  every visible matching message once, and no draft or message scheduled for later.
\<close>

theorem Find_page:
  assumes "store_inv s" "connected s" "0 < Limit opts" "length (messages s) < 2 ^ 62" "Limit opts < 2 ^ 62"
    and "p \<le> length (found now filters opts s)" "at_position (found now filters opts s) p (StartAfter opts)"
  shows "Store_Find now filters opts s =
     Ok \<lparr>ml_Messages = take (nat (Limit opts)) (drop p (found now filters opts s)),
         ml_Total = int (length (found now filters opts s)),
         ml_HasMore = int p + Limit opts < int (length (found now filters opts s)),
         ml_NextCursor = ''''\<rparr> \<and>
     distinct (map msgID (found now filters opts s)) \<and>
     set (found now filters opts s) =
       {m. msg_of s (msgID m) = Some m \<and> \<not> isDraft m \<and> isAvailableNow now m \<and> matchesFilters m filters}"
proof -
  have "int (length (found now filters opts s)) + Limit opts < 2 ^ 63"
    using assms(4,5) length_found_le [of now filters opts s] by simp
  with assms(2) paginate_page [OF distinct_found [OF assms(1)] assms(7,6,3)]
  have "Store_Find now filters opts s =
     Ok \<lparr>ml_Messages = take (nat (Limit opts)) (drop p (found now filters opts s)),
         ml_Total = int (length (found now filters opts s)),
         ml_HasMore = int p + Limit opts < int (length (found now filters opts s)),
         ml_NextCursor = ''''\<rparr>"
    by (simp add: Find_eq)
  moreover have "set (found now filters opts s) =
       {m. msg_of s (msgID m) = Some m \<and> \<not> isDraft m \<and> isAvailableNow now m \<and> matchesFilters m filters}"
    using set_found [OF assms(1)] by (auto simp: matching_def)
  ultimately show ?thesis using distinct_found [OF assms(1)] by blast
qed

definition demoOpts :: "int \<Rightarrow> string \<Rightarrow> ListOptions" where
  "demoOpts n cursor = \<lparr>Limit = n, Offset = 0, SortBy = '''', Order = 0, StartAfter = cursor\<rparr>"

lemma demoFull_length: "length (messages demoFull) = 4"
  by code_simp

theorem Find_page_witness:
  "\<exists>l. Store_Find 200 [NotDeleted] (demoOpts 1 (msgID (hd (found 200 [NotDeleted] (demoOpts 1 '''') demoFull)))) demoFull
      = Ok l \<and> length (ml_Messages l) = 1 \<and> ml_Total l = 2 \<and> \<not> ml_HasMore l"
proof -
  let ?o = "demoOpts 1 (msgID (hd (found 200 [NotDeleted] (demoOpts 1 '''') demoFull)))"
  let ?all = "found 200 [NotDeleted] ?o demoFull"
  have len: "length ?all = 2" by code_simp
  have "at_position ?all 1 (StartAfter ?o)" by code_simp
  moreover have "length (messages demoFull) < 2 ^ 62" by (simp add: demoFull_length)
  ultimately have "Store_Find 200 [NotDeleted] ?o demoFull =
     Ok \<lparr>ml_Messages = take (nat (Limit ?o)) (drop 1 ?all), ml_Total = int (length ?all),
         ml_HasMore = int 1 + Limit ?o < int (length ?all), ml_NextCursor = ''''\<rparr>"
    using Find_page [OF demoFull_inv, of ?o 1 200 "[NotDeleted]"] len by (simp add: demoOpts_def)
  then show ?thesis using len by (simp add: demoOpts_def)
qed

text \<open>
  C38: a listing panics exactly when its limit is negative or the limit added to the start of the
  page leaves the 64-bit range; a cursor that is not in the result gives an empty page instead.
\<close>

theorem Find_Panic_iff:
  assumes "connected s" "int64_range (Limit opts)" "length (messages s) < 2 ^ 62"
  shows "Store_Find now filters opts s = Panic \<longleftrightarrow>
    (\<exists>p. pageStart (found now filters opts s) opts = Some p \<and>
         (Limit opts < 0 \<or> 2 ^ 63 \<le> int p + Limit opts))"
proof -
  have "length (found now filters opts s) < 2 ^ 62"
    using assms(3) length_found_le [of now filters opts s] by simp
  from paginate_Panic_iff [OF assms(2) this] assms(1) show ?thesis by (simp add: Find_eq)
qed

theorem Find_Panic_iff_witness:
  "Store_Find 200 [NotDeleted] (demoOpts (-1) '''') demoFull = Panic"
proof -
  have "length (messages demoFull) < 2 ^ 62" by (simp add: demoFull_length)
  then show ?thesis
    using Find_Panic_iff [OF demoFull_inv(2), of "demoOpts (-1) ''''" 200 "[NotDeleted]"]
    by (simp add: demoOpts_def int64_range_def pageStart_def)
qed

text \<open>
  C32: the statistics of a mailbox count what its listings list: the total is the number of the
  owner's visible messages, the unread count that of the unread among them, the draft count that
  of the owner's drafts, and every folder's counts are those of the visible messages in it. The
  count by folders agrees with them on the folders asked for and is zero on the others.
\<close>

theorem MailboxStats_counts:
  assumes "connected s"
  shows "\<exists>st fs. Store_MailboxStats now owner s = Ok st \<and>
     Store_CountByFolders now owner folders s = Ok fs \<and>
     Store_Count now [OwnerIs owner] s = Ok (TotalMessages st) \<and>
     Store_Count now [OwnerIs owner, IsReadFilter False] s = Ok (UnreadCount st) \<and>
     DraftCount st = int (length (filter (\<lambda>m. ownerID m = owner \<and> isDraft m) (map snd (messages s)))) \<and>
     (\<forall>f. Store_Count now [OwnerIs owner, InFolder f] s = Ok (fc_Total (folderCounts (Folders st) f)) \<and>
          Store_Count now [OwnerIs owner, InFolder f, IsReadFilter False] s =
            Ok (fc_Unread (folderCounts (Folders st) f)) \<and>
          folderCounts fs f = (if f \<in> set folders then folderCounts (Folders st) f else zeroCounts))"
proof -
  let ?ms = "map snd (messages s)"
  define st where "st = foldl (statsStep now owner) zeroStats ?ms"
  let ?P = "\<lambda>m. \<not> (isDraft m \<or> ownerID m \<noteq> owner \<or> \<not> isAvailableNow now m) \<and> folderID m \<in> set folders"
  define fs where "fs = foldl (\<lambda>counts (_, m). if ?P m then countMessage m counts else counts) [] (messages s)"
  have st: "Store_MailboxStats now owner s = Ok st"
    using assms by (simp add: Store_MailboxStats_def st_def)
  have "(\<lambda>counts (_ :: string, m). if isDraft m \<or> ownerID m \<noteq> owner \<or> \<not> isAvailableNow now m then counts
             else if folderID m \<notin> set folders then counts else countMessage m counts) =
        (\<lambda>counts (_, m). if ?P m then countMessage m counts else counts)"
    by (auto simp: fun_eq_iff)
  then have fs: "Store_CountByFolders now owner folders s = Ok fs"
    using assms by (simp add: Store_CountByFolders_def fs_def)
  have folder: "folderCounts (Folders st) f = tally (filter (visible now owner) ?ms) f" for f
    by (simp add: st_def statsStep_fold countMessages_folder zeroStats_def)
  have "filter ?P ?ms = filter (\<lambda>m. folderID m \<in> set folders) (filter (visible now owner) ?ms)"
    by (auto simp: visible_def intro!: filter_cong)
  then have "folderCounts fs f = tally (filter (\<lambda>m. folderID m \<in> set folders) (filter (visible now owner) ?ms)) f" for f
    by (simp add: fs_def CountByFolders_gen del: filter_filter)
  moreover have "tally (filter (\<lambda>m. folderID m \<in> set folders) xs) f =
      (if f \<in> set folders then tally xs f else zeroCounts)" for xs f
    by (auto simp: tally_def zeroCounts_def filter_empty_conv intro!: arg_cong [where f = length] filter_cong)
  ultimately have "folderCounts fs f = (if f \<in> set folders then folderCounts (Folders st) f else zeroCounts)" for f
    by (simp add: folder del: filter_filter)
  moreover have "matching now (OwnerIs owner # flt) = (\<lambda>m. visible now owner m \<and> matchesFilters m flt)" for flt
    by (auto simp: matching_def visible_def fun_eq_iff)
  then have count: "Store_Count now (OwnerIs owner # flt) s =
      Ok (int (length (filter (\<lambda>m. matchesFilters m flt) (filter (visible now owner) ?ms))))" for flt
    using assms by (simp add: Count_eq conj_commute)
  have "Store_Count now [OwnerIs owner] s = Ok (TotalMessages st)"
    unfolding count by (simp add: st_def statsStep_fold zeroStats_def)
  moreover have "Store_Count now [OwnerIs owner, IsReadFilter False] s = Ok (UnreadCount st)"
    unfolding count
    by (auto simp: st_def statsStep_fold zeroStats_def intro!: arg_cong [where f = length] filter_cong)
  moreover have "DraftCount st = int (length (filter (\<lambda>m. ownerID m = owner \<and> isDraft m) ?ms))"
    by (simp add: st_def statsStep_fold zeroStats_def)
  moreover have "Store_Count now [OwnerIs owner, InFolder f] s = Ok (fc_Total (folderCounts (Folders st) f))" for f
    unfolding count folder
    by (auto simp: tally_def intro!: arg_cong [where f = length] filter_cong)
  moreover have "Store_Count now [OwnerIs owner, InFolder f, IsReadFilter False] s =
            Ok (fc_Unread (folderCounts (Folders st) f))" for f
    unfolding count folder
    by (auto simp: tally_def intro!: arg_cong [where f = length] filter_cong)
  ultimately show ?thesis using st fs by blast
qed

theorem MailboxStats_counts_witness:
  "\<exists>st fs. Store_MailboxStats 200 ''bob'' demoFull = Ok st \<and>
     Store_CountByFolders 200 ''bob'' [FolderInbox] demoFull = Ok fs \<and>
     Store_Count 200 [OwnerIs ''bob''] demoFull = Ok (TotalMessages st) \<and> TotalMessages st = 2 \<and>
     fc_Total (folderCounts fs FolderInbox) = 1"
proof -
  have c: "Store_Count 200 [OwnerIs ''bob''] demoFull = Ok 2"
    "Store_Count 200 [OwnerIs ''bob'', InFolder FolderInbox] demoFull = Ok 1"
    by code_simp+
  then show ?thesis
    using MailboxStats_counts [OF demoFull_inv(2), of 200 "''bob''" "[FolderInbox]"] by fastforce
qed

end
