(* ===== verification/Memory_Steps.thy ===== *)
theory Memory_Steps
  imports Memory_Query
begin

text \<open>
  Runs of the in-memory backend: every call that changes its state, executed one after the other
  in any order, as a step relation. The lemmas say what holds in every state such a run reaches,
  and how a message and an idempotency key evolve along it: sent messages never change their
  content, identifiers are never used again, and a key keeps naming its message as long as the
  message exists.
\<close>

section \<open>Calls and steps\<close>

datatype store_call =
    ConnectC | CloseC
  | SaveDraftC time DraftMessage | DeleteDraftC string
  | CreateC time MessageData | CreateManyC time "MessageData list"
  | CreateIdempotentC time MessageData string
  | CreateManyIdempotentC time "(MessageData \<times> string) list"
  | ExpireTrashC time | ExpireMessagesC time | ExpireTTLC time | DeleteIDsC "string list"
  | MarkReadC time bool string | MoveC time string "string list" string
  | AddTagC time string string | RemoveTagC time string string
  | DeleteC time string | HardDeleteC string | RestoreC time string
  | MarkAllReadC time string string | MarkReadByC time bool string "Filter list"
  | MoveByC time string string "Filter list" | DeleteByC time string "Filter list"
  | AddTagByC time string string "Filter list" | RemoveTagByC time string string "Filter list"

fun run_call :: "uuids \<Rightarrow> store_call \<Rightarrow> Store \<Rightarrow> Store" where
  "run_call uuid ConnectC s = fst (Store_Connect s)"
| "run_call uuid CloseC s = fst (Store_Close s)"
| "run_call uuid (SaveDraftC now d) s = fst (Store_SaveDraft uuid now d s)"
| "run_call uuid (DeleteDraftC i) s = fst (Store_DeleteDraft i s)"
| "run_call uuid (CreateC now d) s = fst (Store_CreateMessage uuid now d s)"
| "run_call uuid (CreateManyC now ds) s = fst (Store_CreateMessages uuid now ds s)"
| "run_call uuid (CreateIdempotentC now d key) s = fst (Store_CreateMessageIdempotent uuid now d key s)"
| "run_call uuid (CreateManyIdempotentC now es) s = fst (Store_CreateMessagesIdempotent uuid now es s)"
| "run_call uuid (ExpireTrashC t) s = fst (Store_DeleteExpiredTrash t s)"
| "run_call uuid (ExpireMessagesC t) s = fst (Store_DeleteExpiredMessages t s)"
| "run_call uuid (ExpireTTLC t) s = fst (Store_DeleteTTLExpiredMessages t s)"
| "run_call uuid (DeleteIDsC ids) s = fst (Store_DeleteMessagesByIDs ids s)"
| "run_call uuid (MarkReadC now r i) s = fst (Store_MarkRead now r i s)"
| "run_call uuid (MoveC now f opts i) s = fst (Store_MoveToFolder now f opts i s)"
| "run_call uuid (AddTagC now t i) s = fst (Store_AddTag now t i s)"
| "run_call uuid (RemoveTagC now t i) s = fst (Store_RemoveTag now t i s)"
| "run_call uuid (DeleteC now i) s = fst (Store_Delete now i s)"
| "run_call uuid (HardDeleteC i) s = fst (Store_HardDelete i s)"
| "run_call uuid (RestoreC now i) s = fst (Store_Restore now i s)"
| "run_call uuid (MarkAllReadC now owner f) s = fst (Store_MarkAllRead now owner f s)"
| "run_call uuid (MarkReadByC now r owner fs) s = fst (Store_MarkReadByFilter now r owner fs s)"
| "run_call uuid (MoveByC now f owner fs) s = fst (Store_MoveByFilter now f owner fs s)"
| "run_call uuid (DeleteByC now owner fs) s = fst (Store_DeleteByFilter now owner fs s)"
| "run_call uuid (AddTagByC now t owner fs) s = fst (Store_AddTagByFilter now t owner fs s)"
| "run_call uuid (RemoveTagByC now t owner fs) s = fst (Store_RemoveTagByFilter now t owner fs s)"

text \<open>Callers save drafts that are new or stored; no other call has a condition.\<close>

fun call_ok :: "store_call \<Rightarrow> Store \<Rightarrow> bool" where
  "call_ok (SaveDraftC _ d) s = draft_known d s"
| "call_ok _ s = True"

inductive store_step :: "uuids \<Rightarrow> Store \<Rightarrow> Store \<Rightarrow> bool" for uuid where
  step: "call_ok c s \<Longrightarrow> store_step uuid s (run_call uuid c s)"

inductive_cases store_stepE: "store_step uuid s s'"

inductive store_run :: "uuids \<Rightarrow> Store \<Rightarrow> Store \<Rightarrow> bool" for uuid where
  refl: "store_run uuid s s"
| step: "store_run uuid s s' \<Longrightarrow> store_step uuid s' s'' \<Longrightarrow> store_run uuid s s''"

definition reachable :: "uuids \<Rightarrow> Store \<Rightarrow> bool" where
  "reachable uuid s \<longleftrightarrow> store_run uuid Store_New s"

section \<open>Invariant\<close>

lemmas op_keeps =
  CreateMessage_ok CreateMessages_ok CreateMessageIdempotent_ok CreateMessagesIdempotent_ok
  maintenance_ok SaveDraft_ok DeleteDraft_ok
  markRead.op_ok move.op_ok addTag.op_ok removeTag.op_ok softDelete.op_ok hardDelete.op_ok
  restore.op_ok markAllRead.bulk_ok markReadBy.bulk_ok moveBy.bulk_ok deleteBy.bulk_ok
  addTagBy.bulk_ok removeTagBy.bulk_ok

lemma run_call_ok:
  "uuid_ok uuid \<Longrightarrow> store_ok uuid s \<Longrightarrow> call_ok c s \<Longrightarrow> store_ok uuid (run_call uuid c s)"
  by (cases c) (auto simp: Store_Connect_def Store_Close_def intro: op_keeps)

lemma store_run_ok: "store_run uuid s s' \<Longrightarrow> uuid_ok uuid \<Longrightarrow> store_ok uuid s \<Longrightarrow> store_ok uuid s'"
  by (induction rule: store_run.induct) (auto elim!: store_stepE intro: run_call_ok)

section \<open>Evolution\<close>

text \<open>
  How one state may follow another: a message found afterwards was there before, with the same
  content or as a draft, or has an identifier drawn in between; and a key of the index keeps its
  message unless that message is gone.
\<close>

definition msg_follows :: "message \<Rightarrow> message \<Rightarrow> bool" where
  "msg_follows m m' \<longleftrightarrow> isDraft m \<and> isDraft m' \<or> same_content m m'"

definition evolves :: "uuids \<Rightarrow> Store \<Rightarrow> Store \<Rightarrow> bool" where
  "evolves uuid s s' \<longleftrightarrow> uuidSeq s \<le> uuidSeq s' \<and>
     (\<forall>i m'. msg_of s' i = Some m' \<longrightarrow>
        (case msg_of s i of Some m \<Rightarrow> msg_follows m m'
         | None \<Rightarrow> \<exists>n. uuidSeq s \<le> n \<and> n < uuidSeq s' \<and> i = uuid n)) \<and>
     (\<forall>k i. map_of (idempotencyIdx s) k = Some i \<longrightarrow>
        map_of (idempotencyIdx s') k = Some i \<or> msg_of s' i = None)"

lemma msg_follows_refl [simp]: "msg_follows m m"
  by (simp add: msg_follows_def)

lemma msg_follows_trans: "msg_follows a b \<Longrightarrow> msg_follows b c \<Longrightarrow> msg_follows a c"
  by (auto simp: msg_follows_def intro: same_content_trans) (simp_all add: same_content_def)

lemma evolves_refl [simp]: "evolves uuid s s"
  by (auto simp: evolves_def split: option.split)

text \<open>A state that only replaces or removes messages.\<close>

lemma evolves_within:
  assumes "\<And>i m'. msg_of s' i = Some m' \<Longrightarrow> \<exists>m. msg_of s i = Some m \<and> msg_follows m m'"
    and "idempotencyIdx s' = idempotencyIdx s" "uuidSeq s \<le> uuidSeq s'"
  shows "evolves uuid s s'"
  using assms unfolding evolves_def by fastforce

lemma evolvesD:
  assumes "evolves uuid s s'"
  shows "uuidSeq s \<le> uuidSeq s'"
    and "\<And>i m'. msg_of s' i = Some m' \<Longrightarrow> msg_of s i = None \<Longrightarrow>
           \<exists>n. uuidSeq s \<le> n \<and> n < uuidSeq s' \<and> i = uuid n"
    and "\<And>i m m'. msg_of s' i = Some m' \<Longrightarrow> msg_of s i = Some m \<Longrightarrow> msg_follows m m'"
    and "\<And>k i. map_of (idempotencyIdx s) k = Some i \<Longrightarrow>
           map_of (idempotencyIdx s') k = Some i \<or> msg_of s' i = None"
proof -
  note e = assms [unfolded evolves_def]
  show "uuidSeq s \<le> uuidSeq s'" using e by (rule conjunct1)
  show "\<And>k i. map_of (idempotencyIdx s) k = Some i \<Longrightarrow>
           map_of (idempotencyIdx s') k = Some i \<or> msg_of s' i = None"
    using e [THEN conjunct2, THEN conjunct2] by simp
  fix i m' assume "msg_of s' i = Some m'"
  with e have c: "case msg_of s i of Some m \<Rightarrow> msg_follows m m'
         | None \<Rightarrow> \<exists>n. uuidSeq s \<le> n \<and> n < uuidSeq s' \<and> i = uuid n" by simp
  show "msg_of s i = None \<Longrightarrow> \<exists>n. uuidSeq s \<le> n \<and> n < uuidSeq s' \<and> i = uuid n"
    using c by simp
  show "msg_of s i = Some m \<Longrightarrow> msg_follows m m'" for m
    using c by simp
qed

lemma evolves_trans:
  assumes ab: "evolves uuid a b" and bc: "evolves uuid b c" and a: "ids_fresh uuid a"
  shows "evolves uuid a c"
  unfolding evolves_def
proof (intro conjI allI impI)
  show "uuidSeq a \<le> uuidSeq c" using evolvesD(1) [OF ab] evolvesD(1) [OF bc] by simp
  have old: "i \<noteq> uuid n" if "i \<in> set (keys (messages a)) \<or> i \<in> snd ` set (idempotencyIdx a)"
    "uuidSeq b \<le> n" for i n
  proof -
    have "uuidSeq a \<le> n" using evolvesD(1) [OF ab] that(2) by simp
    then have "uuid n \<notin> set (keys (messages a)) \<and> uuid n \<notin> snd ` set (idempotencyIdx a)"
      using a by (simp add: ids_fresh_def)
    with that(1) show ?thesis by blast
  qed
  fix i m'
  assume c: "msg_of c i = Some m'"
  show "case msg_of a i of None \<Rightarrow> \<exists>n. uuidSeq a \<le> n \<and> n < uuidSeq c \<and> i = uuid n
       | Some m \<Rightarrow> msg_follows m m'"
  proof (cases "msg_of b i")
    case None
    from evolvesD(2) [OF bc c None] obtain n where n: "uuidSeq b \<le> n" "n < uuidSeq c" "i = uuid n"
      by blast
    then have "msg_of a i = None" using old [of i n] by (auto simp: map_of_eq_None_iff)
    moreover have "uuidSeq a \<le> n" using n(1) evolvesD(1) [OF ab] by simp
    ultimately show ?thesis using n by auto
  next
    case b: (Some m)
    note mm' = evolvesD(3) [OF bc c b]
    show ?thesis
    proof (cases "msg_of a i")
      case None
      from evolvesD(2) [OF ab b None] evolvesD(1) [OF bc] show ?thesis
        by (auto simp: None dest: less_le_trans)
    next
      case (Some m0)
      from msg_follows_trans [OF evolvesD(3) [OF ab b Some] mm'] show ?thesis by (simp add: Some)
    qed
  qed
next
  fix k i
  assume k: "map_of (idempotencyIdx a) k = Some i"
  then have i: "i \<in> snd ` set (idempotencyIdx a)" by (force dest: map_of_SomeD)
  show "map_of (idempotencyIdx c) k = Some i \<or> msg_of c i = None"
  proof (cases "map_of (idempotencyIdx b) k = Some i")
    case True
    from evolvesD(4) [OF bc True] show ?thesis .
  next
    case False
    with evolvesD(4) [OF ab k] have b: "msg_of b i = None" by simp
    have "msg_of c i = None"
    proof (rule ccontr)
      assume "msg_of c i \<noteq> None"
      then obtain m' where "msg_of c i = Some m'" by blast
      from evolvesD(2) [OF bc this b] obtain n where n: "uuidSeq b \<le> n" "i = uuid n"
        by blast
      have "uuidSeq a \<le> n" using evolvesD(1) [OF ab] n(1) by simp
      then have "uuid n \<notin> snd ` set (idempotencyIdx a)" using a by (simp add: ids_fresh_def)
      with i n(2) show False by simp
    qed
    then show ?thesis ..
  qed
qed

section \<open>Every call is an evolution\<close>

context message_op
begin

lemma op_evolves: "evolves uuid s (fst (op i s))"
proof (rule evolves_within)
  fix j m' assume "msg_of (fst (op i s)) j = Some m'"
  from op_content [OF this] show "\<exists>m. msg_of s j = Some m \<and> msg_follows m m'"
    by (auto simp: msg_follows_def)
qed (simp_all add: op_rest)

end

context bulk_op
begin

lemma bulk_evolves:
  assumes "store_ok uuid s"
  shows "evolves uuid s (fst (op s))"
proof (rule evolves_within)
  have inv: "store_inv s" using assms by (simp add: store_ok_def)
  fix j m' assume "msg_of (fst (op s)) j = Some m'"
  from bulk_content [OF inv this] show "\<exists>m. msg_of s j = Some m \<and> msg_follows m m'"
    by (auto simp: msg_follows_def)
next
  have inv: "distinct (keys (messages s))" using assms by (simp add: store_ok_def store_invD)
  show "idempotencyIdx (fst (op s)) = idempotencyIdx s" "uuidSeq s \<le> uuidSeq (fst (op s))"
    by (cases "connected s"; simp add: bulk bulk_closed inv)+
qed

end

lemma evolves_filter:
  assumes "store_inv s"
  shows "evolves uuid s (s\<lparr>messages := filter (\<lambda>(k, m). P k m) (messages s)\<rparr>)"
  using store_invD(1) [OF assms]
  by (intro evolves_within) (auto simp: map_of_filter_entries split: option.splits if_splits)

lemma deleteWhere_evolves: "store_inv s \<Longrightarrow> evolves uuid s (fst (deleteWhere P s))"
  by (simp add: deleteWhere_eq evolves_filter)

lemma maintenance_evolves:
  assumes "store_inv s"
  shows "evolves uuid s (fst (Store_DeleteExpiredTrash t s))"
    and "evolves uuid s (fst (Store_DeleteExpiredMessages t s))"
    and "evolves uuid s (fst (Store_DeleteTTLExpiredMessages t s))"
    and "evolves uuid s (fst (Store_DeleteMessagesByIDs ids s))"
proof -
  show "evolves uuid s (fst (Store_DeleteMessagesByIDs ids s))"
    using evolves_filter [OF assms, of uuid "\<lambda>k m. k \<notin> set ids"] loadAndDeleteAll_map [of ids "messages s"]
    by (simp add: Store_DeleteMessagesByIDs_def case_prod_beta')
qed (simp_all add: Store_DeleteExpiredTrash_def Store_DeleteExpiredMessages_def
      Store_DeleteTTLExpiredMessages_def case_prod_beta' deleteWhere_evolves [OF assms])

lemma evolves_add:
  assumes "msg_of s' = (msg_of s)(uuid n \<mapsto> m)" "msg_of s (uuid n) = None"
    and "uuidSeq s \<le> n" "n < uuidSeq s'"
    and "\<And>k i. map_of (idempotencyIdx s) k = Some i \<Longrightarrow>
           map_of (idempotencyIdx s') k = Some i \<or> msg_of s' i = None"
  shows "evolves uuid s s'"
  unfolding evolves_def
proof (intro conjI allI impI)
  show "uuidSeq s \<le> uuidSeq s'" using assms(3,4) by simp
  show "case msg_of s i of None \<Rightarrow> \<exists>j. uuidSeq s \<le> j \<and> j < uuidSeq s' \<and> i = uuid j
       | Some m0 \<Rightarrow> msg_follows m0 m'" if "msg_of s' i = Some m'" for i m'
    using that assms(1-4) by (cases "i = uuid n") (auto split: option.split)
qed (rule assms(5))

lemma CreateMessage_evolves:
  assumes "store_ok uuid s"
  shows "evolves uuid s (fst (Store_CreateMessage uuid now d s))"
proof (cases "connected s")
  case True
  with store_ok_fresh(1) [OF assms order_refl] show ?thesis
    by (intro evolves_add [of _ s uuid "uuidSeq s"]) (auto simp: CreateMessage_eq Let_def)
qed (simp add: Store_CreateMessage_def)

lemma CreateMessageIdempotent_evolves:
  assumes "uuid_ok uuid" "store_ok uuid s"
  shows "evolves uuid s (fst (Store_CreateMessageIdempotent uuid now d key s))"
proof (cases "connected s \<and> key \<noteq> ''''")
  case True
  let ?k = "idxKey (OwnerID d) key"
  show ?thesis
  proof (cases "idempotent_hit s ?k")
    case (Some m)
    with True show ?thesis by (auto simp: CreateMessageIdempotent_hit intro: evolves_within)
  next
    case None
    obtain s' n where r: "reserve uuid ?k s = (s', n)" by force
    note r_ok = reserve_ok [OF assms r]
    have gone: "msg_of s i = None" if "map_of (idempotencyIdx s) ?k = Some i" for i
      using None that by (simp add: idempotent_hit_def)
    have new: "i \<noteq> uuid n" if "map_of (idempotencyIdx s) k = Some i" for k i
      using store_ok_fresh(2) [OF assms(2) r_ok(3)] map_of_SomeD [OF that] by blast
    let ?m = "newMessageFromData d (uuid n) now"
    define s1 where "s1 = s'\<lparr>messages := AList.update (uuid n) ?m (messages s)\<rparr>"
    have "evolves uuid s s1"
    proof (rule evolves_add)
      show "msg_of s1 = (msg_of s)(uuid n \<mapsto> ?m)" by (simp add: s1_def)
      show "map_of (idempotencyIdx s1) k = Some i \<or> msg_of s1 i = None"
        if "map_of (idempotencyIdx s) k = Some i" for k i
        using that gone new [OF that] r_ok(8) [of k] by (cases "k = ?k") (auto simp: s1_def)
    qed (use r_ok in \<open>simp_all add: s1_def\<close>)
    with True None r show ?thesis by (simp add: CreateMessageIdempotent_new s1_def Let_def)
  qed
qed (auto simp: Store_CreateMessageIdempotent_def)

lemma createIdempotentLoop_evolves:
  "uuid_ok uuid \<Longrightarrow> store_ok uuid s \<Longrightarrow> evolves uuid s (fst (createIdempotentLoop uuid now es s))"
proof (induction es arbitrary: s)
  case (Cons e es)
  obtain d key where e: "e = (d, key)" by force
  let ?s = "fst (Store_CreateMessageIdempotent uuid now d key s)"
  have "evolves uuid s ?s" "evolves uuid ?s (fst (createIdempotentLoop uuid now es ?s))"
    using Cons CreateMessageIdempotent_evolves CreateMessageIdempotent_ok by auto
  then have "evolves uuid s (fst (createIdempotentLoop uuid now es ?s))"
    using Cons.prems(2) by (auto intro: evolves_trans simp: store_ok_def)
  then show ?case by (simp add: e case_prod_beta')
qed simp

lemma createLoop_evolves:
  "uuid_ok uuid \<Longrightarrow> store_ok uuid s \<Longrightarrow> evolves uuid s (fst (createLoop uuid now ds s))"
proof (induction ds arbitrary: s)
  case (Cons d ds)
  let ?s = "fst (Store_CreateMessage uuid now d s)"
  have "evolves uuid s ?s" "evolves uuid ?s (fst (createLoop uuid now ds ?s))"
    using Cons CreateMessage_evolves CreateMessage_ok by auto
  then have "evolves uuid s (fst (createLoop uuid now ds ?s))" "evolves uuid s ?s"
    using Cons.prems(2) by (auto intro: evolves_trans simp: store_ok_def)
  then show ?case by (auto split: prod.splits res.splits)
qed simp

lemma SaveDraft_evolves:
  assumes "store_ok uuid s" "draft_known d s"
  shows "evolves uuid s (fst (Store_SaveDraft uuid now d s))"
proof (cases "connected s")
  case True
  show ?thesis
  proof (cases "msgID (draftRecord d) = ''''")
    case new: True
    with True store_ok_fresh(1) [OF assms(1) order_refl] show ?thesis
      by (intro evolves_add [of _ s uuid "uuidSeq s"]) (auto simp: SaveDraft_eq Let_def)
  next
    case False
    with assms(2) obtain m1 where "msg_of s (msgID (draftRecord d)) = Some m1" "isDraft m1"
      by (auto simp: draft_known_def Let_def split: option.splits)
    with True False show ?thesis
      by (intro evolves_within) (auto simp: SaveDraft_eq Let_def msg_follows_def split: if_splits)
  qed
qed (simp add: Store_SaveDraft_def)

lemma DeleteDraft_evolves: "evolves uuid s (fst (Store_DeleteDraft i s))"
  by (intro evolves_within) (auto simp: Store_DeleteDraft_def split: option.splits if_splits)

lemmas op_evolutions =
  CreateMessage_evolves CreateMessageIdempotent_evolves SaveDraft_evolves DeleteDraft_evolves
  markRead.op_evolves move.op_evolves addTag.op_evolves removeTag.op_evolves softDelete.op_evolves
  hardDelete.op_evolves restore.op_evolves markAllRead.bulk_evolves markReadBy.bulk_evolves
  moveBy.bulk_evolves deleteBy.bulk_evolves addTagBy.bulk_evolves removeTagBy.bulk_evolves

lemma run_call_evolves:
  assumes "uuid_ok uuid" "store_ok uuid s" "call_ok c s"
  shows "evolves uuid s (run_call uuid c s)"
proof -
  have inv: "store_inv s" using assms(2) by (simp add: store_ok_def)
  have "evolves uuid s (s\<lparr>connected := b\<rparr>)" for b by (rule evolves_within) auto
  then show ?thesis
    using assms
    by (cases c)
       (auto simp: Store_Connect_def Store_Close_def Store_CreateMessages_def createLoop_evolves
         Store_CreateMessagesIdempotent_def case_prod_beta' createIdempotentLoop_evolves
         maintenance_evolves [OF inv] intro: op_evolutions)
qed

lemma store_run_evolves:
  assumes "store_run uuid s s'" "uuid_ok uuid" "store_ok uuid s"
  shows "evolves uuid s s'"
  using assms
proof (induction rule: store_run.induct)
  case (step s s' s'')
  then have ok': "store_ok uuid s'" using store_run_ok by blast
  from step.hyps(2) obtain c where "s'' = run_call uuid c s'" "call_ok c s'"
    by (auto elim: store_stepE)
  then have "evolves uuid s' s''" using step.prems ok' by (simp add: run_call_evolves)
  with step show ?case by (auto intro: evolves_trans simp: store_ok_def)
qed simp

section \<open>Properties\<close>

definition run_calls :: "uuids \<Rightarrow> store_call list \<Rightarrow> Store \<Rightarrow> Store" where
  "run_calls uuid cs s = foldl (\<lambda>s c. run_call uuid c s) s cs"

lemma store_run_trans: "store_run uuid b c \<Longrightarrow> store_run uuid a b \<Longrightarrow> store_run uuid a c"
  by (induction rule: store_run.induct) (auto intro: store_run.step)

lemma run_calls_run:
  "(\<And>c s. c \<in> set cs \<Longrightarrow> call_ok c s) \<Longrightarrow> store_run uuid s (run_calls uuid cs s)"
proof (induction cs arbitrary: s)
  case (Cons c cs)
  have "store_run uuid s (run_call uuid c s)"
    using Cons.prems by (intro store_run.step [OF store_run.refl] store_step.step) simp
  moreover have "store_run uuid (run_call uuid c s) (run_calls uuid cs (run_call uuid c s))"
    using Cons by simp
  ultimately show ?case by (simp add: run_calls_def store_run_trans)
qed (simp add: run_calls_def store_run.refl)

text \<open>A run that creates a message for bob with the key \<open>k\<close>, and one that changes it.\<close>

definition demoCreated :: Store where
  "demoCreated = run_calls demoUUID [ConnectC, CreateIdempotentC 5 (demoData ''bob'' ''alice'') ''k''] Store_New"

definition demoChanged :: Store where
  "demoChanged = run_calls demoUUID
     [MarkReadC 7 True (demoUUID 0), AddTagC 8 ''urgent'' (demoUUID 0), DeleteC 9 (demoUUID 0)] demoCreated"

lemma demo_runs: "reachable demoUUID demoCreated" "store_run demoUUID demoCreated demoChanged"
  unfolding reachable_def demoCreated_def demoChanged_def by (rule run_calls_run; force)+







text \<open>
  C14: an idempotency key holds for as long as its message exists. After a creation with a key, and
  any calls after it, a retry with the same owner and key returns the message now stored, with
  the content it was created with, and creates nothing, unless the message has been deleted.
\<close>

theorem idempotency_key_holds:
  assumes "uuid_ok uuid" "reachable uuid s" "key \<noteq> ''''"
    and "Store_CreateMessageIdempotent uuid now d key s = (s1, Ok (m, created))"
    and "store_run uuid s1 s2" "connected s2" "msg_of s2 (msgID m) = Some m2" "\<not> isDraft m"
  shows "\<exists>s3. Store_CreateMessageIdempotent uuid now' (d'\<lparr>OwnerID := OwnerID d\<rparr>) key s2 = (s3, Ok (m2, False)) \<and>
     messages s3 = messages s2 \<and> same_content m m2"
proof -
  have ok: "store_ok uuid s" using store_run_ok [OF assms(2) [unfolded reachable_def] assms(1) New_ok] .
  have "connected s" using assms(4) by (auto simp: Store_CreateMessageIdempotent_def split: if_splits)
  note hits = CreateMessageIdempotent_hits [OF assms(1) ok this assms(3,4)]
  have ok1: "store_ok uuid s1" using CreateMessageIdempotent_ok [OF assms(1) ok, of now d key] assms(4) by simp
  let ?k = "idxKey (OwnerID d) key"
  obtain i where i: "map_of (idempotencyIdx s1) ?k = Some i" "msg_of s1 i = Some m"
    using hits(2) by (auto simp: idempotent_hit_def split: option.splits)
  have "i = msgID m" using ok1 inv_msgID [of s1 i m] i(2) by (simp add: store_ok_def)
  note run = store_run_evolves [OF assms(5,1) ok1]
  have "map_of (idempotencyIdx s2) ?k = Some i"
    using evolvesD(4) [OF run i(1)] assms(7) \<open>i = msgID m\<close> by simp
  then have "idempotent_hit s2 ?k = Some m2"
    using assms(7) \<open>i = msgID m\<close> by (simp add: idempotent_hit_def)
  moreover have "same_content m m2"
    using evolvesD(3) [OF run assms(7)] i(2) \<open>i = msgID m\<close> assms(8) by (auto simp: msg_follows_def)
  ultimately show ?thesis
    using CreateMessageIdempotent_hit [OF assms(6,3), of "d'\<lparr>OwnerID := OwnerID d\<rparr>"] by simp
qed

theorem idempotency_key_holds_witness:
  "\<exists>s3 m2. msg_of demoChanged (demoUUID 0) = Some m2 \<and>
     Store_CreateMessageIdempotent demoUUID 11 ((demoData ''x'' ''carol'')\<lparr>OwnerID := OwnerID (demoData ''bob'' ''alice'')\<rparr>)
       ''k'' demoChanged = (s3, Ok (m2, False)) \<and> messages s3 = messages demoChanged"
proof -
  let ?m = "newMessageFromData (demoData ''bob'' ''alice'') (demoUUID 0) 5"
  let ?m2 = "?m\<lparr>isRead := True, readAt := Some 7, tags := [''urgent''], folderID := FolderTrash, updatedAt := 9\<rparr>"
  have open': "reachable demoUUID (run_calls demoUUID [ConnectC] Store_New)"
    unfolding reachable_def by (rule run_calls_run) auto
  have create: "Store_CreateMessageIdempotent demoUUID 5 (demoData ''bob'' ''alice'') ''k''
      (run_calls demoUUID [ConnectC] Store_New) = (demoCreated, Ok (?m, True))"
    by code_simp
  have m2: "msg_of demoChanged (msgID ?m) = Some ?m2" by code_simp
  have "connected demoChanged" by code_simp
  from idempotency_key_holds [OF demoUUID_ok open' _ create demo_runs(2) this m2,
      of 11 "demoData ''x'' ''carol''"] m2
  show ?thesis by auto
qed

end
