(* ===== verification/Memory_Race.thy ===== *)
theory Memory_Race
  imports Memory_Steps
begin

text \<open>
  \<open>CreateMessageIdempotent\<close> takes no lock: its steps on the two concurrent maps can interleave
  with those of other callers. Here each caller is a program counter over the atomic steps of the
  loop, and a schedule, the list of the callers whose turn it is, drives any number of them on
  one store. The lemmas say that a caller that runs alone computes what the atomic definition
  says, that every caller returns after at most eight of its own steps whatever the others do,
  and that two callers with the same key can nevertheless both create a message.
\<close>

section \<open>Callers\<close>

text \<open>
  \<open>Reserve n id\<close> is the head of the loop with \<open>n\<close> attempts left and \<open>id\<close> the last identifier
  generated; \<open>Check\<close> loads the message the index names; \<open>Clean\<close> deletes a stale entry; \<open>Publish\<close>
  stores the message; \<open>Returned\<close> is the result.
\<close>

datatype pc =
    Reserve nat string
  | Check nat string string
  | Clean nat string
  | Publish string
  | Returned message bool

record caller =
  c_data :: MessageData
  c_key :: string
  c_now :: time
  c_pc :: pc

definition caller_step :: "uuids \<Rightarrow> caller \<Rightarrow> Store \<Rightarrow> caller \<times> Store" where
  "caller_step uuid c s =
     (let k = idxKey (OwnerID (c_data c)) (c_key c) in
      case c_pc c of
        Reserve 0 newMsgID \<Rightarrow> (c\<lparr>c_pc := Publish newMsgID\<rparr>, s)
      | Reserve (Suc n) _ \<Rightarrow>
          (let (newMsgID, s) = newUUID uuid s;
               ((existingID, loaded), idx) = map_LoadOrStore k newMsgID (idempotencyIdx s)
           in (c\<lparr>c_pc := (if \<not> loaded then Publish newMsgID else Check n existingID newMsgID)\<rparr>,
               s\<lparr>idempotencyIdx := idx\<rparr>))
      | Check n existingID newMsgID \<Rightarrow>
          (case msg_of s existingID of
             Some m \<Rightarrow> (c\<lparr>c_pc := Returned (clone m) False\<rparr>, s)
           | None \<Rightarrow> (c\<lparr>c_pc := Clean n newMsgID\<rparr>, s))
      | Clean n newMsgID \<Rightarrow>
          (c\<lparr>c_pc := Reserve n newMsgID\<rparr>, s\<lparr>idempotencyIdx := AList.delete k (idempotencyIdx s)\<rparr>)
      | Publish newMsgID \<Rightarrow>
          (let m = newMessageFromData (c_data c) newMsgID (c_now c)
           in (c\<lparr>c_pc := Returned (clone m) True\<rparr>,
               s\<lparr>messages := AList.update (msgID m) m (messages s)\<rparr>))
      | Returned _ _ \<Rightarrow> (c, s))"

text \<open>A call of \<open>CreateMessageIdempotent\<close> past its two guards.\<close>

definition call :: "time \<Rightarrow> MessageData \<Rightarrow> string \<Rightarrow> caller" where
  "call now d key = \<lparr>c_data = d, c_key = key, c_now = now, c_pc = Reserve 2 ''''\<rparr>"

fun sched_step :: "uuids \<Rightarrow> caller list \<times> Store \<Rightarrow> nat \<Rightarrow> caller list \<times> Store" where
  "sched_step uuid (cs, s) i =
     (if i < length cs then (let (c, s') = caller_step uuid (cs ! i) s in (cs[i := c], s')) else (cs, s))"

definition run_schedule :: "uuids \<Rightarrow> nat list \<Rightarrow> caller list \<times> Store \<Rightarrow> caller list \<times> Store" where
  "run_schedule uuid sched cfg = foldl (sched_step uuid) cfg sched"

section \<open>Every caller returns\<close>

fun steps_left :: "pc \<Rightarrow> nat" where
  "steps_left (Reserve n _) = 3 * n + 2"
| "steps_left (Check n _ _) = 3 * n + 4"
| "steps_left (Clean n _) = 3 * n + 3"
| "steps_left (Publish _) = 1"
| "steps_left (Returned _ _) = 0"

lemma caller_step_less:
  "steps_left (c_pc c) \<noteq> 0 \<Longrightarrow> steps_left (c_pc (fst (caller_step uuid c s))) < steps_left (c_pc c)"
  by (cases "c_pc c")
     (auto simp: caller_step_def Let_def newUUID_def map_LoadOrStore_def split: nat.split option.split prod.split)

lemma caller_step_le: "steps_left (c_pc (fst (caller_step uuid c s))) \<le> steps_left (c_pc c) - 1"
proof (cases "steps_left (c_pc c) = 0")
  case True
  then obtain m b where "c_pc c = Returned m b" by (cases "c_pc c") auto
  then show ?thesis by (simp add: caller_step_def)
next
  case False
  from caller_step_less [OF this, of uuid s] show ?thesis by simp
qed

lemma steps_left_0: "steps_left p = 0 \<longleftrightarrow> (\<exists>m b. p = Returned m b)"
  by (cases p) auto

text \<open>A caller's steps left after a schedule: it loses at least one at each of its turns.\<close>

lemma run_schedule_steps:
  assumes "i < length cs"
  shows "length (fst (run_schedule uuid sched (cs, s))) = length cs"
    and "steps_left (c_pc (fst (run_schedule uuid sched (cs, s)) ! i)) \<le>
           steps_left (c_pc (cs ! i)) - count_list sched i"
proof -
  have "length (fst (run_schedule uuid sched (cs, s))) = length cs \<and>
     steps_left (c_pc (fst (run_schedule uuid sched (cs, s)) ! i)) \<le>
       steps_left (c_pc (cs ! i)) - count_list sched i"
    using assms
  proof (induction sched arbitrary: cs s)
    case (Cons j sched)
    obtain cs' s' where step: "sched_step uuid (cs, s) j = (cs', s')" by force
    have len: "length cs' = length cs" using step by (auto simp: case_prod_beta' Let_def split: if_splits)
    have "steps_left (c_pc (cs' ! i)) \<le> steps_left (c_pc (cs ! i)) - (if j = i then 1 else 0)"
    proof (cases "j = i")
      case True
      with step Cons.prems have "cs' ! i = fst (caller_step uuid (cs ! i) s)"
        by (auto simp: case_prod_beta' Let_def)
      with True caller_step_le [of uuid "cs ! i" s] show ?thesis by simp
    next
      case False
      with step have "cs' ! i = cs ! i" by (auto simp: case_prod_beta' Let_def split: if_splits)
      with False show ?thesis by simp
    qed
    moreover have "steps_left (c_pc (fst (run_schedule uuid sched (cs', s')) ! i)) \<le>
        steps_left (c_pc (cs' ! i)) - count_list sched i"
      "length (fst (run_schedule uuid sched (cs', s'))) = length cs'"
      using Cons len by auto
    ultimately show ?case using step len by (auto simp: run_schedule_def)
  qed (simp add: run_schedule_def)
  then show "length (fst (run_schedule uuid sched (cs, s))) = length cs"
    and "steps_left (c_pc (fst (run_schedule uuid sched (cs, s)) ! i)) \<le>
           steps_left (c_pc (cs ! i)) - count_list sched i"
    by auto
qed

section \<open>A caller alone\<close>

lemma caller_step_simps:
  "caller_step uuid \<lparr>c_data = d, c_key = key, c_now = now, c_pc = Reserve 0 i\<rparr> s =
     (\<lparr>c_data = d, c_key = key, c_now = now, c_pc = Publish i\<rparr>, s)"
  "caller_step uuid \<lparr>c_data = d, c_key = key, c_now = now, c_pc = Publish i\<rparr> s =
     (\<lparr>c_data = d, c_key = key, c_now = now, c_pc = Returned (newMessageFromData d i now) True\<rparr>,
      s\<lparr>messages := AList.update i (newMessageFromData d i now) (messages s)\<rparr>)"
  "caller_step uuid \<lparr>c_data = d, c_key = key, c_now = now, c_pc = Returned m b\<rparr> s =
     (\<lparr>c_data = d, c_key = key, c_now = now, c_pc = Returned m b\<rparr>, s)"
  "caller_step uuid \<lparr>c_data = d, c_key = key, c_now = now, c_pc = Clean n i\<rparr> s =
     (\<lparr>c_data = d, c_key = key, c_now = now, c_pc = Reserve n i\<rparr>,
      s\<lparr>idempotencyIdx := AList.delete (idxKey (OwnerID d) key) (idempotencyIdx s)\<rparr>)"
  "caller_step uuid \<lparr>c_data = d, c_key = key, c_now = now, c_pc = Check n j i\<rparr> s =
     (\<lparr>c_data = d, c_key = key, c_now = now,
        c_pc = (case msg_of s j of Some m \<Rightarrow> Returned m False | None \<Rightarrow> Clean n i)\<rparr>, s)"
  "caller_step uuid \<lparr>c_data = d, c_key = key, c_now = now, c_pc = Reserve (Suc n) i\<rparr> s =
     (case map_of (idempotencyIdx s) (idxKey (OwnerID d) key) of
        Some j \<Rightarrow> (\<lparr>c_data = d, c_key = key, c_now = now, c_pc = Check n j (uuid (uuidSeq s))\<rparr>,
                   s\<lparr>uuidSeq := Suc (uuidSeq s)\<rparr>)
      | None \<Rightarrow> (\<lparr>c_data = d, c_key = key, c_now = now, c_pc = Publish (uuid (uuidSeq s))\<rparr>,
                 s\<lparr>uuidSeq := Suc (uuidSeq s),
                   idempotencyIdx := AList.update (idxKey (OwnerID d) key) (uuid (uuidSeq s)) (idempotencyIdx s)\<rparr>))"
  by (auto simp: caller_step_def newUUID_def map_LoadOrStore_def Let_def split: option.split)

lemma sched_step_alone:
  "sched_step uuid ([c], s) 0 = (case caller_step uuid c s of (c', s') \<Rightarrow> ([c'], s'))"
  by (simp add: case_prod_beta' Let_def)

text \<open>
  C16: a caller of \<open>CreateMessageIdempotent\<close> that no other call interrupts leaves the store and
  returns the result that the definition of the operation as one step gives.
\<close>

theorem caller_alone_atomic:
  assumes "connected s" "key \<noteq> ''''"
  shows "\<exists>m created. run_schedule uuid (replicate 8 0) ([call now d key], s) =
       ([(call now d key)\<lparr>c_pc := Returned m created\<rparr>],
        fst (Store_CreateMessageIdempotent uuid now d key s)) \<and>
     snd (Store_CreateMessageIdempotent uuid now d key s) = Ok (m, created)"
proof -
  let ?k = "idxKey (OwnerID d) key"
  have rep: "replicate 8 (0 :: nat) = [0, 0, 0, 0, 0, 0, 0, 0]"
    by (simp add: numeral_eq_Suc)
  note run = run_schedule_def rep call_def numeral_2_eq_2 sched_step_alone caller_step_simps
  show ?thesis
  proof (cases "idempotent_hit s ?k")
    case (Some m)
    then obtain i where i: "map_of (idempotencyIdx s) ?k = Some i" "msg_of s i = Some m"
      by (auto simp: idempotent_hit_def split: option.splits)
    with assms Some show ?thesis
      by (intro exI [of _ m] exI [of _ False])
         (simp add: run CreateMessageIdempotent_hit del: sched_step.simps)
  next
    case None
    show ?thesis
    proof (cases "map_of (idempotencyIdx s) ?k")
      case none: None
      with assms None show ?thesis
        by (intro exI [of _ "newMessageFromData d (uuid (uuidSeq s)) now"] exI [of _ True])
           (simp add: run CreateMessageIdempotent_new reserve_def delete_absent Let_def del: sched_step.simps)
    next
      case (Some i)
      with None have "msg_of s i = None" by (simp add: idempotent_hit_def)
      with assms None Some show ?thesis
        by (intro exI [of _ "newMessageFromData d (uuid (Suc (uuidSeq s))) now"] exI [of _ True])
           (simp add: run CreateMessageIdempotent_new reserve_def Let_def del: sched_step.simps)
    qed
  qed
qed

theorem caller_alone_atomic_witness:
  "\<exists>m created. run_schedule demoUUID (replicate 8 0) ([call 5 (demoData ''bob'' ''alice'') ''k''], demoStore) =
       ([(call 5 (demoData ''bob'' ''alice'') ''k'')\<lparr>c_pc := Returned m created\<rparr>],
        fst (Store_CreateMessageIdempotent demoUUID 5 (demoData ''bob'' ''alice'') ''k'' demoStore)) \<and>
     snd (Store_CreateMessageIdempotent demoUUID 5 (demoData ''bob'' ''alice'') ''k'' demoStore) = Ok (m, created)"
  by (rule caller_alone_atomic) simp_all

text \<open>
  C17: every caller returns. Whatever the other callers do and however the schedule interleaves
  them, a caller that gets eight turns has returned a message; the retry loop cannot be kept
  running by others.
\<close>

theorem caller_returns:
  assumes "i < length cs" "cs ! i = call now d key" "8 \<le> count_list sched i"
  shows "\<exists>m created. c_pc (fst (run_schedule uuid sched (cs, s)) ! i) = Returned m created"
proof -
  have "steps_left (c_pc (cs ! i)) = 8" using assms(2) by (simp add: call_def)
  with run_schedule_steps(2) [OF assms(1), of uuid sched s] assms(3)
  have "steps_left (c_pc (fst (run_schedule uuid sched (cs, s)) ! i)) = 0" by simp
  then show ?thesis by (simp add: steps_left_0)
qed

theorem caller_returns_witness:
  "\<exists>m created. c_pc (fst (run_schedule demoUUID ([0, 1, 1, 0] @ replicate 8 0)
     ([call 5 (demoData ''bob'' ''alice'') ''k'', call 6 (demoData ''bob'' ''eve'') ''k''], demoStore)) ! 0)
       = Returned m created"
  by (rule caller_returns) (simp_all add: numeral_eq_Suc)

text \<open>
  C18: two concurrent callers with the same owner and key can both create a message. When the
  second looks the message up after the first has reserved the key but before it has stored the
  message, it takes the entry for a stale one, deletes it and creates a second message; both
  calls report that they created theirs, and both messages remain.
\<close>

theorem idempotent_race_duplicates:
  "\<exists>m1 m2 cs s. run_schedule demoUUID [0, 1, 1, 1, 1, 1, 0]
       ([call 5 (demoData ''bob'' ''alice'') ''k'', call 5 (demoData ''bob'' ''alice'') ''k''], demoStore) = (cs, s) \<and>
     map c_pc cs = [Returned m1 True, Returned m2 True] \<and> msgID m1 \<noteq> msgID m2 \<and>
     map snd (messages s) = [m2, m1]"
proof -
  let ?d = "demoData ''bob'' ''alice''"
  let ?r = "run_schedule demoUUID [0, 1, 1, 1, 1, 1, 0] ([call 5 ?d ''k'', call 5 ?d ''k''], demoStore)"
  let ?m1 = "newMessageFromData ?d (demoUUID 0) 5" and ?m2 = "newMessageFromData ?d (demoUUID 2) 5"
  have "map c_pc (fst ?r) = [Returned ?m1 True, Returned ?m2 True]"
    "map snd (messages (snd ?r)) = [?m2, ?m1]"
    by code_simp+
  moreover have "msgID ?m1 \<noteq> msgID ?m2" by code_simp
  ultimately show ?thesis by (metis prod.collapse)
qed

end
