(* ===== verification/Mailbox_Errors.thy ===== *)
theory Mailbox_Errors
  imports Store_Types "HOL-Library.Multiset"
begin

text \<open>
  The errors of the mailbox package, \<open>errors.go\<close>: the sentinel errors, the error types that
  carry details, the walk over an error chain that \<open>errors.Is\<close> and \<open>errors.As\<close> make, and the
  classification of an error as retryable or permanent.

  An error is a tree: \<open>fmt.Errorf\<close> with \<open>%w\<close> adds a node above the error it wraps, and the
  \<open>Unwrap\<close> method of an error type gives the children of its node. The message texts are not
  part of the model. A map from identifiers to errors is an association list with distinct
  keys, in the order in which \<open>range\<close> visits it.
\<close>

section \<open>Sentinel errors\<close>

text \<open>
  The sentinels keep their names; those that share the name of an error of the store, which
  they wrap, have the prefix \<open>M\<close>.
\<close>

datatype sentinel =
    MErrNotFound | ErrUnauthorized | ErrInvalidMessage | MErrEmptyRecipients | MErrEmptySubject
  | ErrStoreRequired | MErrNotConnected | MErrAlreadyConnected | MErrInvalidID
  | MErrDuplicateEntry | MErrFilterInvalid | ErrEventClientRequired | ErrNotInTrash
  | ErrAlreadyInTrash | ErrAttachmentNotFound | ErrAttachmentStoreNotConfigured
  | ErrPartialDelivery | ErrInvalidMetadata | ErrMetadataKeyTooLong | ErrMetadataTooLarge
  | ErrSubjectTooLong | ErrBodyTooLarge | ErrInvalidContent | ErrTooManyRecipients
  | ErrInvalidRecipient | ErrTooManyAttachments | ErrAttachmentTooLarge | ErrInvalidAttachment
  | ErrInvalidMIMEType | ErrInvalidHeaders | ErrTooManyHeaders | ErrHeaderKeyTooLong
  | ErrHeaderValueTooLong | ErrHeadersTooLarge | MErrInvalidFolderID | ErrRateLimited
  | ErrInvalidUserID | MErrInvalidIdempotencyKey | ErrCacheInvalidationFailed
  | MErrFolderMismatch | ErrNotifierNotConfigured | ErrInvalidTTL | ErrInvalidSchedule
  | ErrQuotaExceeded | ErrQuotaUserListerNotConfigured | ErrUserResolveFailed
  | ErrRecipientNotFound

text \<open>The store error a sentinel is declared to wrap.\<close>

fun sentinelWraps :: "sentinel \<Rightarrow> store_error option" where
  "sentinelWraps MErrNotFound = Some ErrNotFound"
| "sentinelWraps MErrEmptyRecipients = Some ErrEmptyRecipients"
| "sentinelWraps MErrEmptySubject = Some ErrEmptySubject"
| "sentinelWraps MErrNotConnected = Some ErrNotConnected"
| "sentinelWraps MErrAlreadyConnected = Some ErrAlreadyConnected"
| "sentinelWraps MErrInvalidID = Some ErrInvalidID"
| "sentinelWraps MErrDuplicateEntry = Some ErrDuplicateEntry"
| "sentinelWraps MErrFilterInvalid = Some ErrFilterInvalid"
| "sentinelWraps MErrInvalidFolderID = Some ErrInvalidFolderID"
| "sentinelWraps MErrInvalidIdempotencyKey = Some ErrInvalidIdempotencyKey"
| "sentinelWraps MErrFolderMismatch = Some ErrFolderMismatch"
| "sentinelWraps _ = None"

section \<open>Error values\<close>

text \<open>
  \<open>Wrapf\<close> is \<open>fmt.Errorf\<close> with one \<open>%w\<close> and \<open>Joined\<close> the error of \<open>errors.Join\<close>;
  \<open>BulkOperationError\<close> carries the errors of the failed items. \<open>ExternalError\<close> is an error value
  of a package the mailbox only calls, or one that only has a text, told apart by a number.
\<close>

datatype error =
    Sentinel sentinel
  | StoreErr store_error
  | Wrapf error
  | PartialDeliveryError string "string list" "(string \<times> error) list"
  | ValidationError string
  | EventPublishError string string error
  | AttachmentRefError string "(string \<times> error) list" "(string \<times> error) list"
  | QuotaExceededError string int int
  | PluginError string string error
  | BulkOperationError "error list"
  | Joined "error list"
  | ExternalError nat

text \<open>\<open>fmt.Errorf("%w: ...", Err...)\<close> of a sentinel.\<close>

abbreviation errf :: "sentinel \<Rightarrow> error" where
  "errf s \<equiv> Wrapf (Sentinel s)"

text \<open>\<open>errors.Join\<close>: the errors that are not nil, nil when there are none.\<close>

definition errors_Join :: "error option list \<Rightarrow> error option" where
  "errors_Join es = (let errs = map the (filter (\<lambda>e. e \<noteq> None) es) in if errs = [] then None else Some (Joined errs))"

text \<open>
  \<open>errors.Is(err, target)\<close> for a target that is a sentinel of this package (\<open>Inl\<close>) or of the
  store (\<open>Inr\<close>): the node itself or one below it is the target.
\<close>

fun errors_Is :: "error \<Rightarrow> sentinel + store_error \<Rightarrow> bool" where
  "errors_Is (Sentinel s) t \<longleftrightarrow> t = Inl s \<or> (case sentinelWraps s of None \<Rightarrow> False | Some e \<Rightarrow> t = Inr e)"
| "errors_Is (StoreErr e) t \<longleftrightarrow> t = Inr e"
| "errors_Is (Wrapf e) t \<longleftrightarrow> errors_Is e t"
| "errors_Is (PartialDeliveryError _ _ _) t \<longleftrightarrow> t = Inl ErrPartialDelivery"
| "errors_Is (ValidationError _) t \<longleftrightarrow> t = Inl ErrInvalidMessage"
| "errors_Is (EventPublishError _ _ e) t \<longleftrightarrow> errors_Is e t"
| "errors_Is (AttachmentRefError _ failed rollbackFailed) t \<longleftrightarrow>
    (\<exists>e \<in> set (map snd failed). errors_Is e t) \<or> (\<exists>e \<in> set (map snd rollbackFailed). errors_Is e t)"
| "errors_Is (QuotaExceededError _ _ _) t \<longleftrightarrow> t = Inl ErrQuotaExceeded"
| "errors_Is (PluginError _ _ e) t \<longleftrightarrow> errors_Is e t"
| "errors_Is (BulkOperationError errs) t \<longleftrightarrow> (\<exists>e \<in> set errs. errors_Is e t)"
| "errors_Is (Joined errs) t \<longleftrightarrow> (\<exists>e \<in> set errs. errors_Is e t)"
| "errors_Is (ExternalError _) t \<longleftrightarrow> False"

text \<open>\<open>errors.As\<close> at the two types the package looks for: the first node of the type, depth first.\<close>

fun first_some :: "'a option list \<Rightarrow> 'a option" where
  "first_some [] = None"
| "first_some (None # xs) = first_some xs"
| "first_some (Some x # xs) = Some x"

lemma first_some_cong [fundef_cong]: "xs = ys \<Longrightarrow> first_some xs = first_some ys"
  by simp

fun IsPartialDelivery :: "error \<Rightarrow> (string \<times> string list \<times> (string \<times> error) list) option" where
  "IsPartialDelivery (PartialDeliveryError i delivered failed) = Some (i, delivered, failed)"
| "IsPartialDelivery (Wrapf e) = IsPartialDelivery e"
| "IsPartialDelivery (EventPublishError _ _ e) = IsPartialDelivery e"
| "IsPartialDelivery (AttachmentRefError _ failed rollbackFailed) =
    first_some (map (\<lambda>e. IsPartialDelivery e) (map snd failed @ map snd rollbackFailed))"
| "IsPartialDelivery (PluginError _ _ e) = IsPartialDelivery e"
| "IsPartialDelivery (BulkOperationError errs) = first_some (map (\<lambda>e. IsPartialDelivery e) errs)"
| "IsPartialDelivery (Joined errs) = first_some (map (\<lambda>e. IsPartialDelivery e) errs)"
| "IsPartialDelivery _ = None"

fun IsEventPublishError :: "error \<Rightarrow> (string \<times> string \<times> error) option" where
  "IsEventPublishError (EventPublishError n i e) = Some (n, i, e)"
| "IsEventPublishError (Wrapf e) = IsEventPublishError e"
| "IsEventPublishError (AttachmentRefError _ failed rollbackFailed) =
    first_some (map (\<lambda>e. IsEventPublishError e) (map snd failed @ map snd rollbackFailed))"
| "IsEventPublishError (PluginError _ _ e) = IsEventPublishError e"
| "IsEventPublishError (BulkOperationError errs) = first_some (map (\<lambda>e. IsEventPublishError e) errs)"
| "IsEventPublishError (Joined errs) = first_some (map (\<lambda>e. IsEventPublishError e) errs)"
| "IsEventPublishError _ = None"

section \<open>Retryable errors\<close>

definition permanentErrors :: "sentinel list" where
  "permanentErrors = [MErrNotFound, ErrUnauthorized, ErrInvalidMessage, MErrEmptyRecipients,
    MErrEmptySubject, MErrInvalidID, ErrInvalidMetadata, ErrMetadataKeyTooLong,
    ErrMetadataTooLarge, ErrSubjectTooLong, ErrBodyTooLarge, ErrInvalidContent,
    ErrTooManyRecipients, ErrInvalidRecipient, ErrTooManyAttachments, ErrAttachmentTooLarge,
    ErrInvalidAttachment, MErrInvalidFolderID, MErrFolderMismatch, ErrInvalidUserID,
    MErrInvalidIdempotencyKey, MErrDuplicateEntry, ErrInvalidHeaders, ErrTooManyHeaders,
    ErrHeaderKeyTooLong, ErrHeaderValueTooLong, ErrHeadersTooLarge, ErrQuotaExceeded,
    ErrUserResolveFailed, ErrQuotaUserListerNotConfigured]"

definition storePermanentErrors :: "store_error list" where
  "storePermanentErrors = [ErrNotFound, ErrInvalidID, ErrDuplicateEntry, ErrEmptyRecipients,
    ErrEmptySubject, ErrFilterInvalid, ErrInvalidFolderID, ErrFolderMismatch,
    ErrInvalidIdempotencyKey]"

definition retryableErrors :: "(sentinel + store_error) list" where
  "retryableErrors = [Inl ErrRateLimited, Inl MErrNotConnected, Inl ErrCacheInvalidationFailed,
    Inr ErrNotConnected, Inr ErrTransactionFailed]"

definition IsRetryableError :: "error option \<Rightarrow> bool" where
  "IsRetryableError err = (case err of
      None \<Rightarrow> False
    | Some e \<Rightarrow>
        if \<exists>s \<in> set permanentErrors. errors_Is e (Inl s) then False
        else if \<exists>s \<in> set storePermanentErrors. errors_Is e (Inr s) then False
        else if \<exists>t \<in> set retryableErrors. errors_Is e t then True
        else True)"

text \<open>The methods of \<open>PartialDeliveryError\<close> and \<open>AttachmentRefError\<close>, on the fields they read.\<close>

definition RetryableRecipients :: "(string \<times> error) list \<Rightarrow> string list" where
  "RetryableRecipients failedRecipients =
    map fst (filter (\<lambda>(recipientID, err). IsRetryableError (Some err)) failedRecipients)"

definition PermanentFailures :: "(string \<times> error) list \<Rightarrow> string list" where
  "PermanentFailures failedRecipients =
    map fst (filter (\<lambda>(recipientID, err). \<not> IsRetryableError (Some err)) failedRecipients)"

definition HasRetryableFailures :: "(string \<times> error) list \<Rightarrow> bool" where
  "HasRetryableFailures failedRecipients \<longleftrightarrow>
    (\<exists>(recipientID, err) \<in> set failedRecipients. IsRetryableError (Some err))"

definition AllFailed :: "string list \<Rightarrow> bool" where
  "AllFailed deliveredTo \<longleftrightarrow> length deliveredTo = 0"

text \<open>The success rate as the fraction \<open>float64\<close> approximates: delivered and total.\<close>

definition SuccessRate :: "string list \<Rightarrow> (string \<times> error) list \<Rightarrow> (nat \<times> nat) option" where
  "SuccessRate deliveredTo failedRecipients =
    (let total = length deliveredTo + length failedRecipients
     in if total = 0 then None else Some (length deliveredTo, total))"

definition HasRollbackFailures :: "(string \<times> error) list \<Rightarrow> bool" where
  "HasRollbackFailures rollbackFailed \<longleftrightarrow> length rollbackFailed > 0"

definition FailedIDs :: "(string \<times> error) list \<Rightarrow> string list" where
  "FailedIDs failed = map fst failed"

section \<open>What the classification depends on\<close>

text \<open>The sentinels an error has been built from, from the outside in.\<close>

fun causes :: "error \<Rightarrow> (sentinel + store_error) list" where
  "causes (Sentinel s) = Inl s # (case sentinelWraps s of None \<Rightarrow> [] | Some e \<Rightarrow> [Inr e])"
| "causes (StoreErr e) = [Inr e]"
| "causes (Wrapf e) = causes e"
| "causes (PartialDeliveryError _ _ _) = [Inl ErrPartialDelivery]"
| "causes (ValidationError _) = [Inl ErrInvalidMessage]"
| "causes (EventPublishError _ _ e) = causes e"
| "causes (AttachmentRefError _ failed rollbackFailed) =
    concat (map causes (map snd failed)) @ concat (map causes (map snd rollbackFailed))"
| "causes (QuotaExceededError _ _ _) = [Inl ErrQuotaExceeded]"
| "causes (PluginError _ _ e) = causes e"
| "causes (BulkOperationError errs) = concat (map causes errs)"
| "causes (Joined errs) = concat (map causes errs)"
| "causes (ExternalError _) = []"

lemma errors_Is_causes: "errors_Is e t \<longleftrightarrow> t \<in> set (causes e)"
  by (induction e t rule: errors_Is.induct) (auto split: option.splits)

definition permanentCause :: "sentinel + store_error \<Rightarrow> bool" where
  "permanentCause c = (case c of Inl s \<Rightarrow> s \<in> set permanentErrors | Inr s \<Rightarrow> s \<in> set storePermanentErrors)"

lemma IsRetryableError_iff: "IsRetryableError (Some e) \<longleftrightarrow> (\<forall>c \<in> set (causes e). \<not> permanentCause c)"
proof -
  have "(\<exists>c \<in> set (causes e). permanentCause c) \<longleftrightarrow>
    (\<exists>s \<in> set permanentErrors. Inl s \<in> set (causes e)) \<or>
    (\<exists>s \<in> set storePermanentErrors. Inr s \<in> set (causes e))"
    unfolding permanentCause_def by (auto split: sum.splits) (metis old.sum.exhaust)
  then show ?thesis by (auto simp: IsRetryableError_def errors_Is_causes)
qed

lemma mset_partition_keys:
  "mset (map fst (filter P xs)) + mset (map fst (filter (\<lambda>x. \<not> P x) xs)) = mset (map fst xs)"
  by (induction xs) auto

lemma mailbox_store_agree:
  "sentinelWraps s = Some e \<Longrightarrow> IsRetryableError (Some (Sentinel s)) = IsRetryableError (Some (StoreErr e))"
  by (cases s)
    (auto simp: IsRetryableError_iff permanentCause_def permanentErrors_def storePermanentErrors_def)

text \<open>
  C28: An error is retryable exactly when none of the sentinels it was built from is permanent,
  however deep it is wrapped; an error of the store and the mailbox sentinel that wraps it are
  classified alike; a quota or validation error is permanent and an error from outside is
  retryable. The failed recipients of a partial delivery are split by it: every recipient is
  in exactly one of the two lists, and \<open>HasRetryableFailures\<close> says whether the first is
  empty. Nothing classifies \<open>ErrRecipientNotFound\<close> as permanent, although the comment of
  \<open>RetryableRecipients\<close> calls it so.
\<close>

theorem IsRetryableError_classifies:
  "(IsRetryableError (Some e) \<longleftrightarrow> (\<forall>c \<in> set (causes e). \<not> permanentCause c))
   \<and> IsRetryableError (Some (Wrapf e)) = IsRetryableError (Some e)
   \<and> (sentinelWraps s = Some se \<longrightarrow>
       IsRetryableError (Some (Sentinel s)) = IsRetryableError (Some (StoreErr se)))
   \<and> \<not> IsRetryableError (Some (QuotaExceededError u n m)) \<and> \<not> IsRetryableError (Some (ValidationError f))
   \<and> IsRetryableError (Some (ExternalError k))
   \<and> mset (RetryableRecipients fs @ PermanentFailures fs) = mset (map fst fs)
   \<and> (HasRetryableFailures fs \<longleftrightarrow> RetryableRecipients fs \<noteq> [])
   \<and> IsRetryableError (Some (errf ErrRecipientNotFound))"
proof -
  have "mset (RetryableRecipients fs @ PermanentFailures fs) = mset (map fst fs)"
    using mset_partition_keys [of "\<lambda>(r, err). IsRetryableError (Some err)" fs]
    by (simp add: RetryableRecipients_def PermanentFailures_def case_prod_unfold)
  moreover have "HasRetryableFailures fs \<longleftrightarrow> RetryableRecipients fs \<noteq> []"
    by (auto simp: HasRetryableFailures_def RetryableRecipients_def filter_empty_conv)
  moreover have "sentinelWraps s = Some se \<longrightarrow>
      IsRetryableError (Some (Sentinel s)) = IsRetryableError (Some (StoreErr se))"
    using mailbox_store_agree by blast
  moreover have "\<not> IsRetryableError (Some (QuotaExceededError u n m))"
      "\<not> IsRetryableError (Some (ValidationError f))" "IsRetryableError (Some (ExternalError k))"
      "IsRetryableError (Some (errf ErrRecipientNotFound))"
      "IsRetryableError (Some (Wrapf e)) = IsRetryableError (Some e)"
    by (simp_all add: IsRetryableError_iff permanentCause_def permanentErrors_def)
  ultimately show ?thesis using IsRetryableError_iff by blast
qed

theorem IsRetryableError_classifies_witness:
  "IsRetryableError (Some (Sentinel MErrNotFound)) = IsRetryableError (Some (StoreErr ErrNotFound))
   \<and> (IsRetryableError (Some (Wrapf (StoreErr ErrNotFound)))
      \<longleftrightarrow> \<not> permanentCause (Inr ErrNotFound))"
  using IsRetryableError_classifies [of "Wrapf (StoreErr ErrNotFound)" MErrNotFound ErrNotFound]
  by (simp del: not_all)

end
