(* ===== verification/Mailbox_Config.thy ===== *)
theory Mailbox_Config
  imports Mailbox_Errors
begin

text \<open>
  The configuration of the mailbox service: the constants of \<open>option.go\<close> and the struct \<open>Config\<close>
  of \<open>config.go\<close> with its defaults, its validation and the message limits it carries. Durations
  are nanoseconds. \<open>QuotaUserLister\<close> is an interface: the field holds what its \<open>ListUsers\<close>
  returns, \<^const>\<open>None\<close> when it is nil.
\<close>

section \<open>Constants\<close>

definition second :: duration where "second = 1000000000"
definition minute :: duration where "minute = 60 * second"
definition hour :: duration where "hour = 60 * minute"

definition DefaultTrashRetention :: int where "DefaultTrashRetention = 30 * 24 * hour"
definition MinTrashRetention :: int where "MinTrashRetention = 24 * hour"
definition MinMessageRetention :: int where "MinMessageRetention = 24 * hour"
definition DefaultShutdownTimeout :: int where "DefaultShutdownTimeout = 30 * second"
definition MinShutdownTimeout :: int where "MinShutdownTimeout = 1 * second"
definition DefaultMaxSubjectLength :: int where "DefaultMaxSubjectLength = 998"
definition DefaultMaxBodySize :: int where "DefaultMaxBodySize = 10 * 1024 * 1024"
definition DefaultMaxAttachmentSize :: int where "DefaultMaxAttachmentSize = 25 * 1024 * 1024"
definition DefaultMaxAttachmentCount :: int where "DefaultMaxAttachmentCount = 20"
definition DefaultMaxRecipientCount :: int where "DefaultMaxRecipientCount = 100"
definition DefaultMaxMetadataSize :: int where "DefaultMaxMetadataSize = 64 * 1024"
definition DefaultMaxMetadataKeys :: int where "DefaultMaxMetadataKeys = 100"
definition DefaultMaxHeaderCount :: int where "DefaultMaxHeaderCount = 50"
definition DefaultMaxHeaderKeyLength :: int where "DefaultMaxHeaderKeyLength = 128"
definition DefaultMaxHeaderValueLength :: int where "DefaultMaxHeaderValueLength = 8 * 1024"
definition DefaultMaxHeadersTotalSize :: int where "DefaultMaxHeadersTotalSize = 64 * 1024"
definition DefaultMaxQueryLimit :: int where "DefaultMaxQueryLimit = 100"
definition DefaultQueryLimitConst :: int where "DefaultQueryLimitConst = 20"
definition DefaultMaxConcurrentSends :: int where "DefaultMaxConcurrentSends = 10"
definition DefaultStatsRefreshInterval :: int where "DefaultStatsRefreshInterval = 30 * second"
definition DefaultClaimInterval :: int where "DefaultClaimInterval = 30 * second"
definition DefaultClaimMinIdle :: int where "DefaultClaimMinIdle = 60 * second"
definition DefaultClaimBatchSize :: int where "DefaultClaimBatchSize = 100"
definition DefaultEventStreamMaxLen :: int where "DefaultEventStreamMaxLen = 10000"

lemmas time_units = second_def minute_def hour_def

lemmas default_values =
  DefaultTrashRetention_def MinTrashRetention_def MinMessageRetention_def
  DefaultShutdownTimeout_def MinShutdownTimeout_def DefaultMaxSubjectLength_def
  DefaultMaxBodySize_def DefaultMaxAttachmentSize_def DefaultMaxAttachmentCount_def
  DefaultMaxRecipientCount_def DefaultMaxMetadataSize_def DefaultMaxMetadataKeys_def
  DefaultMaxHeaderCount_def DefaultMaxHeaderKeyLength_def DefaultMaxHeaderValueLength_def
  DefaultMaxHeadersTotalSize_def DefaultMaxQueryLimit_def DefaultQueryLimitConst_def
  DefaultMaxConcurrentSends_def DefaultStatsRefreshInterval_def DefaultClaimInterval_def
  DefaultClaimMinIdle_def DefaultClaimBatchSize_def DefaultEventStreamMaxLen_def

section \<open>Message limits\<close>

record MessageLimits =
  lim_MaxSubjectLength :: int
  lim_MaxBodySize :: int
  lim_MaxAttachmentSize :: int
  lim_MaxAttachmentCount :: int
  lim_MaxRecipientCount :: int
  lim_MaxMetadataSize :: int
  lim_MaxMetadataKeys :: int
  lim_MaxHeaderCount :: int
  lim_MaxHeaderKeyLength :: int
  lim_MaxHeaderValueLength :: int
  lim_MaxHeadersTotalSize :: int

definition DefaultLimits :: MessageLimits where
  "DefaultLimits = \<lparr>lim_MaxSubjectLength = DefaultMaxSubjectLength,
    lim_MaxBodySize = DefaultMaxBodySize,
    lim_MaxAttachmentSize = DefaultMaxAttachmentSize,
    lim_MaxAttachmentCount = DefaultMaxAttachmentCount,
    lim_MaxRecipientCount = DefaultMaxRecipientCount,
    lim_MaxMetadataSize = DefaultMaxMetadataSize,
    lim_MaxMetadataKeys = DefaultMaxMetadataKeys,
    lim_MaxHeaderCount = DefaultMaxHeaderCount,
    lim_MaxHeaderKeyLength = DefaultMaxHeaderKeyLength,
    lim_MaxHeaderValueLength = DefaultMaxHeaderValueLength,
    lim_MaxHeadersTotalSize = DefaultMaxHeadersTotalSize\<rparr>"

section \<open>Config\<close>

record Config =
  TrashCleanupInterval :: duration
  ExpiredMessageCleanupInterval :: duration
  QuotaEnforcementInterval :: duration
  QuotaUserLister :: "(error, string list) res option"
  TrashRetention :: duration
  MessageRetention :: duration
  MaxSubjectLength :: int
  MaxBodySize :: int
  MaxAttachmentSize :: int
  MaxAttachmentCount :: int
  MaxRecipientCount :: int
  MaxMetadataSize :: int
  MaxMetadataKeys :: int
  MaxHeaderCount :: int
  MaxHeaderKeyLength :: int
  MaxHeaderValueLength :: int
  MaxHeadersTotalSize :: int
  MaxQueryLimit :: int
  DefaultQueryLimit :: int
  MaxConcurrentSends :: int
  ShutdownTimeout :: duration
  DefaultTTL :: duration
  MinTTL :: duration
  MaxTTL :: duration
  MinScheduleDelay :: duration
  MaxScheduleDelay :: duration
  StatsRefreshInterval :: duration
  ClaimInterval :: duration
  ClaimMinIdle :: duration
  ClaimBatchSize :: int
  EventStreamMaxLen :: int

text \<open>\<open>Config{}\<close>, and the errors \<open>Validate\<close> joins, each as the name of its field.\<close>

definition zeroConfig :: Config where
  "zeroConfig = \<lparr>TrashCleanupInterval = 0, ExpiredMessageCleanupInterval = 0, QuotaEnforcementInterval = 0, QuotaUserLister = None,
    TrashRetention = 0, MessageRetention = 0, MaxSubjectLength = 0, MaxBodySize = 0,
    MaxAttachmentSize = 0, MaxAttachmentCount = 0, MaxRecipientCount = 0, MaxMetadataSize = 0,
    MaxMetadataKeys = 0, MaxHeaderCount = 0, MaxHeaderKeyLength = 0, MaxHeaderValueLength = 0,
    MaxHeadersTotalSize = 0, MaxQueryLimit = 0, DefaultQueryLimit = 0, MaxConcurrentSends = 0,
    ShutdownTimeout = 0, DefaultTTL = 0, MinTTL = 0, MaxTTL = 0,
    MinScheduleDelay = 0, MaxScheduleDelay = 0, StatsRefreshInterval = 0, ClaimInterval = 0,
    ClaimMinIdle = 0, ClaimBatchSize = 0, EventStreamMaxLen = 0\<rparr>"

definition check :: "string \<Rightarrow> int \<Rightarrow> string list" where
  "check name val = (if val \<le> 0 then [name] else [])"

definition Config_Validate :: "Config \<Rightarrow> string list" where
  "Config_Validate c = concat
    [check ''MaxSubjectLength'' (MaxSubjectLength c),
     check ''MaxBodySize'' (MaxBodySize c),
     check ''MaxAttachmentSize'' (MaxAttachmentSize c),
     check ''MaxAttachmentCount'' (MaxAttachmentCount c),
     check ''MaxRecipientCount'' (MaxRecipientCount c),
     check ''MaxMetadataSize'' (MaxMetadataSize c),
     check ''MaxMetadataKeys'' (MaxMetadataKeys c),
     check ''MaxHeaderCount'' (MaxHeaderCount c),
     check ''MaxHeaderKeyLength'' (MaxHeaderKeyLength c),
     check ''MaxHeaderValueLength'' (MaxHeaderValueLength c),
     check ''MaxHeadersTotalSize'' (MaxHeadersTotalSize c),
     check ''MaxQueryLimit'' (MaxQueryLimit c),
     check ''DefaultQueryLimit'' (DefaultQueryLimit c),
     check ''MaxConcurrentSends'' (MaxConcurrentSends c),
     check ''ShutdownTimeout'' (ShutdownTimeout c),
     check ''TrashRetention'' (TrashRetention c),
     check ''MinTTL'' (MinTTL c),
     check ''StatsRefreshInterval'' (StatsRefreshInterval c),
     check ''ClaimInterval'' (ClaimInterval c),
     check ''ClaimMinIdle'' (ClaimMinIdle c),
     check ''ClaimBatchSize'' (ClaimBatchSize c),
     if EventStreamMaxLen c \<le> 0 then [''EventStreamMaxLen''] else []]"

text \<open>
  The two forms of the statements of \<open>applyDefaults\<close>: a value that is not positive is replaced,
  and a value that is zero or below a minimum is replaced.
\<close>

definition positiveOr :: "int \<Rightarrow> int \<Rightarrow> int" where
  "positiveOr d v = (if v \<le> 0 then d else v)"

definition minimumOr :: "int \<Rightarrow> int \<Rightarrow> int \<Rightarrow> int" where
  "minimumOr d m v = (if v = 0 then d else if v < m then d else v)"

definition applyDefaults :: "Config \<Rightarrow> Config" where
  "applyDefaults c =
    (let c = TrashRetention_update (minimumOr DefaultTrashRetention MinTrashRetention) c;
         c = MessageRetention_update (\<lambda>v. if v \<noteq> 0 \<and> v < MinMessageRetention then 0 else v) c;
         c = MaxSubjectLength_update (positiveOr DefaultMaxSubjectLength) c;
         c = MaxBodySize_update (positiveOr DefaultMaxBodySize) c;
         c = MaxAttachmentSize_update (positiveOr DefaultMaxAttachmentSize) c;
         c = MaxAttachmentCount_update (positiveOr DefaultMaxAttachmentCount) c;
         c = MaxRecipientCount_update (positiveOr DefaultMaxRecipientCount) c;
         c = MaxMetadataSize_update (positiveOr DefaultMaxMetadataSize) c;
         c = MaxMetadataKeys_update (positiveOr DefaultMaxMetadataKeys) c;
         c = MaxHeaderCount_update (positiveOr DefaultMaxHeaderCount) c;
         c = MaxHeaderKeyLength_update (positiveOr DefaultMaxHeaderKeyLength) c;
         c = MaxHeaderValueLength_update (positiveOr DefaultMaxHeaderValueLength) c;
         c = MaxHeadersTotalSize_update (positiveOr DefaultMaxHeadersTotalSize) c;
         c = MaxQueryLimit_update (positiveOr DefaultMaxQueryLimit) c;
         c = DefaultQueryLimit_update (positiveOr DefaultQueryLimitConst) c;
         c = c\<lparr>DefaultQueryLimit :=
           (if DefaultQueryLimit c > MaxQueryLimit c then MaxQueryLimit c else DefaultQueryLimit c)\<rparr>;
         c = MaxConcurrentSends_update (positiveOr DefaultMaxConcurrentSends) c;
         c = ShutdownTimeout_update (minimumOr DefaultShutdownTimeout MinShutdownTimeout) c;
         c = MinTTL_update (positiveOr minute) c;
         c = StatsRefreshInterval_update (positiveOr DefaultStatsRefreshInterval) c;
         c = ClaimInterval_update (positiveOr DefaultClaimInterval) c;
         c = ClaimMinIdle_update (positiveOr DefaultClaimMinIdle) c;
         c = ClaimBatchSize_update (positiveOr DefaultClaimBatchSize) c;
         c = EventStreamMaxLen_update (\<lambda>v. if v = 0 then DefaultEventStreamMaxLen else v) c
     in c)"

definition DefaultConfig :: Config where
  "DefaultConfig = applyDefaults zeroConfig"

definition getLimits :: "Config \<Rightarrow> MessageLimits" where
  "getLimits c = \<lparr>lim_MaxSubjectLength = MaxSubjectLength c,
    lim_MaxBodySize = MaxBodySize c,
    lim_MaxAttachmentSize = MaxAttachmentSize c,
    lim_MaxAttachmentCount = MaxAttachmentCount c,
    lim_MaxRecipientCount = MaxRecipientCount c,
    lim_MaxMetadataSize = MaxMetadataSize c,
    lim_MaxMetadataKeys = MaxMetadataKeys c,
    lim_MaxHeaderCount = MaxHeaderCount c,
    lim_MaxHeaderKeyLength = MaxHeaderKeyLength c,
    lim_MaxHeaderValueLength = MaxHeaderValueLength c,
    lim_MaxHeadersTotalSize = MaxHeadersTotalSize c\<rparr>"

section \<open>What the defaults guarantee\<close>

lemma applyDefaults_sel:
  "MaxSubjectLength (applyDefaults c) = positiveOr DefaultMaxSubjectLength (MaxSubjectLength c)"
  "MaxBodySize (applyDefaults c) = positiveOr DefaultMaxBodySize (MaxBodySize c)"
  "MaxAttachmentSize (applyDefaults c) = positiveOr DefaultMaxAttachmentSize (MaxAttachmentSize c)"
  "MaxAttachmentCount (applyDefaults c) = positiveOr DefaultMaxAttachmentCount (MaxAttachmentCount c)"
  "MaxRecipientCount (applyDefaults c) = positiveOr DefaultMaxRecipientCount (MaxRecipientCount c)"
  "MaxMetadataSize (applyDefaults c) = positiveOr DefaultMaxMetadataSize (MaxMetadataSize c)"
  "MaxMetadataKeys (applyDefaults c) = positiveOr DefaultMaxMetadataKeys (MaxMetadataKeys c)"
  "MaxHeaderCount (applyDefaults c) = positiveOr DefaultMaxHeaderCount (MaxHeaderCount c)"
  "MaxHeaderKeyLength (applyDefaults c) = positiveOr DefaultMaxHeaderKeyLength (MaxHeaderKeyLength c)"
  "MaxHeaderValueLength (applyDefaults c) = positiveOr DefaultMaxHeaderValueLength (MaxHeaderValueLength c)"
  "MaxHeadersTotalSize (applyDefaults c) = positiveOr DefaultMaxHeadersTotalSize (MaxHeadersTotalSize c)"
  "MaxQueryLimit (applyDefaults c) = positiveOr DefaultMaxQueryLimit (MaxQueryLimit c)"
  "MaxConcurrentSends (applyDefaults c) = positiveOr DefaultMaxConcurrentSends (MaxConcurrentSends c)"
  "MinTTL (applyDefaults c) = positiveOr minute (MinTTL c)"
  "StatsRefreshInterval (applyDefaults c) = positiveOr DefaultStatsRefreshInterval (StatsRefreshInterval c)"
  "ClaimInterval (applyDefaults c) = positiveOr DefaultClaimInterval (ClaimInterval c)"
  "ClaimMinIdle (applyDefaults c) = positiveOr DefaultClaimMinIdle (ClaimMinIdle c)"
  "ClaimBatchSize (applyDefaults c) = positiveOr DefaultClaimBatchSize (ClaimBatchSize c)"
  "TrashRetention (applyDefaults c) = minimumOr DefaultTrashRetention MinTrashRetention (TrashRetention c)"
  "MessageRetention (applyDefaults c) = (if MessageRetention c \<noteq> 0 \<and> MessageRetention c < MinMessageRetention then 0 else MessageRetention c)"
  "DefaultQueryLimit (applyDefaults c) = min (positiveOr DefaultQueryLimitConst (DefaultQueryLimit c)) (MaxQueryLimit (applyDefaults c))"
  "ShutdownTimeout (applyDefaults c) = minimumOr DefaultShutdownTimeout MinShutdownTimeout (ShutdownTimeout c)"
  "EventStreamMaxLen (applyDefaults c) = (if EventStreamMaxLen c = 0 then DefaultEventStreamMaxLen else EventStreamMaxLen c)"
  "TrashCleanupInterval (applyDefaults c) = TrashCleanupInterval c"
  "ExpiredMessageCleanupInterval (applyDefaults c) = ExpiredMessageCleanupInterval c"
  "QuotaEnforcementInterval (applyDefaults c) = QuotaEnforcementInterval c"
  "QuotaUserLister (applyDefaults c) = QuotaUserLister c"
  "DefaultTTL (applyDefaults c) = DefaultTTL c"
  "MaxTTL (applyDefaults c) = MaxTTL c"
  "MinScheduleDelay (applyDefaults c) = MinScheduleDelay c"
  "MaxScheduleDelay (applyDefaults c) = MaxScheduleDelay c"
  by (simp_all add: applyDefaults_def Let_def min_def)

lemma orDefault:
  "d > 0 \<Longrightarrow> positiveOr d v > 0" "d > 0 \<Longrightarrow> positiveOr d (positiveOr d v) = positiveOr d v"
  "v > 0 \<Longrightarrow> positiveOr d v = v"
  "d \<ge> m \<Longrightarrow> m > 0 \<Longrightarrow> minimumOr d m v \<ge> m" "d \<ge> m \<Longrightarrow> m > 0 \<Longrightarrow> minimumOr d m v > 0"
  "d \<ge> m \<Longrightarrow> m > 0 \<Longrightarrow> minimumOr d m (minimumOr d m v) = minimumOr d m v"
  "v \<ge> m \<Longrightarrow> m > 0 \<Longrightarrow> minimumOr d m v = v"
  "d > 0 \<Longrightarrow> \<not> positiveOr d v \<le> 0" "d \<ge> m \<Longrightarrow> m > 0 \<Longrightarrow> \<not> minimumOr d m v \<le> 0"
  by (auto simp: positiveOr_def minimumOr_def)

lemma default_positive:
  "DefaultMaxSubjectLength > 0"
  "DefaultMaxBodySize > 0"
  "DefaultMaxAttachmentSize > 0"
  "DefaultMaxAttachmentCount > 0"
  "DefaultMaxRecipientCount > 0"
  "DefaultMaxMetadataSize > 0"
  "DefaultMaxMetadataKeys > 0"
  "DefaultMaxHeaderCount > 0"
  "DefaultMaxHeaderKeyLength > 0"
  "DefaultMaxHeaderValueLength > 0"
  "DefaultMaxHeadersTotalSize > 0"
  "DefaultMaxQueryLimit > 0"
  "DefaultMaxConcurrentSends > 0"
  "minute > 0"
  "DefaultStatsRefreshInterval > 0"
  "DefaultClaimInterval > 0"
  "DefaultClaimMinIdle > 0"
  "DefaultClaimBatchSize > 0"
  "DefaultQueryLimitConst > 0"
  "MinTrashRetention > 0" "DefaultTrashRetention \<ge> MinTrashRetention"
  "MinShutdownTimeout > 0" "DefaultShutdownTimeout \<ge> MinShutdownTimeout"
  "MinMessageRetention > 0" "DefaultEventStreamMaxLen > 0" "DefaultQueryLimitConst \<le> DefaultMaxQueryLimit"
  by (simp_all add: default_values time_units)

lemma Validate_empty_iff:
  "Config_Validate c = [] \<longleftrightarrow>
    MaxSubjectLength c > 0 \<and> MaxBodySize c > 0 \<and> MaxAttachmentSize c > 0 \<and> MaxAttachmentCount c > 0
    \<and> MaxRecipientCount c > 0 \<and> MaxMetadataSize c > 0 \<and> MaxMetadataKeys c > 0 \<and> MaxHeaderCount c > 0
    \<and> MaxHeaderKeyLength c > 0 \<and> MaxHeaderValueLength c > 0 \<and> MaxHeadersTotalSize c > 0 \<and> MaxQueryLimit c > 0
    \<and> DefaultQueryLimit c > 0 \<and> MaxConcurrentSends c > 0 \<and> ShutdownTimeout c > 0 \<and> TrashRetention c > 0
    \<and> MinTTL c > 0 \<and> StatsRefreshInterval c > 0 \<and> ClaimInterval c > 0 \<and> ClaimMinIdle c > 0
    \<and> ClaimBatchSize c > 0 \<and> EventStreamMaxLen c > 0"
  by (simp add: Config_Validate_def check_def linorder_not_le)

text \<open>
  C40: Filling in the defaults gives a configuration that \<open>Validate\<close> accepts, except that a
  negative \<open>EventStreamMaxLen\<close>, which the documentation of the field allows as \<open>-1\<close>, is kept and
  refused. A retention or a shutdown timeout is never below its minimum, the default page size
  never above the maximum, and applying the defaults twice is applying them once. A field that
  the caller set to an allowed value is not touched.
\<close>

theorem applyDefaults_valid:
  "Config_Validate (applyDefaults c) = (if EventStreamMaxLen c < 0 then [''EventStreamMaxLen''] else [])
   \<and> applyDefaults (applyDefaults c) = applyDefaults c
   \<and> TrashRetention (applyDefaults c) \<ge> MinTrashRetention
   \<and> (MessageRetention (applyDefaults c) = 0 \<or> MessageRetention (applyDefaults c) \<ge> MinMessageRetention)
   \<and> ShutdownTimeout (applyDefaults c) \<ge> MinShutdownTimeout
   \<and> DefaultQueryLimit (applyDefaults c) \<le> MaxQueryLimit (applyDefaults c)
   \<and> (Config_Validate c = [] \<and> TrashRetention c \<ge> MinTrashRetention \<and> ShutdownTimeout c \<ge> MinShutdownTimeout
       \<and> (MessageRetention c = 0 \<or> MessageRetention c \<ge> MinMessageRetention)
       \<and> DefaultQueryLimit c \<le> MaxQueryLimit c \<longrightarrow> applyDefaults c = c)
   \<and> Config_Validate DefaultConfig = [] \<and> getLimits DefaultConfig = DefaultLimits"
proof -
  note d = default_positive orDefault
  have "Config_Validate (applyDefaults c) = (if EventStreamMaxLen c < 0 then [''EventStreamMaxLen''] else [])"
    by (simp add: Config_Validate_def check_def applyDefaults_sel d min_le_iff_disj)
      (simp add: DefaultEventStreamMaxLen_def)
  moreover have "applyDefaults (applyDefaults c) = applyDefaults c"
    by (rule Config.equality) (simp_all add: applyDefaults_sel d)
  moreover have "applyDefaults c = c" if "Config_Validate c = []" "TrashRetention c \<ge> MinTrashRetention"
      "ShutdownTimeout c \<ge> MinShutdownTimeout" "DefaultQueryLimit c \<le> MaxQueryLimit c"
      "MessageRetention c = 0 \<or> MessageRetention c \<ge> MinMessageRetention"
    using that by (intro Config.equality) (auto simp: applyDefaults_sel Validate_empty_iff d)
  moreover have "Config_Validate DefaultConfig = []" "getLimits DefaultConfig = DefaultLimits"
    by (simp_all add: Validate_empty_iff DefaultConfig_def applyDefaults_sel d)
      (simp_all add: zeroConfig_def getLimits_def DefaultLimits_def applyDefaults_sel positiveOr_def
        DefaultEventStreamMaxLen_def)
  ultimately show ?thesis
    by (simp add: applyDefaults_sel d)
qed

theorem applyDefaults_valid_witness:
  "applyDefaults (DefaultConfig\<lparr>MaxQueryLimit := 500, MessageRetention := 48 * hour\<rparr>)
     = DefaultConfig\<lparr>MaxQueryLimit := 500, MessageRetention := 48 * hour\<rparr>"
proof -
  let ?c = "DefaultConfig\<lparr>MaxQueryLimit := 500, MessageRetention := 48 * hour\<rparr>"
  have "Config_Validate ?c = []" by code_simp
  moreover have "TrashRetention ?c \<ge> MinTrashRetention" "ShutdownTimeout ?c \<ge> MinShutdownTimeout"
      "MessageRetention ?c \<ge> MinMessageRetention" "DefaultQueryLimit ?c \<le> MaxQueryLimit ?c"
    by code_simp+
  ultimately show ?thesis using applyDefaults_valid [of ?c] by blast
qed

end
