(* ===== verification/Go_Unicode.thy ===== *)
theory Go_Unicode
  imports Go_Prelude
begin

text \<open>
  What the sources use of Go's Unicode support: the decoding of a string into code points, as a
  \<open>range\<close> loop and \<open>utf8.ValidString\<close> do it, \<open>unicode.IsControl\<close>, \<open>strings.TrimSpace\<close> and the
  prefix, suffix and split functions of \<open>strings\<close>. A byte sequence that is not valid UTF-8 decodes
  to the replacement character and advances by one byte.
\<close>

section \<open>UTF-8\<close>

type_synonym rune = nat

definition RuneError :: rune where "RuneError = 65533"

definition cont :: "nat \<Rightarrow> bool" where
  "cont b \<longleftrightarrow> 128 \<le> b \<and> b < 192"

text \<open>The code point at the head of a string and its width, if the head is well formed.\<close>

definition decodeHead :: "nat list \<Rightarrow> (rune \<times> nat) option" where
  "decodeHead bs =
     (case bs of
        [] \<Rightarrow> None
      | b0 # r0 \<Rightarrow>
          if b0 < 128 then Some (b0, 1)
          else case r0 of
            [] \<Rightarrow> None
          | b1 # r1 \<Rightarrow>
              if 194 \<le> b0 \<and> b0 < 224 \<and> cont b1
              then Some ((b0 - 192) * 64 + (b1 - 128), 2)
              else case r1 of
                [] \<Rightarrow> None
              | b2 # r2 \<Rightarrow>
                  if 224 \<le> b0 \<and> b0 < 240 \<and> cont b1 \<and> cont b2 \<and>
                     (b0 = 224 \<longrightarrow> 160 \<le> b1) \<and> (b0 = 237 \<longrightarrow> b1 < 160)
                  then Some ((b0 - 224) * 4096 + (b1 - 128) * 64 + (b2 - 128), 3)
                  else case r2 of
                    [] \<Rightarrow> None
                  | b3 # _ \<Rightarrow>
                      if 240 \<le> b0 \<and> b0 < 245 \<and> cont b1 \<and> cont b2 \<and> cont b3 \<and>
                         (b0 = 240 \<longrightarrow> 144 \<le> b1) \<and> (b0 = 244 \<longrightarrow> b1 < 144)
                      then Some ((b0 - 240) * 262144 + (b1 - 128) * 4096 + (b2 - 128) * 64 + (b3 - 128), 4)
                      else None)"

definition bytes :: "string \<Rightarrow> nat list" where
  "bytes s = map of_char s"

lemma decodeHead_width: "decodeHead bs = Some (r, w) \<Longrightarrow> 0 < w \<and> w \<le> 4 \<and> w \<le> length bs"
  by (auto simp: decodeHead_def split: list.splits if_splits)

text \<open>The runes a \<open>range\<close> loop visits, with a mark on the ones that are well formed.\<close>

function decodeRunes :: "nat list \<Rightarrow> (rune \<times> bool) list" where
  "decodeRunes [] = []"
| "decodeRunes (b # bs) =
     (case decodeHead (b # bs) of
        None \<Rightarrow> (RuneError, False) # decodeRunes bs
      | Some (r, w) \<Rightarrow> (r, True) # decodeRunes (drop w (b # bs)))"
  by pat_completeness auto

termination
  by (relation "measure length") (auto dest: decodeHead_width)

definition runes :: "string \<Rightarrow> rune list" where
  "runes s = map fst (decodeRunes (bytes s))"

definition utf8_ValidString :: "string \<Rightarrow> bool" where
  "utf8_ValidString s = list_all snd (decodeRunes (bytes s))"

text \<open>On ASCII strings, decoding is the identity.\<close>

lemma decodeRunes_ascii: "list_all (\<lambda>b. b < 128) bs \<Longrightarrow> decodeRunes bs = map (\<lambda>b. (b, True)) bs"
  by (induction bs) (simp_all add: decodeHead_def)

lemma runes_ascii: "isASCII s \<Longrightarrow> runes s = bytes s \<and> utf8_ValidString s"
  by (auto simp: runes_def utf8_ValidString_def bytes_def isASCII_def decodeRunes_ascii
      list_all_iff comp_def)

text \<open>A byte below 128 is decoded by itself wherever it stands, so it is among the runes.\<close>

lemma decodeHead_low: "decodeHead (b # bs) = Some (r, w) \<Longrightarrow> k < w \<Longrightarrow> (b # bs) ! k < 128 \<Longrightarrow> k = 0 \<and> r = b"
  by (auto simp: decodeHead_def cont_def nth_Cons split: list.splits if_splits nat.splits)

lemma decodeRunes_low: "b \<in> set bs \<Longrightarrow> b < 128 \<Longrightarrow> b \<in> fst ` set (decodeRunes bs)"
proof (induction bs rule: decodeRunes.induct)
  case (2 b0 bs)
  show ?case
  proof (cases "decodeHead (b0 # bs)")
    case None
    have "b \<noteq> b0" using None 2(4) by (auto simp: decodeHead_def)
    then have "b \<in> set bs" using 2(3) by simp
    then show ?thesis using 2(1) [OF None] 2(4) None by auto
  next
    case (Some rw)
    obtain r w where rw: "rw = (r, w)" by force
    obtain k where k: "k < length (b0 # bs)" "(b0 # bs) ! k = b"
      using 2(3) by (metis in_set_conv_nth)
    show ?thesis
    proof (cases "k < w")
      case True
      with decodeHead_low [of b0 bs r w k] Some rw k 2(4) have "r = b" by auto
      then show ?thesis using Some rw by auto
    next
      case False
      then have "b \<in> set (drop w (b0 # bs))"
        using k by (auto simp: in_set_drop_conv_nth intro!: exI [of _ k])
      then show ?thesis using 2(2) [OF Some] rw 2(4) Some by auto
    qed
  qed
qed simp

lemma low_byte_rune: "c \<in> set s \<Longrightarrow> of_char c < (128 :: nat) \<Longrightarrow> of_char c \<in> set (runes s)"
  using decodeRunes_low [of "of_char c" "bytes s"] by (force simp: runes_def bytes_def)

section \<open>Classes\<close>

lemma decodeHead_high: "decodeHead (b # bs) = Some (r, w) \<Longrightarrow> b \<ge> 128 \<Longrightarrow> r \<ge> 128"
  unfolding decodeHead_def cont_def
  by (simp split: list.splits if_splits; linarith)

lemma decodeHead_first: "decodeHead (b # bs) = Some (r, w) \<Longrightarrow> r < 128 \<Longrightarrow> r = b"
proof (cases "b < 128")
  case False
  moreover assume "decodeHead (b # bs) = Some (r, w)" "r < 128"
  ultimately show ?thesis using decodeHead_high [of b bs r w] by linarith
qed (simp add: decodeHead_def)

lemma decodeRunes_in: "r \<in> fst ` set (decodeRunes bs) \<Longrightarrow> r < 128 \<Longrightarrow> r \<in> set bs"
proof (induction bs rule: decodeRunes.induct)
  case (2 b bs)
  show ?case
  proof (cases "decodeHead (b # bs)")
    case None
    with 2(3,4) have "r \<in> fst ` set (decodeRunes bs)" by (auto simp: RuneError_def)
    with 2(1) [OF None] 2(4) show ?thesis by simp
  next
    case (Some p)
    obtain r' w where p: "p = (r', w)" by fastforce
    from 2(3) Some p have "r = r' \<or> r \<in> fst ` set (decodeRunes (drop w (b # bs)))" by auto
    then show ?thesis
    proof
      assume "r = r'"
      with decodeHead_first [of b bs r' w] Some p 2(4) show ?thesis by simp
    next
      assume "r \<in> fst ` set (decodeRunes (drop w (b # bs)))"
      with 2(2) [OF Some p [symmetric]] 2(4) have "r \<in> set (drop w (b # bs))" by blast
      then show ?thesis by (meson in_set_dropD)
    qed
  qed
qed simp

lemma runes_low: "r < 128 \<Longrightarrow> r \<in> set (runes s) \<longleftrightarrow> char_of r \<in> set s"
proof
  assume "r < 128" "r \<in> set (runes s)"
  then have "r \<in> set (bytes s)"
    using decodeRunes_in [of r "bytes s"] by (auto simp: runes_def)
  then show "char_of r \<in> set s" by (auto simp: bytes_def)
next
  assume r: "r < 128" "char_of r \<in> set s"
  then have "of_char (char_of r :: char) = r" by (simp add: of_char_of)
  with r low_byte_rune [of "char_of r" s] show "r \<in> set (runes s)" by simp
qed

definition unicode_IsControl :: "rune \<Rightarrow> bool" where
  "unicode_IsControl r \<longleftrightarrow> r < 32 \<or> 127 \<le> r \<and> r < 160"

text \<open>The encodings of the code points for which \<open>unicode.IsSpace\<close> holds.\<close>

definition spaceCodes :: "nat list list" where
  "spaceCodes =
     [[9], [10], [11], [12], [13], [32], [194, 133], [194, 160], [225, 154, 128]] @
     map (\<lambda>b. [226, 128, b]) ([128 ..< 139] @ [168, 169, 175]) @ [[226, 129, 159], [227, 128, 128]]"

definition spaceStrings :: "string list" where
  "spaceStrings = map (map char_of) spaceCodes"

lemma spaceStrings_nonempty: "w \<in> set spaceStrings \<Longrightarrow> w \<noteq> ''''"
  by (auto simp: spaceStrings_def spaceCodes_def)

section \<open>strings\<close>

definition hasPrefix :: "string \<Rightarrow> string \<Rightarrow> bool" where
  "hasPrefix s p \<longleftrightarrow> take (length p) s = p"

definition hasSuffix :: "string \<Rightarrow> string \<Rightarrow> bool" where
  "hasSuffix s p \<longleftrightarrow> length p \<le> length s \<and> drop (length s - length p) s = p"

lemma hasPrefix_iff: "hasPrefix s p \<longleftrightarrow> (\<exists>t. s = p @ t)"
  by (auto simp: hasPrefix_def) (metis append_take_drop_id)

lemma hasSuffix_iff: "hasSuffix s p \<longleftrightarrow> (\<exists>t. s = t @ p)"
  by (auto simp: hasSuffix_def) (metis append_take_drop_id)

text \<open>\<open>strings.TrimSpace\<close>: the space at the left, then the space at the right.\<close>

function trimLeft :: "string \<Rightarrow> string" where
  "trimLeft s =
     (case find (hasPrefix s) spaceStrings of
        None \<Rightarrow> s
      | Some w \<Rightarrow> trimLeft (drop (length w) s))"
  by pat_completeness auto

termination
proof (relation "measure length")
  fix s w
  assume "find (hasPrefix s) spaceStrings = Some w"
  then have "w \<in> set spaceStrings" "hasPrefix s w"
    by (auto simp: find_Some_iff)
  then have "w \<noteq> ''''" "\<exists>t. s = w @ t" by (auto simp: spaceStrings_nonempty hasPrefix_iff)
  then show "(drop (length w) s, s) \<in> measure length" by auto
qed simp

function trimRight :: "string \<Rightarrow> string" where
  "trimRight s =
     (case find (hasSuffix s) spaceStrings of
        None \<Rightarrow> s
      | Some w \<Rightarrow> trimRight (take (length s - length w) s))"
  by pat_completeness auto

termination
proof (relation "measure length")
  fix s w
  assume "find (hasSuffix s) spaceStrings = Some w"
  then have "w \<in> set spaceStrings" "hasSuffix s w"
    by (auto simp: find_Some_iff)
  then have "w \<noteq> ''''" "\<exists>t. s = t @ w" by (auto simp: spaceStrings_nonempty hasSuffix_iff)
  then show "(take (length s - length w) s, s) \<in> measure length" by auto
qed simp

declare trimLeft.simps [simp del] trimRight.simps [simp del]

definition strings_TrimSpace :: "string \<Rightarrow> string" where
  "strings_TrimSpace s = trimRight (trimLeft s)"

text \<open>What is trimmed is a sequence of space, and what is left does not begin or end with space.\<close>

definition isSpaces :: "string \<Rightarrow> bool" where
  "isSpaces s \<longleftrightarrow> (\<exists>ws. set ws \<subseteq> set spaceStrings \<and> s = concat ws)"

lemma isSpaces_append: "isSpaces a \<Longrightarrow> isSpaces b \<Longrightarrow> isSpaces (a @ b)"
  unfolding isSpaces_def by (metis concat_append le_sup_iff set_append)

lemma isSpaces_single: "w \<in> set spaceStrings \<Longrightarrow> isSpaces w"
  unfolding isSpaces_def by (intro exI [of _ "[w]"]) simp

lemma space_isSpaces: "isSpaces '' ''"
  by (rule isSpaces_single) code_simp

lemma isSpaces_Nil: "isSpaces ''''"
  unfolding isSpaces_def by (intro exI [of _ "[]"]) simp

lemma trimLeft_decomp:
  "\<exists>a. isSpaces a \<and> s = a @ trimLeft s \<and> (\<forall>w \<in> set spaceStrings. \<not> hasPrefix (trimLeft s) w)"
proof (induction s rule: trimLeft.induct)
  case (1 s)
  show ?case
  proof (cases "find (hasPrefix s) spaceStrings")
    case None
    then have "trimLeft s = s" by (simp add: trimLeft.simps [of s])
    with None show ?thesis
      by (intro exI [of _ "''''"]) (simp add: find_None_iff isSpaces_Nil)
  next
    case (Some w)
    then have w: "w \<in> set spaceStrings" "hasPrefix s w" by (auto simp: find_Some_iff)
    obtain a where a: "isSpaces a" "drop (length w) s = a @ trimLeft (drop (length w) s)"
      "\<forall>v \<in> set spaceStrings. \<not> hasPrefix (trimLeft (drop (length w) s)) v"
      using 1 [OF Some] by blast
    have eq: "trimLeft s = trimLeft (drop (length w) s)" using Some by (simp add: trimLeft.simps [of s])
    have "s = w @ drop (length w) s" using w(2) by (metis append_take_drop_id hasPrefix_def)
    also have "\<dots> = (w @ a) @ trimLeft s" using a(2) eq by simp
    finally show ?thesis using a(3) eq isSpaces_append [OF isSpaces_single [OF w(1)] a(1)] by auto
  qed
qed

lemma trimRight_decomp:
  "\<exists>b. isSpaces b \<and> s = trimRight s @ b \<and> (\<forall>w \<in> set spaceStrings. \<not> hasSuffix (trimRight s) w)"
proof (induction s rule: trimRight.induct)
  case (1 s)
  show ?case
  proof (cases "find (hasSuffix s) spaceStrings")
    case None
    then have "trimRight s = s" by (simp add: trimRight.simps [of s])
    with None show ?thesis
      by (intro exI [of _ "''''"]) (simp add: find_None_iff isSpaces_Nil)
  next
    case (Some w)
    let ?t = "take (length s - length w) s"
    have w: "w \<in> set spaceStrings" "hasSuffix s w" using Some by (auto simp: find_Some_iff)
    obtain b where b: "isSpaces b" "?t = trimRight ?t @ b"
      "\<forall>v \<in> set spaceStrings. \<not> hasSuffix (trimRight ?t) v"
      using 1 [OF Some] by blast
    have eq: "trimRight s = trimRight ?t" using Some by (simp add: trimRight.simps [of s])
    have "s = ?t @ w" using w(2) by (metis append_take_drop_id hasSuffix_def)
    also have "\<dots> = trimRight s @ (b @ w)" using b(2) eq by (metis append.assoc)
    finally show ?thesis using b(3) eq isSpaces_append [OF b(1) isSpaces_single [OF w(1)]] by auto
  qed
qed

text \<open>A string that begins and ends with an ASCII byte that is not white space is not trimmed.\<close>

definition nonSpaceByte :: "char \<Rightarrow> bool" where
  "nonSpaceByte c \<longleftrightarrow> of_char c < (128 :: nat) \<and> of_char c \<notin> {9, 10, 11, 12, 13, 32 :: nat}"

lemma spaceStrings_ends: "w \<in> set spaceStrings \<Longrightarrow> \<not> nonSpaceByte (hd w) \<and> \<not> nonSpaceByte (last w)"
  by (auto simp: spaceStrings_def spaceCodes_def nonSpaceByte_def upt_rec_numeral of_char_of)

lemma TrimSpace_ident: "s \<noteq> '''' \<Longrightarrow> nonSpaceByte (hd s) \<Longrightarrow> nonSpaceByte (last s) \<Longrightarrow> strings_TrimSpace s = s"
proof -
  assume s: "s \<noteq> ''''" "nonSpaceByte (hd s)" "nonSpaceByte (last s)"
  have "\<not> hasPrefix s w \<and> \<not> hasSuffix s w" if w: "w \<in> set spaceStrings" for w
    using spaceStrings_ends [OF w] spaceStrings_nonempty [OF w] s by (auto simp: hasPrefix_iff hasSuffix_iff)
  then have "find (hasPrefix s) spaceStrings = None" "find (hasSuffix s) spaceStrings = None"
    by (auto simp: find_None_iff)
  then show ?thesis by (simp add: strings_TrimSpace_def trimLeft.simps [of s] trimRight.simps [of s])
qed

text \<open>The part before the first occurrence of a byte: \<open>strings.SplitN(s, ";", 2)[0]\<close>.\<close>

definition splitFirst :: "char \<Rightarrow> string \<Rightarrow> string" where
  "splitFirst c s = takeWhile (\<lambda>x. x \<noteq> c) s"

text \<open>A string of white space is exactly what trimming leaves nothing of: no encoded space is a
  prefix of another.\<close>

lemma spaceStrings_prefix_free:
  "v \<in> set spaceStrings \<Longrightarrow> w \<in> set spaceStrings \<Longrightarrow> v @ x = w @ y \<Longrightarrow> v = w"
proof -
  have free: "list_all (\<lambda>v. list_all (\<lambda>w. hasPrefix v w \<longrightarrow> v = w) spaceStrings) spaceStrings"
    by code_simp
  assume vw: "v \<in> set spaceStrings" "w \<in> set spaceStrings" and eq: "v @ x = w @ y"
  from eq have "hasPrefix v w \<or> hasPrefix w v"
    by (auto simp: hasPrefix_iff append_eq_append_conv2)
  with free vw show ?thesis by (auto simp: list_all_iff)
qed

lemma trimLeft_spaces: "isSpaces s \<Longrightarrow> trimLeft s = ''''"
proof -
  have "set ws \<subseteq> set spaceStrings \<Longrightarrow> trimLeft (concat ws) = ''''" for ws
  proof (induction ws)
    case Nil
    have "find (hasPrefix '''') spaceStrings = None"
      using spaceStrings_nonempty by (auto simp: find_None_iff hasPrefix_iff)
    then show ?case by (simp add: trimLeft.simps)
  next
    case (Cons w ws)
    then have w: "w \<in> set spaceStrings" "hasPrefix (w @ concat ws) w"
      by (auto simp: hasPrefix_iff)
    then obtain v where v: "find (hasPrefix (w @ concat ws)) spaceStrings = Some v"
      by (metis find_None_iff option.exhaust)
    then have "v \<in> set spaceStrings" "hasPrefix (w @ concat ws) v"
      by (auto simp: find_Some_iff)
    with w have "v = w" by (metis hasPrefix_iff spaceStrings_prefix_free)
    with v Cons show ?case by (subst trimLeft.simps) simp
  qed
  moreover assume "isSpaces s"
  ultimately show ?thesis unfolding isSpaces_def by blast
qed

lemma TrimSpace_empty_iff: "strings_TrimSpace s = '''' \<longleftrightarrow> isSpaces s"
proof
  assume e: "strings_TrimSpace s = ''''"
  obtain b where "isSpaces b" "trimLeft s = strings_TrimSpace s @ b"
    using trimRight_decomp [of "trimLeft s"] by (auto simp: strings_TrimSpace_def)
  moreover obtain a where "isSpaces a" "s = a @ trimLeft s"
    using trimLeft_decomp [of s] by blast
  ultimately show "isSpaces s" using e by (metis isSpaces_append append_Nil)
next
  assume "isSpaces s"
  then have "strings_TrimSpace s = trimRight ''''"
    by (simp add: strings_TrimSpace_def trimLeft_spaces)
  then show "strings_TrimSpace s = ''''"
    using trimRight_decomp [of "''''"] by auto
qed

end
