(* ===== verification/Mailbox_Validation.thy ===== *)
theory Mailbox_Validation
  imports Mailbox_Config Go_Unicode Memory_Message
begin

text \<open>
  The validation of message content, \<open>validation.go\<close>. A validator returns the error,
  \<^const>\<open>None\<close> for nil. \<open>marshal\<close> stands for \<open>json.Marshal\<close> on metadata (\<^const>\<open>None\<close> when it
  fails) and \<open>mapLower\<close> for the Unicode case tables that \<open>strings.ToLower\<close> uses outside ASCII.
  The loops over a Go map visit the entries in the order of the list that models the map.
\<close>

type_synonym marshaler = "(string \<times> any) list \<Rightarrow> string option"

definition MaxMetadataKeyLength :: int where "MaxMetadataKeyLength = 256"
definition MaxTagIDLength :: int where "MaxTagIDLength = 256"
definition MinSubjectLength :: int where "MinSubjectLength = 1"

text \<open>\<open>len\<close> as a Go \<open>int\<close>.\<close>

abbreviation len :: "'a list \<Rightarrow> int" where
  "len xs \<equiv> int (length xs)"

text \<open>The first error of two checks.\<close>

definition firstErr :: "error option \<Rightarrow> error option \<Rightarrow> error option" where
  "firstErr a b = (case a of Some e \<Rightarrow> Some e | None \<Rightarrow> b)"

lemma firstErr_None [simp]: "firstErr a b = None \<longleftrightarrow> a = None \<and> b = None"
  by (simp add: firstErr_def split: option.splits)

lemma firstErr_Some: "firstErr a b = Some e \<Longrightarrow> a = Some e \<or> b = Some e"
  by (simp add: firstErr_def split: option.splits)

section \<open>Headers and metadata\<close>

fun headersLoop :: "MessageLimits \<Rightarrow> (string \<times> string) list \<Rightarrow> int \<Rightarrow> error + int" where
  "headersLoop limits [] totalSize = Inr totalSize"
| "headersLoop limits ((key, value) # rest) totalSize =
    (if key = '''' then Inl (errf ErrInvalidHeaders)
     else if len key > lim_MaxHeaderKeyLength limits then Inl (errf ErrHeaderKeyTooLong)
     else if len value > lim_MaxHeaderValueLength limits then Inl (errf ErrHeaderValueTooLong)
     else headersLoop limits rest (totalSize + (len key + len value)))"

definition ValidateHeaders :: "(string \<times> string) list \<Rightarrow> MessageLimits \<Rightarrow> error option" where
  "ValidateHeaders hdrs limits =
    (if len hdrs = 0 then None
     else if len hdrs > lim_MaxHeaderCount limits then Some (errf ErrTooManyHeaders)
     else (case headersLoop limits hdrs 0 of
         Inl err \<Rightarrow> Some err
       | Inr totalSize \<Rightarrow>
           if totalSize > lim_MaxHeadersTotalSize limits then Some (errf ErrHeadersTooLarge)
           else None))"

fun metadataKeysLoop :: "string list \<Rightarrow> error option" where
  "metadataKeysLoop [] = None"
| "metadataKeysLoop (key # rest) =
    (if len key > MaxMetadataKeyLength then Some (errf ErrMetadataKeyTooLong)
     else if key = '''' then Some (errf ErrInvalidMetadata)
     else metadataKeysLoop rest)"

definition ValidateMetadataWithLimits ::
    "marshaler \<Rightarrow> (string \<times> any) list option \<Rightarrow> MessageLimits \<Rightarrow> error option" where
  "ValidateMetadataWithLimits marshal meta limits =
    (case meta of
       None \<Rightarrow> None
     | Some md \<Rightarrow>
         if len md > lim_MaxMetadataKeys limits then Some (errf ErrInvalidMetadata)
         else firstErr (metadataKeysLoop (map fst md))
           (case marshal md of
              None \<Rightarrow> Some (errf ErrInvalidMetadata)
            | Some data \<Rightarrow>
                if len data > lim_MaxMetadataSize limits then Some (errf ErrMetadataTooLarge)
                else None))"

definition ValidateMetadata :: "marshaler \<Rightarrow> (string \<times> any) list option \<Rightarrow> error option" where
  "ValidateMetadata marshal meta = ValidateMetadataWithLimits marshal meta DefaultLimits"

definition ValidateMetadataKey :: "string \<Rightarrow> error option" where
  "ValidateMetadataKey key =
    (if key = '''' then Some (errf ErrInvalidMetadata)
     else if len key > MaxMetadataKeyLength then Some (errf ErrMetadataKeyTooLong)
     else None)"

section \<open>Subject, body and recipients\<close>

definition ValidateSubjectWithLimits :: "string \<Rightarrow> MessageLimits \<Rightarrow> error option" where
  "ValidateSubjectWithLimits subj limits =
    (let trimmed = strings_TrimSpace subj in
     if len trimmed < MinSubjectLength then Some (Sentinel MErrEmptySubject)
     else if len subj > lim_MaxSubjectLength limits then Some (errf ErrSubjectTooLong)
     else if \<not> utf8_ValidString subj then Some (errf ErrInvalidContent)
     else if \<exists>r \<in> set (runes subj). unicode_IsControl r \<and> r \<noteq> 9 \<and> r \<noteq> 10 \<and> r \<noteq> 13
       then Some (errf ErrInvalidContent)
     else None)"

definition ValidateSubject :: "string \<Rightarrow> error option" where
  "ValidateSubject subj = ValidateSubjectWithLimits subj DefaultLimits"

definition ValidateBodyWithLimits :: "string \<Rightarrow> MessageLimits \<Rightarrow> error option" where
  "ValidateBodyWithLimits bdy limits =
    (if len bdy > lim_MaxBodySize limits then Some (errf ErrBodyTooLarge)
     else if \<not> utf8_ValidString bdy then Some (errf ErrInvalidContent)
     else if 0 \<in> set (runes bdy) then Some (errf ErrInvalidContent)
     else None)"

definition ValidateBody :: "string \<Rightarrow> error option" where
  "ValidateBody bdy = ValidateBodyWithLimits bdy DefaultLimits"

definition ValidateMessageContentWithLimits :: "string \<Rightarrow> string \<Rightarrow> MessageLimits \<Rightarrow> error option" where
  "ValidateMessageContentWithLimits subj bdy limits =
    firstErr (ValidateSubjectWithLimits subj limits) (ValidateBodyWithLimits bdy limits)"

definition ValidateMessageContent :: "string \<Rightarrow> string \<Rightarrow> error option" where
  "ValidateMessageContent subj bdy = ValidateMessageContentWithLimits subj bdy DefaultLimits"

definition ValidateRecipients :: "string list \<Rightarrow> MessageLimits \<Rightarrow> error option" where
  "ValidateRecipients recipients limits =
    (if len recipients = 0 then Some (Sentinel MErrEmptyRecipients)
     else if len recipients > lim_MaxRecipientCount limits then Some (errf ErrTooManyRecipients)
     else if \<exists>i \<in> set recipients. i = '''' then Some (errf ErrInvalidRecipient)
     else None)"

section \<open>Attachments\<close>

definition normalizeMIMEType :: "(string \<Rightarrow> string) \<Rightarrow> string \<Rightarrow> string" where
  "normalizeMIMEType mapLower contentType =
    (let ct = strings_TrimSpace contentType in
     if ct = '''' then ''''
     else strings_ToLower mapLower (strings_TrimSpace (splitFirst (CHR '';'') ct)))"

definition matchMIMEType :: "(string \<Rightarrow> string) \<Rightarrow> string \<Rightarrow> string \<Rightarrow> bool" where
  "matchMIMEType mapLower contentType pattern =
    (let pattern = strings_ToLower mapLower (strings_TrimSpace pattern);
         contentType = strings_ToLower mapLower (strings_TrimSpace contentType)
     in if pattern = contentType then True
        else if hasSuffix pattern ''/*''
        then (let prefix = take (length pattern - 2) pattern in hasPrefix contentType (prefix @ ''/''))
        else False)"

text \<open>The errors of \<open>ValidateMIMEType\<close> are plain texts; the number tells them apart.\<close>

definition ValidateMIMEType ::
    "(string \<Rightarrow> string) \<Rightarrow> string \<Rightarrow> string list \<Rightarrow> string list \<Rightarrow> error option" where
  "ValidateMIMEType mapLower contentType allowedTypes blockedTypes =
    (let normalized = normalizeMIMEType mapLower contentType in
     if normalized = '''' then Some (ExternalError 0)
     else if \<exists>blocked \<in> set blockedTypes. matchMIMEType mapLower normalized blocked
       then Some (ExternalError 1)
     else if len allowedTypes > 0 \<and> \<not> (\<exists>a \<in> set allowedTypes. matchMIMEType mapLower normalized a)
       then Some (ExternalError 2)
     else None)"

fun attachmentsLoop ::
    "(string \<Rightarrow> string) \<Rightarrow> MessageLimits \<Rightarrow> string list \<Rightarrow> string list \<Rightarrow> Attachment list \<Rightarrow> error option" where
  "attachmentsLoop mapLower limits allowedTypes blockedTypes [] = None"
| "attachmentsLoop mapLower limits allowedTypes blockedTypes (a # rest) =
    (if att_Size a > lim_MaxAttachmentSize limits then Some (errf ErrAttachmentTooLarge)
     else if att_Filename a = '''' then Some (errf ErrInvalidAttachment)
     else if ValidateMIMEType mapLower (att_ContentType a) allowedTypes blockedTypes \<noteq> None
       then Some (errf ErrInvalidMIMEType)
     else attachmentsLoop mapLower limits allowedTypes blockedTypes rest)"

definition ValidateAttachmentsWithMIME ::
    "(string \<Rightarrow> string) \<Rightarrow> Attachment list \<Rightarrow> MessageLimits \<Rightarrow> string list \<Rightarrow> string list \<Rightarrow> error option" where
  "ValidateAttachmentsWithMIME mapLower atts limits allowedTypes blockedTypes =
    (if len atts > lim_MaxAttachmentCount limits then Some (errf ErrTooManyAttachments)
     else attachmentsLoop mapLower limits allowedTypes blockedTypes atts)"

definition ValidateAttachments ::
    "(string \<Rightarrow> string) \<Rightarrow> Attachment list \<Rightarrow> MessageLimits \<Rightarrow> error option" where
  "ValidateAttachments mapLower atts limits =
    ValidateAttachmentsWithMIME mapLower atts limits [] []"

definition DefaultBlockedMIMETypes :: "string list" where
  "DefaultBlockedMIMETypes =
    [''application/x-msdownload'', ''application/x-executable'', ''application/x-msdos-program'',
     ''application/x-sh'', ''application/x-shellscript'', ''application/x-bat'',
     ''application/x-msi'', ''application/vnd.microsoft.portable-executable'',
     ''application/x-dosexec'']"

definition SafeAttachmentMIMETypes :: "string list" where
  "SafeAttachmentMIMETypes =
    [''application/pdf'', ''application/msword'',
     ''application/vnd.openxmlformats-officedocument.wordprocessingml.document'',
     ''application/vnd.ms-excel'',
     ''application/vnd.openxmlformats-officedocument.spreadsheetml.sheet'',
     ''application/vnd.ms-powerpoint'',
     ''application/vnd.openxmlformats-officedocument.presentationml.presentation'',
     ''text/plain'', ''text/csv'', ''text/html'', ''image/*'', ''audio/*'', ''video/*'',
     ''application/zip'', ''application/gzip'', ''application/x-tar'']"

definition isValidTagID :: "string \<Rightarrow> bool" where
  "isValidTagID tagID \<longleftrightarrow>
    (\<forall>c \<in> set (runes tagID). \<not> (c < 32 \<or> c = 127 \<or> c = 47 \<or> c = 92 \<or> c = 58))"

section \<open>Whole messages\<close>

text \<open>A \<open>store.MessageReader\<close> is read through the message record of the store.\<close>

definition validateMessageReader ::
    "(string \<Rightarrow> string) \<Rightarrow> marshaler \<Rightarrow> message \<Rightarrow> MessageLimits \<Rightarrow> error option" where
  "validateMessageReader mapLower marshal r limits =
    firstErr (ValidateRecipients (recipientIDs r) limits)
    (firstErr (ValidateMessageContentWithLimits (subject r) (body r) limits)
    (firstErr (ValidateHeaders (headers r) limits)
    (firstErr (ValidateMetadataWithLimits marshal (metadata r) limits)
      (ValidateAttachments mapLower (attachments r) limits))))"

definition ValidateMessage ::
    "(string \<Rightarrow> string) \<Rightarrow> marshaler \<Rightarrow> message \<Rightarrow> MessageLimits \<Rightarrow> error option" where
  "ValidateMessage mapLower marshal msg limits = validateMessageReader mapLower marshal msg limits"

definition ValidateDraft ::
    "(string \<Rightarrow> string) \<Rightarrow> marshaler \<Rightarrow> message \<Rightarrow> MessageLimits \<Rightarrow> error option" where
  "ValidateDraft mapLower marshal draft limits = validateMessageReader mapLower marshal draft limits"

section \<open>What the validators accept\<close>

lemma headersLoop_Inr:
  "headersLoop limits hs t = Inr n \<longleftrightarrow>
    (\<forall>(k, v) \<in> set hs. k \<noteq> '''' \<and> len k \<le> lim_MaxHeaderKeyLength limits
       \<and> len v \<le> lim_MaxHeaderValueLength limits)
    \<and> n = t + sum_list (map (\<lambda>(k, v). len k + len v) hs)"
  by (induction limits hs t rule: headersLoop.induct) (auto simp: not_less)

lemma metadataKeysLoop_None:
  "metadataKeysLoop ks = None \<longleftrightarrow> (\<forall>k \<in> set ks. k \<noteq> '''' \<and> len k \<le> MaxMetadataKeyLength)"
  by (induction ks) auto

lemma attachmentsLoop_None:
  "attachmentsLoop ml limits allowed blocked as = None \<longleftrightarrow>
    (\<forall>a \<in> set as. att_Size a \<le> lim_MaxAttachmentSize limits \<and> att_Filename a \<noteq> ''''
       \<and> ValidateMIMEType ml (att_ContentType a) allowed blocked = None)"
  by (induction as) auto

text \<open>The limits as predicates on the parts of a message.\<close>

definition recipients_ok :: "MessageLimits \<Rightarrow> string list \<Rightarrow> bool" where
  "recipients_ok limits rs \<longleftrightarrow> rs \<noteq> [] \<and> len rs \<le> lim_MaxRecipientCount limits \<and> '''' \<notin> set rs"

definition subject_ok :: "MessageLimits \<Rightarrow> string \<Rightarrow> bool" where
  "subject_ok limits s \<longleftrightarrow> \<not> isSpaces s \<and> len s \<le> lim_MaxSubjectLength limits \<and> utf8_ValidString s
     \<and> (\<forall>r \<in> set (runes s). unicode_IsControl r \<longrightarrow> r \<in> {9, 10, 13})"

definition body_ok :: "MessageLimits \<Rightarrow> string \<Rightarrow> bool" where
  "body_ok limits s \<longleftrightarrow> len s \<le> lim_MaxBodySize limits \<and> utf8_ValidString s \<and> char_of (0 :: nat) \<notin> set s"

definition headers_ok :: "MessageLimits \<Rightarrow> (string \<times> string) list \<Rightarrow> bool" where
  "headers_ok limits hs \<longleftrightarrow> hs = [] \<or> len hs \<le> lim_MaxHeaderCount limits
     \<and> (\<forall>(k, v) \<in> set hs. k \<noteq> '''' \<and> len k \<le> lim_MaxHeaderKeyLength limits
          \<and> len v \<le> lim_MaxHeaderValueLength limits)
     \<and> sum_list (map (\<lambda>(k, v). len k + len v) hs) \<le> lim_MaxHeadersTotalSize limits"

definition metadata_ok :: "marshaler \<Rightarrow> MessageLimits \<Rightarrow> (string \<times> any) list option \<Rightarrow> bool" where
  "metadata_ok marshal limits md \<longleftrightarrow> (case md of None \<Rightarrow> True
     | Some kvs \<Rightarrow> len kvs \<le> lim_MaxMetadataKeys limits
         \<and> (\<forall>k \<in> set (map fst kvs). k \<noteq> '''' \<and> len k \<le> MaxMetadataKeyLength)
         \<and> (\<exists>data. marshal kvs = Some data \<and> len data \<le> lim_MaxMetadataSize limits))"

definition attachments_ok :: "(string \<Rightarrow> string) \<Rightarrow> MessageLimits \<Rightarrow> Attachment list \<Rightarrow> bool" where
  "attachments_ok ml limits as \<longleftrightarrow> len as \<le> lim_MaxAttachmentCount limits
     \<and> (\<forall>a \<in> set as. att_Size a \<le> lim_MaxAttachmentSize limits \<and> att_Filename a \<noteq> ''''
          \<and> normalizeMIMEType ml (att_ContentType a) \<noteq> '''')"

lemma ValidateRecipients_None: "ValidateRecipients rs limits = None \<longleftrightarrow> recipients_ok limits rs"
  by (auto simp: ValidateRecipients_def recipients_ok_def)

lemma ValidateSubject_None: "ValidateSubjectWithLimits s limits = None \<longleftrightarrow> subject_ok limits s"
  by (auto simp: ValidateSubjectWithLimits_def subject_ok_def Let_def MinSubjectLength_def
      TrimSpace_empty_iff [symmetric])

lemma ValidateBody_None: "ValidateBodyWithLimits s limits = None \<longleftrightarrow> body_ok limits s"
  by (auto simp: ValidateBodyWithLimits_def body_ok_def runes_low)

lemma ValidateHeaders_None: "ValidateHeaders hs limits = None \<longleftrightarrow> headers_ok limits hs"
proof (cases "headersLoop limits hs 0")
  case (Inl e)
  then have "\<not> (\<forall>(k, v) \<in> set hs. k \<noteq> '''' \<and> len k \<le> lim_MaxHeaderKeyLength limits
       \<and> len v \<le> lim_MaxHeaderValueLength limits)"
    using headersLoop_Inr [of limits hs 0 "sum_list (map (\<lambda>(k, v). len k + len v) hs)"] by simp
  moreover from this have "hs \<noteq> []" by auto
  ultimately show ?thesis using Inl by (simp add: ValidateHeaders_def headers_ok_def)
next
  case (Inr n)
  then have "(\<forall>(k, v) \<in> set hs. k \<noteq> '''' \<and> len k \<le> lim_MaxHeaderKeyLength limits
       \<and> len v \<le> lim_MaxHeaderValueLength limits)"
      "n = sum_list (map (\<lambda>(k, v). len k + len v) hs)"
    by (simp_all add: headersLoop_Inr)
  with Inr show ?thesis by (simp add: ValidateHeaders_def headers_ok_def not_less)
qed

lemma ValidateMetadata_None:
  "ValidateMetadataWithLimits marshal md limits = None \<longleftrightarrow> metadata_ok marshal limits md"
  by (auto simp: ValidateMetadataWithLimits_def metadata_ok_def metadataKeysLoop_None split: option.splits)

lemma ValidateAttachments_None:
  "ValidateAttachments ml as limits = None \<longleftrightarrow> attachments_ok ml limits as"
  by (auto simp: ValidateAttachments_def ValidateAttachmentsWithMIME_def attachments_ok_def
      attachmentsLoop_None ValidateMIMEType_def Let_def)

text \<open>Every error of the validation names one of the following sentinels.\<close>

definition rejections :: "sentinel list" where
  "rejections = [MErrEmptyRecipients, ErrTooManyRecipients, ErrInvalidRecipient, MErrEmptySubject,
    ErrSubjectTooLong, ErrInvalidContent, ErrBodyTooLarge, ErrTooManyHeaders, ErrInvalidHeaders,
    ErrHeaderKeyTooLong, ErrHeaderValueTooLong, ErrHeadersTooLarge, ErrInvalidMetadata,
    ErrMetadataKeyTooLong, ErrMetadataTooLarge, ErrTooManyAttachments, ErrAttachmentTooLarge,
    ErrInvalidAttachment]"

definition rejection :: "error \<Rightarrow> bool" where
  "rejection e \<longleftrightarrow> (\<exists>s \<in> set rejections. e = Sentinel s \<or> e = errf s) \<or> e = errf ErrInvalidMIMEType"

lemma headersLoop_Inl: "headersLoop limits hs t = Inl e \<Longrightarrow> rejection e"
  by (induction limits hs t rule: headersLoop.induct)
    (auto simp: rejection_def rejections_def split: if_splits)

lemma metadataKeysLoop_Some: "metadataKeysLoop ks = Some e \<Longrightarrow> rejection e"
  by (induction ks) (auto simp: rejection_def rejections_def split: if_splits)

lemma attachmentsLoop_Some: "attachmentsLoop ml limits allowed blocked as = Some e \<Longrightarrow> rejection e"
  by (induction as) (auto simp: rejection_def rejections_def split: if_splits)

lemma validators_reject:
  "ValidateRecipients rs limits = Some e \<Longrightarrow> rejection e"
  "ValidateSubjectWithLimits s limits = Some e \<Longrightarrow> rejection e"
  "ValidateBodyWithLimits s limits = Some e \<Longrightarrow> rejection e"
  "ValidateHeaders hs limits = Some e \<Longrightarrow> rejection e"
  "ValidateMetadataWithLimits marshal md limits = Some e \<Longrightarrow> rejection e"
  "ValidateAttachments ml as limits = Some e \<Longrightarrow> rejection e"
       apply (auto simp: ValidateRecipients_def rejection_def rejections_def split: if_splits) [1]
      apply (auto simp: ValidateSubjectWithLimits_def rejection_def rejections_def Let_def split: if_splits) [1]
     apply (auto simp: ValidateBodyWithLimits_def rejection_def rejections_def split: if_splits) [1]
    apply (auto simp: ValidateHeaders_def dest: headersLoop_Inl split: if_splits sum.splits) [1]
      apply (simp_all add: rejection_def rejections_def) [2]
   apply (auto simp: ValidateMetadataWithLimits_def dest!: firstErr_Some metadataKeysLoop_Some split: if_splits option.splits) [1]
    apply (simp_all add: rejection_def rejections_def) [3]
  apply (auto simp: ValidateAttachments_def ValidateAttachmentsWithMIME_def dest: attachmentsLoop_Some split: if_splits) [1]
  apply (simp add: rejection_def rejections_def) [1]
  done

lemma rejection_permanent:
  "rejection e \<Longrightarrow> \<not> IsRetryableError (Some e) \<or> e = errf ErrInvalidMIMEType"
proof -
  have "\<forall>s \<in> set rejections. \<not> IsRetryableError (Some (Sentinel s))" by code_simp
  moreover have "IsRetryableError (Some (errf s)) = IsRetryableError (Some (Sentinel s))" for s
    by (simp add: IsRetryableError_iff)
  moreover assume "rejection e"
  ultimately show ?thesis unfolding rejection_def by auto
qed


definition badTypeMail :: message where
  "badTypeMail = zeroMessage\<lparr>recipientIDs := [''bob''], subject := ''hi'', attachments :=
     [\<lparr>att_ID = ''a'', att_Filename = ''f'', att_ContentType = '' '', att_Size = 1,
        att_URI = '''', att_CreatedAt = 0\<rparr>]\<rparr>"


text \<open>A tag identifier has no byte below 32 and none of the four reserved ones.\<close>

definition badTagByte :: "nat \<Rightarrow> bool" where
  "badTagByte r \<longleftrightarrow> r < 32 \<or> r \<in> {127, 47, 92, 58}"

lemma isValidTagID_iff: "isValidTagID t \<longleftrightarrow> (\<forall>c \<in> set t. \<not> badTagByte (of_char c))"
proof -
  have low: "badTagByte r \<Longrightarrow> r < 128" for r by (auto simp: badTagByte_def)
  then have code: "badTagByte r \<Longrightarrow> of_char (char_of r :: char) = r" for r
    by (fastforce simp: of_char_of)
  have "isValidTagID t \<longleftrightarrow> (\<forall>r \<in> set (runes t). \<not> badTagByte r)"
    by (simp add: isValidTagID_def badTagByte_def)
  also have "\<dots> \<longleftrightarrow> (\<forall>r. badTagByte r \<longrightarrow> char_of r \<notin> set t)"
    using runes_low low by blast
  also have "\<dots> \<longleftrightarrow> (\<forall>c \<in> set t. \<not> badTagByte (of_char c))"
    using code by (metis char_of_char)
  finally show ?thesis .
qed

end
