(* ===== verification/Mailbox_Attachments.thy ===== *)
theory Mailbox_Attachments
  imports Mailbox_Errors Memory_Message
begin

text \<open>
  Attachments with reference counting: \<open>attachment.go\<close> and the interfaces of
  \<open>store/attachment.go\<close>.

  The metadata store and the file store are interfaces whose implementations are database and
  cloud clients. They are parameters: records of functions over a state of any type, with the
  content of a file as a string. \<open>attachmentManager\<close> is the code's own composition of the two,
  again a record of functions, over the pair of the states. \<open>addAttachmentRefs\<close> and
  \<open>releaseAttachmentRefs\<close> are the loops of the mailbox over the attachments of a message.
\<close>

section \<open>The interfaces\<close>

record AttachmentMetadata = Attachment +
  meta_Hash :: string
  meta_RefCount :: int

record AttachmentCreate =
  ac_Filename :: string
  ac_ContentType :: string
  ac_Size :: int
  ac_URI :: string
  ac_Hash :: string

record 'm AttachmentMetadataStore =
  ms_Create :: "AttachmentCreate \<Rightarrow> 'm \<Rightarrow> 'm \<times> (error + AttachmentMetadata)"
  ms_Get :: "string \<Rightarrow> 'm \<Rightarrow> (error + AttachmentMetadata)"
  ms_GetByHash :: "string \<Rightarrow> 'm \<Rightarrow> (error + AttachmentMetadata)"
  ms_IncrementRef :: "string \<Rightarrow> 'm \<Rightarrow> 'm \<times> error option"
  ms_DecrementRefAndDeleteIfZero :: "string \<Rightarrow> 'm \<Rightarrow> 'm \<times> (error + bool \<times> string)"

record 'f AttachmentFileStore =
  fs_Upload :: "string \<Rightarrow> string \<Rightarrow> string \<Rightarrow> 'f \<Rightarrow> 'f \<times> (error + string)"
  fs_Load :: "string \<Rightarrow> 'f \<Rightarrow> (error + string)"
  fs_Delete :: "string \<Rightarrow> 'f \<Rightarrow> 'f \<times> error option"

record 'a AttachmentManager =
  am_Upload :: "string \<Rightarrow> string \<Rightarrow> string \<Rightarrow> string \<Rightarrow> 'a \<Rightarrow> 'a \<times> (error + AttachmentMetadata)"
  am_Load :: "string \<Rightarrow> 'a \<Rightarrow> (error + string)"
  am_GetMetadata :: "string \<Rightarrow> 'a \<Rightarrow> (error + AttachmentMetadata)"
  am_AddRef :: "string \<Rightarrow> 'a \<Rightarrow> 'a \<times> error option"
  am_RemoveRef :: "string \<Rightarrow> 'a \<Rightarrow> 'a \<times> error option"

section \<open>The manager\<close>

definition manager_Upload ::
    "'m AttachmentMetadataStore \<Rightarrow> 'f AttachmentFileStore \<Rightarrow> string \<Rightarrow> string \<Rightarrow> string \<Rightarrow> string \<Rightarrow>
     'm \<times> 'f \<Rightarrow> ('m \<times> 'f) \<times> (error + AttachmentMetadata)" where
  "manager_Upload ms fs filename contentType hash content = (\<lambda>(m, f).
    case (if hash \<noteq> '''' then ms_GetByHash ms hash m else Inl (ExternalError 0)) of
      Inr existing \<Rightarrow> ((m, f), Inr existing)
    | Inl _ \<Rightarrow>
        (case fs_Upload fs filename contentType content f of
           (f, Inl e) \<Rightarrow> ((m, f), Inl (Wrapf e))
         | (f, Inr uri) \<Rightarrow>
             (case ms_Create ms \<lparr>ac_Filename = filename, ac_ContentType = contentType, ac_Size = 0,
                 ac_URI = uri, ac_Hash = hash\<rparr> m of
                (m, Inl e) \<Rightarrow> (case fs_Delete fs uri f of (f, _) \<Rightarrow> ((m, f), Inl (Wrapf e)))
              | (m, Inr meta) \<Rightarrow> ((m, f), Inr meta))))"

definition manager_Load ::
    "'m AttachmentMetadataStore \<Rightarrow> 'f AttachmentFileStore \<Rightarrow> string \<Rightarrow> 'm \<times> 'f \<Rightarrow> (error + string)" where
  "manager_Load ms fs i = (\<lambda>(m, f).
    case ms_Get ms i m of
      Inl e \<Rightarrow> Inl (Wrapf e)
    | Inr meta \<Rightarrow> fs_Load fs (att_URI meta) f)"

definition manager_AddRef ::
    "'m AttachmentMetadataStore \<Rightarrow> string \<Rightarrow> 'm \<times> 'f \<Rightarrow> ('m \<times> 'f) \<times> error option" where
  "manager_AddRef ms i = (\<lambda>(m, f). case ms_IncrementRef ms i m of (m, e) \<Rightarrow> ((m, f), e))"

definition manager_RemoveRef ::
    "'m AttachmentMetadataStore \<Rightarrow> 'f AttachmentFileStore \<Rightarrow> string \<Rightarrow> 'm \<times> 'f \<Rightarrow>
     ('m \<times> 'f) \<times> error option" where
  "manager_RemoveRef ms fs i = (\<lambda>(m, f).
    case ms_DecrementRefAndDeleteIfZero ms i m of
      (m, Inl e) \<Rightarrow> ((m, f), Some (Wrapf e))
    | (m, Inr (deleted, uri)) \<Rightarrow>
        if deleted \<and> uri \<noteq> '''' then
          (case fs_Delete fs uri f of
             (f, Some e) \<Rightarrow> ((m, f), Some (Wrapf e))
           | (f, None) \<Rightarrow> ((m, f), None))
        else ((m, f), None))"

definition NewAttachmentManager ::
    "'m AttachmentMetadataStore \<Rightarrow> 'f AttachmentFileStore \<Rightarrow> ('m \<times> 'f) AttachmentManager" where
  "NewAttachmentManager ms fs =
    \<lparr>am_Upload = manager_Upload ms fs, am_Load = manager_Load ms fs,
     am_GetMetadata = (\<lambda>i (m, f). ms_Get ms i m),
     am_AddRef = manager_AddRef ms, am_RemoveRef = manager_RemoveRef ms fs\<rparr>"

section \<open>The references of a message\<close>

text \<open>
  The loops of the mailbox. \<open>releaseAll\<close> releases a list of references and collects the errors
  by identifier; \<open>addRefs\<close> is the loop of \<open>addAttachmentRefs\<close> after the references \<open>added\<close>.
\<close>

fun releaseAll ::
    "'a AttachmentManager \<Rightarrow> string list \<Rightarrow> (string \<times> error) list \<Rightarrow> 'a \<Rightarrow> 'a \<times> (string \<times> error) list" where
  "releaseAll am [] failed a = (a, failed)"
| "releaseAll am (i # rest) failed a =
    (case am_RemoveRef am i a of
       (a, Some err) \<Rightarrow> releaseAll am rest (AList.update i err failed) a
     | (a, None) \<Rightarrow> releaseAll am rest failed a)"

fun addRefs :: "'a AttachmentManager \<Rightarrow> string list \<Rightarrow> string list \<Rightarrow> 'a \<Rightarrow> 'a \<times> error option" where
  "addRefs am [] added a = (a, None)"
| "addRefs am (i # rest) added a =
    (case am_AddRef am i a of
       (a, Some err) \<Rightarrow>
         (case releaseAll am added [] a of
            (a, rollbackFailed) \<Rightarrow> (a, Some (AttachmentRefError ''add'' [(i, err)] rollbackFailed)))
     | (a, None) \<Rightarrow> addRefs am rest (added @ [i]) a)"

definition attachmentIDs :: "message \<Rightarrow> string list" where
  "attachmentIDs msg = map att_ID (attachments msg)"

definition addAttachmentRefs :: "'a AttachmentManager option \<Rightarrow> message \<Rightarrow> 'a \<Rightarrow> 'a \<times> error option" where
  "addAttachmentRefs manager msg a =
    (case manager of None \<Rightarrow> (a, None) | Some am \<Rightarrow> addRefs am (attachmentIDs msg) [] a)"

definition releaseAttachmentRefs :: "'a AttachmentManager option \<Rightarrow> message \<Rightarrow> 'a \<Rightarrow> 'a \<times> error option" where
  "releaseAttachmentRefs manager msg a =
    (case manager of
       None \<Rightarrow> (a, None)
     | Some am \<Rightarrow>
         (case releaseAll am (attachmentIDs msg) [] a of
            (a, failed) \<Rightarrow>
              (a, if length failed > 0 then Some (AttachmentRefError ''release'' failed []) else None)))"

section \<open>Counting references\<close>

text \<open>
  What the documentation of the metadata store promises, for the count \<open>refs m i\<close> of the
  attachment \<open>i\<close> in the state \<open>m\<close> (\<^const>\<open>None\<close> when there is no such attachment): an increment
  counts one more, a decrement one less or, at the last reference, deletes the entry, and a call
  that fails changes no count.
\<close>

definition metadata_counts :: "'m AttachmentMetadataStore \<Rightarrow> ('m \<Rightarrow> string \<Rightarrow> int option) \<Rightarrow> bool" where
  "metadata_counts ms refs \<longleftrightarrow>
    (\<forall>m i. case ms_IncrementRef ms i m of
        (m', None) \<Rightarrow> (\<exists>n. refs m i = Some n \<and> refs m' = (refs m)(i \<mapsto> n + 1))
      | (m', Some _) \<Rightarrow> refs m' = refs m)
    \<and> (\<forall>m i. case ms_DecrementRefAndDeleteIfZero ms i m of
        (m', Inr (False, _)) \<Rightarrow> (\<exists>n > 1. refs m i = Some n \<and> refs m' = (refs m)(i \<mapsto> n - 1))
      | (m', Inr (True, _)) \<Rightarrow> (\<exists>n \<le> 1. refs m i = Some n \<and> refs m' = (refs m)(i := None))
      | (m', Inl _) \<Rightarrow> refs m' = refs m)"

text \<open>The counts with one more for every occurrence in a list.\<close>

definition bump :: "(string \<Rightarrow> int option) \<Rightarrow> string list \<Rightarrow> string \<Rightarrow> int option" where
  "bump f xs i = map_option (\<lambda>n. n + int (count_list xs i)) (f i)"

lemma bump_Nil [simp]: "bump f [] = f"
  by (auto simp: bump_def fun_eq_iff option.map_ident)

lemma bump_snoc: "bump f xs i = Some n \<Longrightarrow> (bump f xs)(i \<mapsto> n + 1) = bump f (xs @ [i])"
  by (auto simp: bump_def fun_eq_iff split: option.splits)

text \<open>The same for the manager that the code builds from the stores.\<close>

lemma manager_AddRef_counts:
  assumes "metadata_counts ms refs" "am_AddRef (NewAttachmentManager ms fs) i (m, f) = ((m', f'), e)"
  shows "f' = f" "e = None \<Longrightarrow> \<exists>n. refs m i = Some n \<and> refs m' = (refs m)(i \<mapsto> n + 1)"
    "e \<noteq> None \<Longrightarrow> refs m' = refs m"
proof -
  have "case ms_IncrementRef ms i m of
        (m', None) \<Rightarrow> (\<exists>n. refs m i = Some n \<and> refs m' = (refs m)(i \<mapsto> n + 1))
      | (m', Some _) \<Rightarrow> refs m' = refs m"
    by (rule assms(1) [unfolded metadata_counts_def, THEN conjunct1, THEN spec, THEN spec])
  then show "f' = f" "e = None \<Longrightarrow> \<exists>n. refs m i = Some n \<and> refs m' = (refs m)(i \<mapsto> n + 1)"
    "e \<noteq> None \<Longrightarrow> refs m' = refs m"
    using assms(2) by (auto simp: NewAttachmentManager_def manager_AddRef_def split: prod.splits option.splits)
qed

lemma manager_RemoveRef_counts:
  assumes "metadata_counts ms refs" "am_RemoveRef (NewAttachmentManager ms fs) i (m, f) = ((m', f'), None)"
    "refs m i = Some n" "n > 1"
  shows "f' = f \<and> refs m' = (refs m)(i \<mapsto> n - 1)"
proof -
  have "case ms_DecrementRefAndDeleteIfZero ms i m of
        (m', Inr (False, _)) \<Rightarrow> (\<exists>n > 1. refs m i = Some n \<and> refs m' = (refs m)(i \<mapsto> n - 1))
      | (m', Inr (True, _)) \<Rightarrow> (\<exists>n \<le> 1. refs m i = Some n \<and> refs m' = (refs m)(i := None))
      | (m', Inl _) \<Rightarrow> refs m' = refs m"
    by (rule assms(1) [unfolded metadata_counts_def, THEN conjunct2, THEN spec, THEN spec])
  then show ?thesis
    using assms(2-4) by (auto simp: NewAttachmentManager_def manager_RemoveRef_def split: prod.splits sum.splits bool.splits option.splits if_splits)
qed

lemma releaseAll_failed: "failed \<noteq> [] \<Longrightarrow> snd (releaseAll am is failed a) \<noteq> []"
  by (induction am "is" failed a rule: releaseAll.induct) (auto split: prod.splits option.splits)

lemma releaseAll_restores:
  assumes "metadata_counts ms refs" "am = NewAttachmentManager ms fs"
    "releaseAll am is [] (m, f) = ((m', f'), [])" "refs m = bump r is"
    "\<forall>i \<in> set is. \<exists>n \<ge> 1. r i = Some n"
  shows "refs m' = r \<and> f' = f"
  using assms(3-5)
proof (induction "is" arbitrary: m f)
  case (Cons i "is")
  obtain m1 f1 e where rm: "am_RemoveRef am i (m, f) = ((m1, f1), e)" by (metis prod.exhaust)
  have e: "e = None"
    using Cons.prems(1) rm releaseAll_failed [of "[(i, the e)]" am "is" "(m1, f1)"]
    by (cases e) auto
  obtain n where n: "n \<ge> 1" "r i = Some n" using Cons.prems(3) by auto
  then have at: "refs m i = Some (n + int (count_list is i) + 1)"
    using Cons.prems(2) by (simp add: bump_def)
  have "f1 = f \<and> refs m1 = (refs m)(i \<mapsto> n + int (count_list is i) + 1 - 1)"
    using manager_RemoveRef_counts [OF assms(1) rm [unfolded assms(2) e] at] n(1) by simp
  moreover have "(refs m)(i \<mapsto> n + int (count_list is i) + 1 - 1) = bump r is"
    using Cons.prems(2) n by (auto simp: bump_def fun_eq_iff split: option.splits)
  ultimately show ?case
    using Cons.IH [of m1 f] Cons.prems rm e by auto
qed simp

lemma addRefs_counts:
  assumes "metadata_counts ms refs" "am = NewAttachmentManager ms fs"
    "addRefs am is added (m, f) = ((m', f'), e)" "refs m = bump r added"
  shows "(e = None \<longrightarrow> refs m' = bump r (added @ is) \<and> f' = f)
    \<and> (e = Some (AttachmentRefError op failed []) \<and> (\<forall>i \<in> set (added @ is). \<forall>n. r i = Some n \<longrightarrow> n \<ge> 1)
        \<and> (\<forall>i \<in> set added. r i \<noteq> None)
        \<longrightarrow> refs m' = r \<and> f' = f)"
  using assms(3,4)
proof (induction "is" arbitrary: added m f)
  case (Cons i "is")
  obtain m1 f1 e1 where add: "am_AddRef am i (m, f) = ((m1, f1), e1)" by (metis prod.exhaust)
  note ad = manager_AddRef_counts [OF assms(1) add [unfolded assms(2)]]
  show ?case
  proof (cases e1)
    case None
    obtain n where n: "refs m i = Some n" "refs m1 = (refs m)(i \<mapsto> n + 1)" using ad(2) None by blast
    then have "refs m1 = bump r (added @ [i])" using Cons.prems(2) bump_snoc [of r added i n] by simp
    moreover have "r i \<noteq> None" using n(1) Cons.prems(2) by (auto simp: bump_def)
    ultimately show ?thesis
      using Cons.IH [of "added @ [i]" m1 f1] Cons.prems(1) add None ad(1) by auto
  next
    case (Some err)
    obtain m2 f2 rb where rel: "releaseAll am added [] (m1, f1) = ((m2, f2), rb)" by (metis prod.exhaust)
    have e: "e = Some (AttachmentRefError ''add'' [(i, err)] rb)" "m' = m2" "f' = f2"
      using Cons.prems(1) add Some rel by auto
    have "refs m1 = bump r added" using ad(3) Some Cons.prems(2) by simp
    then show ?thesis
      using releaseAll_restores [OF assms(1,2), of added m1 f1 m2 f2 r] rel e ad(1)
      by (auto) (fastforce)+
  qed
qed simp


text \<open>A metadata store that keeps the counts in a list, and no files.\<close>

definition demoMeta :: "(string \<times> int) list AttachmentMetadataStore" where
  "demoMeta =
    \<lparr>ms_Create = (\<lambda>_ m. (m, Inl (ExternalError 0))), ms_Get = (\<lambda>_ _. Inl (StoreErr ErrNotFound)),
     ms_GetByHash = (\<lambda>_ _. Inl (StoreErr ErrNotFound)),
     ms_IncrementRef = (\<lambda>i m. case map_of m i of
         None \<Rightarrow> (m, Some (StoreErr ErrNotFound))
       | Some n \<Rightarrow> (AList.update i (n + 1) m, None)),
     ms_DecrementRefAndDeleteIfZero = (\<lambda>i m. case map_of m i of
         None \<Rightarrow> (m, Inl (StoreErr ErrNotFound))
       | Some n \<Rightarrow> if n \<le> 1 then (AList.delete i m, Inr (True, i))
           else (AList.update i (n - 1) m, Inr (False, '''')))\<rparr>"

definition demoFiles :: "string list AttachmentFileStore" where
  "demoFiles = \<lparr>fs_Upload = (\<lambda>_ _ _ f. (f, Inl (ExternalError 0))), fs_Load = (\<lambda>_ _. Inl (ExternalError 0)),
     fs_Delete = (\<lambda>uri f. (remove1 uri f, None))\<rparr>"

definition demoAttachment :: "string \<Rightarrow> Attachment" where
  "demoAttachment i = \<lparr>att_ID = i, att_Filename = i, att_ContentType = ''text/plain'', att_Size = 1,
     att_URI = i, att_CreatedAt = 0\<rparr>"

lemma demoMeta_counts: "metadata_counts demoMeta map_of"
  by (auto simp: metadata_counts_def demoMeta_def update_conv' delete_conv' split: option.splits)


end
