(* ===== verification/Mailbox_Service.thy ===== *)
theory Mailbox_Service
  imports Mailbox_Validation Mailbox_Attachments Memory_Steps
begin

text \<open>
  The mailbox service over the in-memory store: its state, its configuration, the publishing of
  events (\<open>outbox_helpers.go\<close>, \<open>events.go\<close>), the plugins (\<open>plugin.go\<close>), and connecting and
  closing it (\<open>mailbox.go\<close>).

  \<^item> What does not change after \<open>New\<close> is in the record \<open>env\<close>: the configuration, the options and
    the answers of the code that the mailbox only calls (event bus, attachment manager, quota
    provider, user resolver, plugins, registrar).
  \<^item> What changes is in the record \<open>service\<close>. The events that were published and the failures
    that were reported to the callback are lists, in order.
  \<^item> The in-memory store has no outbox (\<open>OutboxEnabled\<close> is false), so \<open>opAndPublish\<close> takes its
    direct path.
  \<^item> One operation reads the clock once: the argument \<open>now\<close> stands for all the calls of
    \<open>time.Now\<close> it makes. Tracing, metrics and logging are left out.
\<close>

section \<open>Events\<close>

datatype mailbox_event =
    MessageSentEvent (evMessageID: string) (evSenderID: string) (evRecipientIDs: "string list") string time
  | MessageReceivedEvent (evMessageID: string) (evRecipientID: string) (evSenderID: string) string time
  | MessageReadEvent (evMessageID: string) (evUserID: string) string time
  | MessageDeletedEvent (evMessageID: string) (evUserID: string) string bool time
  | MessageMovedEvent (evMessageID: string) (evUserID: string) string string bool time
  | MarkAllReadEvent (evUserID: string) string int time

definition EventNameMessageSent :: string where "EventNameMessageSent = ''mailbox.message.sent''"
definition EventNameMessageReceived :: string where "EventNameMessageReceived = ''mailbox.message.received''"
definition EventNameMessageRead :: string where "EventNameMessageRead = ''mailbox.message.read''"
definition EventNameMessageDeleted :: string where "EventNameMessageDeleted = ''mailbox.message.deleted''"
definition EventNameMessageMoved :: string where "EventNameMessageMoved = ''mailbox.message.moved''"
definition EventNameMarkAllRead :: string where "EventNameMarkAllRead = ''mailbox.mark_all_read''"

section \<open>Configuration and state\<close>

datatype QuotaAction = QuotaActionReject | QuotaActionDeleteOldest

record QuotaPolicy =
  MaxMessages :: int
  ExceedAction :: QuotaAction
  DeleteOlderThan :: duration

record User =
  user_FirstName :: string
  user_LastName :: string
  user_Email :: string

text \<open>
  A plugin: what its \<open>Init\<close> and \<open>Close\<close> return and, if it is a \<open>SendHook\<close>, its two hooks.
  \<open>BeforeSend\<close> may change the draft through its setters.
\<close>

record SendHook =
  hook_BeforeSend :: "string \<Rightarrow> message \<Rightarrow> message \<times> error option"
  hook_AfterSend :: "string \<Rightarrow> message \<Rightarrow> error option"

record Plugin =
  pl_Name :: string
  pl_Init :: "error option"
  pl_Close :: "error option"
  pl_Hook :: "SendHook option"

datatype transport = CustomTransport | RedisTransport | NoopTransport

text \<open>
  \<open>env_publish\<close> is the answer of the bus to the publication of an event; \<open>env_newBus\<close> and
  \<open>env_busSteps\<close> are the outcomes of creating the bus and of the registrations and subscriptions
  that follow; \<open>env_busClose\<close>, \<open>env_notifierClose\<close> and \<open>env_acquireAll\<close> those of closing the bus, of
  closing the notifier if there is one, and of waiting for the sends in flight.
\<close>

record 'a env =
  env_cfg :: Config
  env_uuid :: uuids
  env_mapLower :: "string \<Rightarrow> string"
  env_marshal :: marshaler
  env_attachments :: "'a AttachmentManager option"
  env_quotaProvider :: "(string \<Rightarrow> error + QuotaPolicy option) option"
  env_userResolver :: "(string \<Rightarrow> error + User) option"
  env_plugins :: "Plugin list"
  env_registrar :: "(error + string) option"
  env_statsDistCache :: "(string \<Rightarrow> error + MailboxStats option) option"
  env_eventErrorsFatal :: bool
  env_publish :: "mailbox_event \<Rightarrow> error option"
  env_eventBus :: bool
  env_transport :: transport
  env_newBus :: "error option"
  env_busSteps :: "error option list"
  env_busClose :: "error option"
  env_notifierClose :: "error option option"
  env_acquireAll :: "error option"

datatype connState = stateDisconnected | stateConnecting | stateConnected

record statsEntry =
  se_stats :: "MailboxStats option"
  se_updatedAt :: time

text \<open>The calls that change the distributed cache of the statistics.\<close>

datatype dist_call = DistIncrBy string string int | DistSet string MailboxStats duration

datatype plugin_call = InitCall string bool | CloseCall string

datatype task = TrashCleanup | ExpiredMessageCleanup | QuotaEnforcement

record 'a service =
  svc_state :: connState
  svc_store :: Store
  svc_atts :: 'a
  svc_busOpen :: bool
  svc_pluginCalls :: "plugin_call list"
  svc_mailboxID :: string
  svc_tasks :: "task list"
  svc_statsEnabled :: bool
  svc_stats :: "(string \<times> statsEntry) list"
  svc_distCalls :: "dist_call list"
  svc_events :: "mailbox_event list"
  svc_failures :: "(string \<times> error) list"

text \<open>
  \<open>New\<close> fills in the defaults of the configuration. A bus that the caller provides is open from
  the start.
\<close>

definition New :: "'a env \<Rightarrow> Store \<Rightarrow> 'a \<Rightarrow> 'a env \<times> 'a service" where
  "New env st a =
    (env\<lparr>env_cfg := applyDefaults (env_cfg env)\<rparr>,
     \<lparr>svc_state = stateDisconnected, svc_store = st, svc_atts = a, svc_busOpen = env_eventBus env,
      svc_pluginCalls = [], svc_mailboxID = '''', svc_tasks = [], svc_statsEnabled = False,
      svc_stats = [], svc_distCalls = [], svc_events = [], svc_failures = []\<rparr>)"

section \<open>Access\<close>

definition isValidUserID :: "string \<Rightarrow> bool" where
  "isValidUserID userID \<longleftrightarrow> userID \<noteq> '''' \<and>
    (\<forall>c \<in> set (runes userID). \<not> (c = 42 \<or> c = 58 \<or> c = 47 \<or> c = 92 \<or>
       c = 32 \<or> c = 9 \<or> c = 10 \<or> c = 13 \<or> c < 32 \<or> c = 127))"

definition IsConnected :: "'a service \<Rightarrow> bool" where
  "IsConnected s \<longleftrightarrow> svc_state s = stateConnected"

text \<open>A \<open>userMailbox\<close> is its user; \<open>validUserID\<close> is computed from it by \<open>Client\<close>.\<close>

definition checkAccess :: "string \<Rightarrow> 'a service \<Rightarrow> error option" where
  "checkAccess userID s =
    (if \<not> IsConnected s then Some (Sentinel MErrNotConnected)
     else if \<not> isValidUserID userID then Some (Sentinel ErrInvalidUserID)
     else None)"

section \<open>Publishing\<close>

definition publishTypedEvent :: "'a env \<Rightarrow> mailbox_event \<Rightarrow> 'a service \<Rightarrow> 'a service \<times> error option" where
  "publishTypedEvent env ev s =
    (case env_publish env ev of
       None \<Rightarrow> (s\<lparr>svc_events := svc_events s @ [ev]\<rparr>, None)
     | Some e \<Rightarrow> (s, Some e))"

definition publishOnly ::
    "'a env \<Rightarrow> string \<Rightarrow> string \<Rightarrow> mailbox_event \<Rightarrow> 'a service \<Rightarrow> 'a service \<times> error option" where
  "publishOnly env eventName messageID ev s =
    (case publishTypedEvent env ev s of
       (s, None) \<Rightarrow> (s, None)
     | (s, Some e) \<Rightarrow>
         if env_eventErrorsFatal env then (s, Some (EventPublishError eventName messageID e))
         else (s\<lparr>svc_failures := svc_failures s @ [(eventName, e)]\<rparr>, None))"

text \<open>The error of a store call, as the service sees it.\<close>

definition storeErr :: "(store_error, 'b) res \<Rightarrow> error option" where
  "storeErr r = (case r of Err e \<Rightarrow> Some (StoreErr e) | _ \<Rightarrow> None)"

definition opAndPublish ::
    "'a env \<Rightarrow> string \<Rightarrow> string \<Rightarrow> mailbox_event \<Rightarrow> (Store \<Rightarrow> Store \<times> (store_error, unit) res) \<Rightarrow>
     'a service \<Rightarrow> 'a service \<times> error option" where
  "opAndPublish env eventName messageID ev op s =
    (case op (svc_store s) of
       (st, r) \<Rightarrow>
         let s = s\<lparr>svc_store := st\<rparr> in
         (case storeErr r of
            Some e \<Rightarrow> (s, Some e)
          | None \<Rightarrow> publishOnly env eventName messageID ev s))"

section \<open>Plugins\<close>

text \<open>
  \<open>initAll\<close> initializes the plugins in order; when one fails, those before it are closed in
  reverse order. The calls are recorded in the order they are made, an \<open>Init\<close> with its success.
\<close>

fun initLoop :: "Plugin list \<Rightarrow> Plugin list \<Rightarrow> plugin_call list \<Rightarrow> plugin_call list \<times> error option" where
  "initLoop [] opened calls = (calls, None)"
| "initLoop (p # rest) opened calls =
    (case pl_Init p of
       Some err \<Rightarrow>
         (calls @ [InitCall (pl_Name p) False] @ map (\<lambda>q. CloseCall (pl_Name q)) opened,
          Some (PluginError (pl_Name p) ''init'' err))
     | None \<Rightarrow> initLoop rest (p # opened) (calls @ [InitCall (pl_Name p) True]))"

definition initAll :: "'a env \<Rightarrow> 'a service \<Rightarrow> 'a service \<times> error option" where
  "initAll env s =
    (case initLoop (env_plugins env) [] (svc_pluginCalls s) of
       (calls, e) \<Rightarrow> (s\<lparr>svc_pluginCalls := calls\<rparr>, e))"

definition closeAll :: "'a env \<Rightarrow> 'a service \<Rightarrow> 'a service \<times> error option" where
  "closeAll env s =
    (s\<lparr>svc_pluginCalls := svc_pluginCalls s @ map (\<lambda>p. CloseCall (pl_Name p)) (rev (env_plugins env))\<rparr>,
     errors_Join (map (\<lambda>p. map_option (\<lambda>e. PluginError (pl_Name p) ''close'' e) (pl_Close p)) (rev (env_plugins env))))"

fun beforeSendLoop :: "Plugin list \<Rightarrow> string \<Rightarrow> message \<Rightarrow> message \<times> error option" where
  "beforeSendLoop [] userID draft = (draft, None)"
| "beforeSendLoop (p # rest) userID draft =
    (case pl_Hook p of
       None \<Rightarrow> beforeSendLoop rest userID draft
     | Some h \<Rightarrow>
         (case hook_BeforeSend h userID draft of
            (draft, Some err) \<Rightarrow> (draft, Some (PluginError (pl_Name p) ''BeforeSend'' err))
          | (draft, None) \<Rightarrow> beforeSendLoop rest userID draft))"

fun afterSendLoop :: "Plugin list \<Rightarrow> string \<Rightarrow> message \<Rightarrow> error option" where
  "afterSendLoop [] userID msg = None"
| "afterSendLoop (p # rest) userID msg =
    (case pl_Hook p of
       None \<Rightarrow> afterSendLoop rest userID msg
     | Some h \<Rightarrow>
         (case hook_AfterSend h userID msg of
            Some err \<Rightarrow> Some (PluginError (pl_Name p) ''AfterSend'' err)
          | None \<Rightarrow> afterSendLoop rest userID msg))"

section \<open>An instance\<close>

text \<open>
  A configuration with the default limits, a bus that takes every event, and the attachment
  manager over the counting store, and a connected service over a store, for examples.
\<close>

type_synonym demo_atts = "(string \<times> int) list \<times> string list"

definition demoEnv :: "demo_atts env" where
  "demoEnv =
    \<lparr>env_cfg = DefaultConfig, env_uuid = demoUUID, env_mapLower = (\<lambda>s. s), env_marshal = (\<lambda>_. Some ''''),
     env_attachments = Some (NewAttachmentManager demoMeta demoFiles), env_quotaProvider = None,
     env_userResolver = None, env_plugins = [], env_registrar = None, env_statsDistCache = None, env_eventErrorsFatal = False,
     env_publish = (\<lambda>_. None), env_eventBus = False, env_transport = CustomTransport, env_newBus = None,
     env_busSteps = [], env_busClose = None, env_notifierClose = None, env_acquireAll = None\<rparr>"

definition demoService :: "Store \<Rightarrow> demo_atts service" where
  "demoService st = (snd (New demoEnv st ([], [])))\<lparr>svc_state := stateConnected, svc_busOpen := True\<rparr>"

end
