(* ===== verification/Mailbox_Lifecycle.thy ===== *)
theory Mailbox_Lifecycle
  imports Mailbox_Service
begin

text \<open>
  Connecting and closing the service: \<open>Connect\<close>, \<open>initEventBus\<close>, \<open>Close\<close> and
  \<open>allTransportClosed\<close> of \<open>mailbox.go\<close>, and \<open>startBackgroundTasks\<close> of \<open>background.go\<close>. The theorem
  of this theory says that connecting is all or nothing.
\<close>

section \<open>Connecting\<close>

fun firstError :: "error option list \<Rightarrow> error option" where
  "firstError [] = None"
| "firstError (None # rest) = firstError rest"
| "firstError (Some e # rest) = Some e"

definition initEventBus :: "'a env \<Rightarrow> 'a service \<Rightarrow> 'a service \<times> error option" where
  "initEventBus env s =
    (let ownsBus = \<not> env_eventBus env;
         s = s\<lparr>svc_statsEnabled := (if ownsBus then env_transport env \<noteq> NoopTransport else True)\<rparr> in
     case (if ownsBus then env_newBus env else None) of
       Some err \<Rightarrow> (s, Some (Wrapf err))
     | None \<Rightarrow>
         let s = (if ownsBus then s\<lparr>svc_busOpen := True\<rparr> else s) in
         (case firstError (env_busSteps env) of
            Some err \<Rightarrow> (if ownsBus then s\<lparr>svc_busOpen := False\<rparr> else s, Some (Wrapf err))
          | None \<Rightarrow> (s, None)))"

definition closeStore :: "'a service \<Rightarrow> 'a service" where
  "closeStore s = s\<lparr>svc_store := fst (Store_Close (svc_store s))\<rparr>"

definition startBackgroundTasks :: "'a env \<Rightarrow> 'a service \<Rightarrow> 'a service" where
  "startBackgroundTasks env s =
    (let cfg = env_cfg env in
     s\<lparr>svc_tasks :=
       (if TrashCleanupInterval cfg > 0 then [TrashCleanup] else []) @
       (if ExpiredMessageCleanupInterval cfg > 0 then [ExpiredMessageCleanup] else []) @
       (if QuotaEnforcementInterval cfg > 0 \<and> QuotaUserLister cfg \<noteq> None then [QuotaEnforcement] else [])\<rparr>)"

text \<open>The part of \<open>Connect\<close> between the change of the state and the deferred function.\<close>

definition connectSteps :: "'a env \<Rightarrow> 'a service \<Rightarrow> 'a service \<times> error option" where
  "connectSteps env s =
    (case Store_Connect (svc_store s) of
       (st, Err e) \<Rightarrow> (s\<lparr>svc_store := st\<rparr>, Some (Wrapf (StoreErr e)))
     | (st, _) \<Rightarrow>
        (case initEventBus env (s\<lparr>svc_store := st\<rparr>) of
           (s, Some e) \<Rightarrow> (closeStore s, Some (Wrapf e))
         | (s, None) \<Rightarrow>
            (case initAll env s of
               (s, Some e) \<Rightarrow> (closeStore (s\<lparr>svc_busOpen := False\<rparr>), Some (Wrapf e))
             | (s, None) \<Rightarrow>
                (case env_registrar env of
                   Some (Inl e) \<Rightarrow>
                     (case closeAll env s of
                        (s, _) \<Rightarrow> (closeStore (s\<lparr>svc_busOpen := False\<rparr>), Some (Wrapf e)))
                 | Some (Inr i) \<Rightarrow> (startBackgroundTasks env (s\<lparr>svc_mailboxID := i\<rparr>), None)
                 | None \<Rightarrow> (startBackgroundTasks env s, None)))))"

definition Connect :: "'a env \<Rightarrow> 'a service \<Rightarrow> 'a service \<times> error option" where
  "Connect env s =
    (if svc_state s \<noteq> stateDisconnected then (s, Some (Sentinel MErrAlreadyConnected))
     else
       (case connectSteps env (s\<lparr>svc_state := stateConnecting\<rparr>) of
          (s, None) \<Rightarrow> (s\<lparr>svc_state := stateConnected\<rparr>, None)
        | (s, Some e) \<Rightarrow> (s\<lparr>svc_state := stateDisconnected\<rparr>, Some e)))"

section \<open>Closing\<close>

text \<open>\<open>transport.ErrTransportClosed\<close> is one of the external errors.\<close>

definition ErrTransportClosed :: nat where "ErrTransportClosed = 1"

fun isTransportClosed :: "error \<Rightarrow> bool" where
  "isTransportClosed (ExternalError n) \<longleftrightarrow> n = ErrTransportClosed"
| "isTransportClosed (Wrapf e) \<longleftrightarrow> isTransportClosed e"
| "isTransportClosed (Joined es) \<longleftrightarrow> (\<exists>e \<in> set es. isTransportClosed e)"
| "isTransportClosed _ \<longleftrightarrow> False"

fun allTransportClosed :: "error option \<Rightarrow> bool" where
  "allTransportClosed None \<longleftrightarrow> False"
| "allTransportClosed (Some (Joined leaves)) \<longleftrightarrow> leaves \<noteq> [] \<and> (\<forall>e \<in> set leaves. isTransportClosed e)"
| "allTransportClosed (Some e) \<longleftrightarrow> isTransportClosed e"

definition Close :: "'a env \<Rightarrow> 'a service \<Rightarrow> 'a service \<times> error option" where
  "Close env s =
    (if svc_state s \<noteq> stateConnected then (s, None)
     else
       let s = s\<lparr>svc_state := stateDisconnected, svc_tasks := []\<rparr>;
           e1 = map_option Wrapf (env_acquireAll env);
           e2 = (case env_notifierClose env of None \<Rightarrow> None | Some r \<Rightarrow> map_option Wrapf r) in
       (case closeAll env s of
          (s, e3) \<Rightarrow>
            let closesBus = svc_busOpen s \<and> \<not> env_eventBus env \<and> env_transport env \<noteq> NoopTransport;
                s = (if closesBus then s\<lparr>svc_busOpen := False\<rparr> else s);
                e4 = (if closesBus \<and> \<not> allTransportClosed (env_busClose env)
                      then map_option Wrapf (env_busClose env) else None)
            in (closeStore s, errors_Join [e1, e2, map_option Wrapf e3, e4])))"

section \<open>All or nothing\<close>

text \<open>The plugins that are open after a sequence of calls, the last one opened first.\<close>

fun openPlugins :: "plugin_call list \<Rightarrow> string list \<Rightarrow> string list" where
  "openPlugins [] ps = ps"
| "openPlugins (InitCall n True # cs) ps = openPlugins cs (n # ps)"
| "openPlugins (InitCall n False # cs) ps = openPlugins cs ps"
| "openPlugins (CloseCall n # cs) ps = openPlugins cs (remove1 n ps)"

lemma openPlugins_append: "openPlugins (cs @ ds) ps = openPlugins ds (openPlugins cs ps)"
  by (induction cs ps rule: openPlugins.induct) auto

lemma openPlugins_close: "openPlugins (map CloseCall ns) (ns @ ps) = ps"
  by (induction ns) auto

lemma initLoop_calls:
  "openPlugins calls ps = map pl_Name opened @ base \<Longrightarrow> initLoop plugins opened calls = (calls', e) \<Longrightarrow>
    openPlugins calls' ps = (if e = None then map pl_Name (rev plugins @ opened) @ base else base)"
proof (induction plugins opened calls rule: initLoop.induct)
  case (2 p rest opened calls)
  show ?case
  proof (cases "pl_Init p")
    case None
    with 2 show ?thesis by (simp add: openPlugins_append)
  next
    case (Some err)
    then have calls': "calls' = calls @ [InitCall (pl_Name p) False] @ map CloseCall (map pl_Name opened)"
      and e: "e \<noteq> None"
      using 2(3) by (auto simp: comp_def)
    have "openPlugins calls' ps = openPlugins (map CloseCall (map pl_Name opened)) (map pl_Name opened @ base)"
      using 2(2) unfolding calls' by (simp add: openPlugins_append del: map_map)
    also have "\<dots> = base" by (rule openPlugins_close)
    finally show ?thesis using e by simp
  qed
qed auto

lemma initAll_opens:
  assumes "openPlugins (svc_pluginCalls s) [] = []" "initAll env s = (s', e)"
  shows "svc_store s' = svc_store s" "svc_tasks s' = svc_tasks s" "svc_busOpen s' = svc_busOpen s"
    and "openPlugins (svc_pluginCalls s') [] = (if e = None then map pl_Name (rev (env_plugins env)) else [])"
  using assms initLoop_calls [of "svc_pluginCalls s" "[]" "[]" "[]" "env_plugins env" "svc_pluginCalls s'" e]
  by (auto simp: initAll_def split: prod.splits)

lemma closeAll_closes:
  assumes "openPlugins (svc_pluginCalls s) [] = map pl_Name (rev (env_plugins env))" "closeAll env s = (s', e)"
  shows "svc_store s' = svc_store s" "svc_tasks s' = svc_tasks s" "svc_busOpen s' = svc_busOpen s"
      "svc_state s' = svc_state s"
    and "openPlugins (svc_pluginCalls s') [] = []"
proof -
  have s': "s' = s\<lparr>svc_pluginCalls := svc_pluginCalls s @ map CloseCall (map pl_Name (rev (env_plugins env)))\<rparr>"
    using assms(2) by (auto simp: closeAll_def comp_def)
  show "svc_store s' = svc_store s" "svc_tasks s' = svc_tasks s" "svc_busOpen s' = svc_busOpen s"
      "svc_state s' = svc_state s" by (simp_all add: s')
  have "openPlugins (svc_pluginCalls s') [] =
    openPlugins (map CloseCall (map pl_Name (rev (env_plugins env)))) (map pl_Name (rev (env_plugins env)) @ [])"
    using assms(1) by (simp add: s' openPlugins_append del: map_map)
  also have "\<dots> = []" by (rule openPlugins_close)
  finally show "openPlugins (svc_pluginCalls s') [] = []" .
qed

text \<open>A service that is closed, with the bus as the caller left it.\<close>

definition at_rest :: "'a env \<Rightarrow> 'a service \<Rightarrow> bool" where
  "at_rest env s \<longleftrightarrow> svc_state s = stateDisconnected \<and> \<not> connected (svc_store s)
     \<and> openPlugins (svc_pluginCalls s) [] = [] \<and> svc_tasks s = []"

definition enabledTasks :: "Config \<Rightarrow> task list" where
  "enabledTasks cfg = filter (\<lambda>t. case t of
      TrashCleanup \<Rightarrow> TrashCleanupInterval cfg > 0
    | ExpiredMessageCleanup \<Rightarrow> ExpiredMessageCleanupInterval cfg > 0
    | QuotaEnforcement \<Rightarrow> QuotaEnforcementInterval cfg > 0 \<and> QuotaUserLister cfg \<noteq> None)
    [TrashCleanup, ExpiredMessageCleanup, QuotaEnforcement]"

lemma startBackgroundTasks_eq: "startBackgroundTasks env s = s\<lparr>svc_tasks := enabledTasks (env_cfg env)\<rparr>"
  by (simp add: startBackgroundTasks_def enabledTasks_def Let_def)

lemma initEventBus_bus:
  assumes "initEventBus env s = (s', e)" "svc_busOpen s = env_eventBus env"
  shows "svc_store s' = svc_store s" "svc_tasks s' = svc_tasks s"
      "svc_pluginCalls s' = svc_pluginCalls s"
    and "svc_busOpen s' \<longleftrightarrow> env_eventBus env \<or> e = None"
  using assms by (auto simp: initEventBus_def Let_def split: if_splits option.splits)

lemma connectSteps_result:
  assumes "connectSteps env s = (s', e)" "\<not> connected (svc_store s)" "svc_tasks s = []"
    "openPlugins (svc_pluginCalls s) [] = []" "svc_busOpen s = env_eventBus env"
  shows "(e = None \<longrightarrow> connected (svc_store s') \<and> svc_busOpen s'
      \<and> openPlugins (svc_pluginCalls s') [] = map pl_Name (rev (env_plugins env))
      \<and> svc_tasks s' = enabledTasks (env_cfg env))
    \<and> (e \<noteq> None \<longrightarrow> \<not> connected (svc_store s') \<and> openPlugins (svc_pluginCalls s') [] = []
      \<and> svc_tasks s' = [] \<and> (svc_busOpen s' \<longleftrightarrow> env_eventBus env \<and> snd (initEventBus env s) \<noteq> None))
    \<and> messages (svc_store s') = messages (svc_store s)"
proof -
  let ?s0 = "s\<lparr>svc_store := (svc_store s)\<lparr>connected := True\<rparr>\<rparr>"
  have st: "Store_Connect (svc_store s) = ((svc_store s)\<lparr>connected := True\<rparr>, Ok ())"
    using assms(2) by (simp add: Store_Connect_def)
  obtain s1 e1 where bus: "initEventBus env ?s0 = (s1, e1)" by fastforce
  have same: "snd (initEventBus env s) = e1"
    using bus by (auto simp: initEventBus_def Let_def split: if_splits option.splits)
  note b = initEventBus_bus [OF bus, simplified, OF assms(5)]
  then have s1: "connected (svc_store s1)" "messages (svc_store s1) = messages (svc_store s)"
      "svc_tasks s1 = []" "openPlugins (svc_pluginCalls s1) [] = []"
    using assms(3,4) by simp_all
  show ?thesis
  proof (cases e1)
    case (Some err)
    then have "s' = closeStore s1" "e = Some (Wrapf err)"
      using assms(1) st bus by (simp_all add: connectSteps_def)
    with s1 b(4) same Some show ?thesis by (simp add: closeStore_def Store_Close_def)
  next
    case None
    obtain s2 e2 where pl: "initAll env s1 = (s2, e2)" by fastforce
    note ia = initAll_opens [OF s1(4) pl]
    have s2: "svc_store s2 = svc_store s1" "svc_tasks s2 = []" "svc_busOpen s2 = svc_busOpen s1"
      using ia(1-3) s1(3) by simp_all
    show ?thesis
    proof (cases e2)
      case (Some err)
      then have "s' = closeStore (s2\<lparr>svc_busOpen := False\<rparr>)" "e = Some (Wrapf err)"
        using assms(1) st bus None pl by (simp_all add: connectSteps_def)
      with s1 s2 ia(4) same None Some show ?thesis by (simp add: closeStore_def Store_Close_def)
    next
      case none2: None
      show ?thesis
      proof (cases "\<exists>err. env_registrar env = Some (Inl err)")
        case True
        then obtain err where reg: "env_registrar env = Some (Inl err)" by blast
        obtain s3 e3 where cl: "closeAll env s2 = (s3, e3)" by fastforce
        note ca = closeAll_closes [OF _ cl]
        have "s' = closeStore (s3\<lparr>svc_busOpen := False\<rparr>)" "e = Some (Wrapf err)"
          using assms(1) st bus None pl none2 reg cl by (simp_all add: connectSteps_def)
        moreover have "svc_store s3 = svc_store s1" "svc_tasks s3 = []"
          using ca(1,2) ia(4) none2 s2 by simp_all
        ultimately show ?thesis
          using s1 ca(5) ia(4) none2 same None by (simp add: closeStore_def Store_Close_def)
      next
        case False
        then have "e = None \<and> svc_store s' = svc_store s2 \<and> svc_busOpen s' = svc_busOpen s2
            \<and> svc_pluginCalls s' = svc_pluginCalls s2 \<and> svc_tasks s' = enabledTasks (env_cfg env)"
          using assms(1) st bus None pl none2
          by (auto simp: connectSteps_def startBackgroundTasks_eq split: option.splits sum.splits)
        with s1 s2 ia(4) none2 b(4) None show ?thesis by simp
      qed
    qed
  qed
qed

lemma Close_rest:
  assumes "svc_state s = stateConnected" "openPlugins (svc_pluginCalls s) [] = map pl_Name (rev (env_plugins env))"
  shows "at_rest env (fst (Close env s)) \<and> messages (svc_store (fst (Close env s))) = messages (svc_store s)"
proof -
  obtain s3 e3 where cl: "closeAll env (s\<lparr>svc_state := stateDisconnected, svc_tasks := []\<rparr>) = (s3, e3)"
    by fastforce
  note ca = closeAll_closes [OF _ cl, simplified, OF assms(2)]
  show ?thesis
    using assms(1) cl ca by (simp add: Close_def at_rest_def Let_def closeStore_def Store_Close_def)
qed

text \<open>
  C25: Connecting is all or nothing. On success the store is connected, the bus and every plugin
  are open, exactly the configured background tasks run, and \<open>Close\<close> takes all of it down again.
  On failure the service is as closed as before: the store is disconnected, every plugin that
  was initialized has been closed, in reverse order, and no task runs. A bus that the service
  created is closed too; but a bus that the caller provided is closed as well when a plugin or
  the registrar fails, and left open only when its own setup fails. No message is touched.
\<close>

theorem Connect_all_or_nothing:
  assumes "at_rest env s" "svc_busOpen s = env_eventBus env"
  shows "case Connect env s of
      (s', None) \<Rightarrow> IsConnected s' \<and> connected (svc_store s') \<and> svc_busOpen s'
        \<and> openPlugins (svc_pluginCalls s') [] = map pl_Name (rev (env_plugins env))
        \<and> svc_tasks s' = enabledTasks (env_cfg env)
        \<and> messages (svc_store s') = messages (svc_store s)
        \<and> at_rest env (fst (Close env s'))
        \<and> messages (svc_store (fst (Close env s'))) = messages (svc_store s)
    | (s', Some e) \<Rightarrow> at_rest env s' \<and> messages (svc_store s') = messages (svc_store s)
        \<and> (svc_busOpen s' \<longleftrightarrow> env_eventBus env \<and> snd (initEventBus env s) \<noteq> None)"
proof -
  obtain s1 e where c: "connectSteps env (s\<lparr>svc_state := stateConnecting\<rparr>) = (s1, e)" by fastforce
  have bus: "snd (initEventBus env (s\<lparr>svc_state := stateConnecting\<rparr>)) = snd (initEventBus env s)"
    by (simp add: initEventBus_def Let_def split: option.splits)
  note r = connectSteps_result [OF c, simplified, unfolded bus]
  show ?thesis
  proof (cases e)
    case None
    then have eq: "Connect env s = (s1\<lparr>svc_state := stateConnected\<rparr>, None)"
      using c assms(1) by (simp add: Connect_def at_rest_def)
    show ?thesis
      using r None assms Close_rest [of "s1\<lparr>svc_state := stateConnected\<rparr>" env]
      by (simp add: eq at_rest_def IsConnected_def)
  next
    case (Some err)
    then have eq: "Connect env s = (s1\<lparr>svc_state := stateDisconnected\<rparr>, Some err)"
      using c assms(1) by (simp add: Connect_def at_rest_def)
    show ?thesis using r Some assms by (simp add: eq at_rest_def)
  qed
qed

definition demoPlugins :: "Plugin list" where
  "demoPlugins = [\<lparr>pl_Name = ''audit'', pl_Init = None, pl_Close = None, pl_Hook = None\<rparr>,
     \<lparr>pl_Name = ''limit'', pl_Init = Some (ExternalError 9), pl_Close = None, pl_Hook = None\<rparr>]"

theorem Connect_all_or_nothing_witness:
  "let env = demoEnv\<lparr>env_eventBus := True, env_plugins := demoPlugins\<rparr>;
       s = snd (New env Store_New ([], []))
   in at_rest env s \<and> svc_busOpen s = env_eventBus env
      \<and> snd (Connect env s) = Some (Wrapf (PluginError ''limit'' ''init'' (ExternalError 9)))
      \<and> at_rest env (fst (Connect env s)) \<and> \<not> svc_busOpen (fst (Connect env s))"
proof -
  let ?env = "demoEnv\<lparr>env_eventBus := True, env_plugins := demoPlugins\<rparr>"
  let ?s = "snd (New ?env Store_New ([], []))"
  have rest: "at_rest ?env ?s" "svc_busOpen ?s = env_eventBus ?env"
    by (simp_all add: at_rest_def New_def Store_New_def)
  have e: "snd (Connect ?env ?s) = Some (Wrapf (PluginError ''limit'' ''init'' (ExternalError 9)))"
      "snd (initEventBus ?env ?s) = None"
    by (simp_all add: Connect_def connectSteps_def initEventBus_def New_def Store_New_def Store_Connect_def
        initAll_def demoEnv_def demoPlugins_def Let_def)
  have "at_rest ?env (fst (Connect ?env ?s)) \<and> \<not> svc_busOpen (fst (Connect ?env ?s))"
    using Connect_all_or_nothing [OF rest] e by (auto split: prod.splits option.splits)
  with rest e show ?thesis unfolding Let_def by blast
qed

end
