(* ===== verification/Mailbox_Stats.thy ===== *)
theory Mailbox_Stats
  imports Mailbox_Service
begin

text \<open>
  The cache of the mailbox statistics, \<open>stats.go\<close>: the entries by owner, their refresh from the
  store when they are older than the configured interval, and the handlers that update an entry
  from the events of the service. The entry of an owner is locked during each of these calls, so
  each is one step. The distributed second level is an interface (\<open>env_statsDistCache\<close> is the
  answer of its \<open>Get\<close>); the calls that change it are recorded.
\<close>

definition StatsCacheFieldTotal :: string where "StatsCacheFieldTotal = ''total''"
definition StatsCacheFieldUnread :: string where "StatsCacheFieldUnread = ''unread''"

definition StatsCacheFolderTotal :: "string \<Rightarrow> string" where
  "StatsCacheFolderTotal folder = ''folder:'' @ folder @ '':total''"

definition StatsCacheFolderUnread :: "string \<Rightarrow> string" where
  "StatsCacheFolderUnread folder = ''folder:'' @ folder @ '':unread''"

section \<open>The cache\<close>

definition getOrRefreshStats ::
    "'a env \<Rightarrow> time \<Rightarrow> string \<Rightarrow> 'a service \<Rightarrow> 'a service \<times> (error, MailboxStats) res" where
  "getOrRefreshStats env now owner s =
    (if \<not> svc_statsEnabled s then
       (s, case Store_MailboxStats now owner (svc_store s) of
             Ok st \<Rightarrow> Ok st | Err e \<Rightarrow> Err (StoreErr e) | Panic \<Rightarrow> Panic)
     else
       let entry = (case map_of (svc_stats s) owner of
             Some en \<Rightarrow> en | None \<Rightarrow> \<lparr>se_stats = None, se_updatedAt = zeroTime\<rparr>);
           s = s\<lparr>svc_stats := AList.update owner entry (svc_stats s)\<rparr>;
           refresh = (
             case (case env_statsDistCache env of Some get \<Rightarrow> get owner | None \<Rightarrow> Inr None) of
               Inr (Some dist) \<Rightarrow>
                 (s\<lparr>svc_stats := AList.update owner \<lparr>se_stats = Some dist, se_updatedAt = now\<rparr> (svc_stats s)\<rparr>,
                  Ok dist)
             | _ \<Rightarrow>
                 (case Store_MailboxStats now owner (svc_store s) of
                    Err e \<Rightarrow> (s, Err (StoreErr e))
                  | Panic \<Rightarrow> (s, Panic)
                  | Ok stats \<Rightarrow>
                      let s = s\<lparr>svc_stats := AList.update owner \<lparr>se_stats = Some stats, se_updatedAt = now\<rparr> (svc_stats s)\<rparr>
                      in (if env_statsDistCache env \<noteq> None
                          then s\<lparr>svc_distCalls := svc_distCalls s @
                                  [DistSet owner stats (StatsRefreshInterval (env_cfg env))]\<rparr>
                          else s, Ok stats)))
       in (case se_stats entry of
             Some stats \<Rightarrow>
               if now - se_updatedAt entry < StatsRefreshInterval (env_cfg env) then (s, Ok stats) else refresh
           | None \<Rightarrow> refresh))"

definition updateCachedStats :: "string \<Rightarrow> (MailboxStats \<Rightarrow> MailboxStats) \<Rightarrow> 'a service \<Rightarrow> 'a service" where
  "updateCachedStats owner fn s =
    (case map_of (svc_stats s) owner of
       None \<Rightarrow> s
     | Some entry \<Rightarrow>
         (case se_stats entry of
            None \<Rightarrow> s
          | Some stats \<Rightarrow>
              s\<lparr>svc_stats := AList.update owner (entry\<lparr>se_stats := Some (fn stats)\<rparr>) (svc_stats s)\<rparr>))"

definition incrDistCache :: "'a env \<Rightarrow> string \<Rightarrow> string \<Rightarrow> int \<Rightarrow> 'a service \<Rightarrow> 'a service" where
  "incrDistCache env owner field delta s =
    (if env_statsDistCache env = None \<or> delta = 0 then s
     else s\<lparr>svc_distCalls := svc_distCalls s @ [DistIncrBy owner field delta]\<rparr>)"

section \<open>The event handlers\<close>

definition sentStats :: "MailboxStats \<Rightarrow> MailboxStats" where
  "sentStats stats =
    (let stats = stats\<lparr>TotalMessages := TotalMessages stats + 1\<rparr>;
         c = folderCounts (Folders stats) FolderSent;
         c = c\<lparr>fc_Total := fc_Total c + 1\<rparr>
     in stats\<lparr>Folders := AList.update FolderSent c (Folders stats)\<rparr>)"

definition receivedStats :: "MailboxStats \<Rightarrow> MailboxStats" where
  "receivedStats stats =
    (let stats = stats\<lparr>TotalMessages := TotalMessages stats + 1, UnreadCount := UnreadCount stats + 1\<rparr>;
         c = folderCounts (Folders stats) FolderInbox;
         c = c\<lparr>fc_Total := fc_Total c + 1, fc_Unread := fc_Unread c + 1\<rparr>
     in stats\<lparr>Folders := AList.update FolderInbox c (Folders stats)\<rparr>)"

definition receiveOne :: "'a env \<Rightarrow> 'a service \<Rightarrow> string \<Rightarrow> 'a service" where
  "receiveOne env s recipientID =
    incrDistCache env recipientID (StatsCacheFolderUnread FolderInbox) 1
    (incrDistCache env recipientID (StatsCacheFolderTotal FolderInbox) 1
    (incrDistCache env recipientID StatsCacheFieldUnread 1
    (incrDistCache env recipientID StatsCacheFieldTotal 1
    (updateCachedStats recipientID receivedStats s))))"

definition onMessageSent :: "'a env \<Rightarrow> string \<Rightarrow> string list \<Rightarrow> 'a service \<Rightarrow> 'a service" where
  "onMessageSent env sender recipients s =
    foldl (receiveOne env)
      (incrDistCache env sender (StatsCacheFolderTotal FolderSent) 1
      (incrDistCache env sender StatsCacheFieldTotal 1
      (updateCachedStats sender sentStats s))) recipients"

definition readStats :: "string \<Rightarrow> MailboxStats \<Rightarrow> MailboxStats" where
  "readStats folder stats =
    (let stats = (if UnreadCount stats > 0 then stats\<lparr>UnreadCount := UnreadCount stats - 1\<rparr> else stats) in
     if folder \<noteq> '''' then
       let c = folderCounts (Folders stats) folder in
       if fc_Unread c > 0
       then stats\<lparr>Folders := AList.update folder (c\<lparr>fc_Unread := fc_Unread c - 1\<rparr>) (Folders stats)\<rparr>
       else stats
     else stats)"

definition onMessageRead :: "'a env \<Rightarrow> string \<Rightarrow> string \<Rightarrow> 'a service \<Rightarrow> 'a service" where
  "onMessageRead env userID folder s =
    (let s = incrDistCache env userID StatsCacheFieldUnread (-1) (updateCachedStats userID (readStats folder) s) in
     if folder \<noteq> '''' then incrDistCache env userID (StatsCacheFolderUnread folder) (-1) s else s)"

definition deletedStats :: "string \<Rightarrow> bool \<Rightarrow> MailboxStats \<Rightarrow> MailboxStats" where
  "deletedStats folder wasUnread stats =
    (let stats = (if TotalMessages stats > 0 then stats\<lparr>TotalMessages := TotalMessages stats - 1\<rparr> else stats);
         stats = (if wasUnread \<and> UnreadCount stats > 0 then stats\<lparr>UnreadCount := UnreadCount stats - 1\<rparr> else stats) in
     if folder \<noteq> '''' then
       let c = folderCounts (Folders stats) folder;
           c = (if fc_Total c > 0 then c\<lparr>fc_Total := fc_Total c - 1\<rparr> else c);
           c = (if wasUnread \<and> fc_Unread c > 0 then c\<lparr>fc_Unread := fc_Unread c - 1\<rparr> else c)
       in stats\<lparr>Folders := AList.update folder c (Folders stats)\<rparr>
     else stats)"

definition onMessageDeleted :: "'a env \<Rightarrow> string \<Rightarrow> string \<Rightarrow> bool \<Rightarrow> 'a service \<Rightarrow> 'a service" where
  "onMessageDeleted env userID folder wasUnread s =
    (let s = incrDistCache env userID StatsCacheFieldTotal (-1)
           (updateCachedStats userID (deletedStats folder wasUnread) s);
         s = (if wasUnread then incrDistCache env userID StatsCacheFieldUnread (-1) s else s) in
     if folder \<noteq> '''' then
       let s = incrDistCache env userID (StatsCacheFolderTotal folder) (-1) s
       in if wasUnread then incrDistCache env userID (StatsCacheFolderUnread folder) (-1) s else s
     else s)"

definition movedStats :: "string \<Rightarrow> string \<Rightarrow> bool \<Rightarrow> MailboxStats \<Rightarrow> MailboxStats" where
  "movedStats fromFolderID toFolderID wasUnread stats =
    (let stats =
         (if fromFolderID \<noteq> '''' then
            let c = folderCounts (Folders stats) fromFolderID;
                c = (if fc_Total c > 0 then c\<lparr>fc_Total := fc_Total c - 1\<rparr> else c);
                c = (if wasUnread \<and> fc_Unread c > 0 then c\<lparr>fc_Unread := fc_Unread c - 1\<rparr> else c)
            in stats\<lparr>Folders := AList.update fromFolderID c (Folders stats)\<rparr>
          else stats) in
     if toFolderID \<noteq> '''' then
       let c = folderCounts (Folders stats) toFolderID;
           c = c\<lparr>fc_Total := fc_Total c + 1\<rparr>;
           c = (if wasUnread then c\<lparr>fc_Unread := fc_Unread c + 1\<rparr> else c)
       in stats\<lparr>Folders := AList.update toFolderID c (Folders stats)\<rparr>
     else stats)"

definition onMessageMoved :: "'a env \<Rightarrow> string \<Rightarrow> string \<Rightarrow> string \<Rightarrow> bool \<Rightarrow> 'a service \<Rightarrow> 'a service" where
  "onMessageMoved env userID fromFolderID toFolderID wasUnread s =
    (let s = updateCachedStats userID (movedStats fromFolderID toFolderID wasUnread) s;
         s = (if fromFolderID \<noteq> '''' then
                let s = incrDistCache env userID (StatsCacheFolderTotal fromFolderID) (-1) s
                in if wasUnread then incrDistCache env userID (StatsCacheFolderUnread fromFolderID) (-1) s else s
              else s) in
     if toFolderID \<noteq> '''' then
       let s = incrDistCache env userID (StatsCacheFolderTotal toFolderID) 1 s
       in if wasUnread then incrDistCache env userID (StatsCacheFolderUnread toFolderID) 1 s else s
     else s)"

text \<open>
  The handlers that \<open>initEventBus\<close> subscribes: the delivery of one published event to the cache.
  \<open>MessageReceived\<close> and \<open>MarkAllRead\<close> have no statistics handler.
\<close>

fun handleEvent :: "'a env \<Rightarrow> mailbox_event \<Rightarrow> 'a service \<Rightarrow> 'a service" where
  "handleEvent env (MessageSentEvent _ sender recipients _ _) s = onMessageSent env sender recipients s"
| "handleEvent env (MessageReadEvent _ userID folder _) s = onMessageRead env userID folder s"
| "handleEvent env (MessageDeletedEvent _ userID folder wasUnread _) s =
    onMessageDeleted env userID folder wasUnread s"
| "handleEvent env (MessageMovedEvent _ userID fromFolderID toFolderID wasUnread _) s =
    onMessageMoved env userID fromFolderID toFolderID wasUnread s"
| "handleEvent env _ s = s"

section \<open>Reading the statistics\<close>

definition mb_Stats ::
    "'a env \<Rightarrow> time \<Rightarrow> string \<Rightarrow> 'a service \<Rightarrow> 'a service \<times> (error, MailboxStats) res" where
  "mb_Stats env now userID s =
    (case checkAccess userID s of Some e \<Rightarrow> (s, Err e) | None \<Rightarrow> getOrRefreshStats env now userID s)"

definition mb_UnreadCount ::
    "'a env \<Rightarrow> time \<Rightarrow> string \<Rightarrow> 'a service \<Rightarrow> 'a service \<times> (error, int) res" where
  "mb_UnreadCount env now userID s =
    (case checkAccess userID s of
       Some e \<Rightarrow> (s, Err e)
     | None \<Rightarrow>
         (case getOrRefreshStats env now userID s of
            (s, Ok stats) \<Rightarrow> (s, Ok (UnreadCount stats))
          | (s, Err e) \<Rightarrow> (s, Err e)
          | (s, Panic) \<Rightarrow> (s, Panic)))"

end
