(* ===== verification/Mailbox_Mutate.thy ===== *)
theory Mailbox_Mutate
  imports Mailbox_Stats
begin

text \<open>
  The operations of a user's mailbox that change messages: \<open>mutate.go\<close>, the flags of \<open>flags.go\<close>
  and the bulk operations by identifier of \<open>bulk.go\<close>. The user of the mailbox is the argument
  \<open>userID\<close>.

  The in-memory store implements the bulk interfaces, so the operations by filter take their
  fast path, except \<open>UpdateByFilter\<close> with no read flag, which falls through to its loop over the
  pages of the listing.
\<close>

section \<open>Flags\<close>

record Flags =
  flag_Read :: "bool option"
  flag_Archived :: "bool option"

definition NewFlags :: Flags where "NewFlags = \<lparr>flag_Read = None, flag_Archived = None\<rparr>"

definition WithRead :: "bool \<Rightarrow> Flags \<Rightarrow> Flags" where
  "WithRead read f = (if read then f\<lparr>flag_Read := Some True\<rparr> else f\<lparr>flag_Read := Some False\<rparr>)"

definition WithArchived :: "bool \<Rightarrow> Flags \<Rightarrow> Flags" where
  "WithArchived archived f =
    (if archived then f\<lparr>flag_Archived := Some True\<rparr> else f\<lparr>flag_Archived := Some False\<rparr>)"

definition MarkReadFlags :: Flags where "MarkReadFlags = \<lparr>flag_Read = Some True, flag_Archived = None\<rparr>"
definition MarkUnreadFlags :: Flags where "MarkUnreadFlags = \<lparr>flag_Read = Some False, flag_Archived = None\<rparr>"
definition MarkArchivedFlags :: Flags where "MarkArchivedFlags = \<lparr>flag_Read = None, flag_Archived = Some True\<rparr>"
definition MarkUnarchivedFlags :: Flags where "MarkUnarchivedFlags = \<lparr>flag_Read = None, flag_Archived = Some False\<rparr>"

section \<open>Helpers\<close>

definition defaultFolderForMessage :: "message \<Rightarrow> string" where
  "defaultFolderForMessage msg =
    (if IsSentByOwner (ownerID msg) (senderID msg) then FolderSent else FolderInbox)"

definition canAccess :: "string \<Rightarrow> message \<Rightarrow> bool" where
  "canAccess userID msg \<longleftrightarrow> ownerID msg = userID"

text \<open>\<open>Store_Get\<close> does not panic, so the last case does not occur.\<close>

definition getAndVerify :: "string \<Rightarrow> string \<Rightarrow> 'a service \<Rightarrow> error + message" where
  "getAndVerify userID messageID s =
    (case Store_Get messageID (svc_store s) of
       Err e \<Rightarrow> Inl (Wrapf (StoreErr e))
     | Ok msg \<Rightarrow> if \<not> canAccess userID msg then Inl (Sentinel ErrUnauthorized) else Inr msg
     | Panic \<Rightarrow> Inl (ExternalError 0))"

definition moveAndPublish ::
    "'a env \<Rightarrow> time \<Rightarrow> string \<Rightarrow> string \<Rightarrow> string \<Rightarrow> string \<Rightarrow> bool \<Rightarrow> string list \<Rightarrow>
     'a service \<Rightarrow> 'a service \<times> error option" where
  "moveAndPublish env now messageID userID fromFolderID toFolderID wasUnread opts s =
    (if fromFolderID = toFolderID then (s, None)
     else opAndPublish env EventNameMessageMoved messageID
       (MessageMovedEvent messageID userID fromFolderID toFolderID wasUnread now)
       (Store_MoveToFolder now toFolderID opts messageID) s)"

text \<open>\<open>if err != nil { return fmt.Errorf("...: %w", err) }\<close> as the last step.\<close>

definition wrapErr :: "'s \<times> error option \<Rightarrow> 's \<times> error option" where
  "wrapErr r = (case r of (s, e) \<Rightarrow> (s, map_option Wrapf e))"

section \<open>Single messages\<close>

text \<open>The second half of \<open>UpdateFlags\<close>, which sets the read flag.\<close>

definition updateReadFlag ::
    "'a env \<Rightarrow> time \<Rightarrow> string \<Rightarrow> string \<Rightarrow> Flags \<Rightarrow> string \<Rightarrow> 'a service \<Rightarrow> 'a service \<times> error option" where
  "updateReadFlag env now userID messageID flags currentFolderID s =
    (case flag_Read flags of
       None \<Rightarrow> (s, None)
     | Some True \<Rightarrow>
         wrapErr (opAndPublish env EventNameMessageRead messageID
           (MessageReadEvent messageID userID currentFolderID now) (Store_MarkRead now True messageID) s)
     | Some False \<Rightarrow>
         (case Store_MarkRead now False messageID (svc_store s) of
            (st, r) \<Rightarrow> wrapErr (s\<lparr>svc_store := st\<rparr>, storeErr r)))"

definition mb_UpdateFlags ::
    "'a env \<Rightarrow> time \<Rightarrow> string \<Rightarrow> string \<Rightarrow> Flags \<Rightarrow> 'a service \<Rightarrow> 'a service \<times> error option" where
  "mb_UpdateFlags env now userID messageID flags s =
    (case checkAccess userID s of Some e \<Rightarrow> (s, Some e) | None \<Rightarrow>
     if flag_Read flags = None \<and> flag_Archived flags = None then (s, None)
     else (case getAndVerify userID messageID s of Inl e \<Rightarrow> (s, Some e) | Inr msg \<Rightarrow>
       let folder = (case flag_Archived flags of
             None \<Rightarrow> folderID msg
           | Some True \<Rightarrow> FolderArchived
           | Some False \<Rightarrow> defaultFolderForMessage msg)
       in (case (if flag_Archived flags \<noteq> None
                 then moveAndPublish env now messageID userID (folderID msg) folder (\<not> isRead msg) [] s
                 else (s, None)) of
             (s, Some e) \<Rightarrow> (s, Some (Wrapf e))
           | (s, None) \<Rightarrow> updateReadFlag env now userID messageID flags folder s)))"

definition mb_Delete :: "'a env \<Rightarrow> time \<Rightarrow> string \<Rightarrow> string \<Rightarrow> 'a service \<Rightarrow> 'a service \<times> error option" where
  "mb_Delete env now userID messageID s =
    (case checkAccess userID s of Some e \<Rightarrow> (s, Some e) | None \<Rightarrow>
     (case getAndVerify userID messageID s of Inl e \<Rightarrow> (s, Some e) | Inr msg \<Rightarrow>
      if folderID msg = FolderTrash then (s, Some (Sentinel ErrAlreadyInTrash))
      else wrapErr (moveAndPublish env now messageID userID (folderID msg) FolderTrash (\<not> isRead msg) [] s)))"

definition mb_Restore :: "'a env \<Rightarrow> time \<Rightarrow> string \<Rightarrow> string \<Rightarrow> 'a service \<Rightarrow> 'a service \<times> error option" where
  "mb_Restore env now userID messageID s =
    (case checkAccess userID s of Some e \<Rightarrow> (s, Some e) | None \<Rightarrow>
     (case getAndVerify userID messageID s of Inl e \<Rightarrow> (s, Some e) | Inr msg \<Rightarrow>
      if folderID msg \<noteq> FolderTrash then (s, Some (Sentinel ErrNotInTrash))
      else wrapErr (moveAndPublish env now messageID userID FolderTrash (defaultFolderForMessage msg) (\<not> isRead msg) [] s)))"

definition mb_PermanentlyDelete ::
    "'a env \<Rightarrow> time \<Rightarrow> string \<Rightarrow> string \<Rightarrow> 'a service \<Rightarrow> 'a service \<times> error option" where
  "mb_PermanentlyDelete env now userID messageID s =
    (case checkAccess userID s of Some e \<Rightarrow> (s, Some e) | None \<Rightarrow>
     (case getAndVerify userID messageID s of Inl e \<Rightarrow> (s, Some e) | Inr msg \<Rightarrow>
      if folderID msg \<noteq> FolderTrash then (s, Some (Sentinel ErrNotInTrash))
      else (case opAndPublish env EventNameMessageDeleted messageID
              (MessageDeletedEvent messageID userID (folderID msg) (\<not> isRead msg) now)
              (Store_HardDelete messageID) s of
              (s, Some e) \<Rightarrow> (s, Some (Wrapf e))
            | (s, None) \<Rightarrow>
                (case releaseAttachmentRefs (env_attachments env) msg (svc_atts s) of
                   (a, _) \<Rightarrow> (s\<lparr>svc_atts := a\<rparr>, None)))))"

definition mb_MoveToFolder ::
    "'a env \<Rightarrow> time \<Rightarrow> string \<Rightarrow> string \<Rightarrow> string \<Rightarrow> string list \<Rightarrow> 'a service \<Rightarrow> 'a service \<times> error option" where
  "mb_MoveToFolder env now userID messageID folder opts s =
    (case checkAccess userID s of Some e \<Rightarrow> (s, Some e) | None \<Rightarrow>
     if \<not> IsValidFolderID folder then (s, Some (errf MErrInvalidFolderID))
     else if ApplyMoveOptions opts \<noteq> '''' \<and> \<not> IsValidFolderID (ApplyMoveOptions opts)
       then (s, Some (errf MErrInvalidFolderID))
     else (case getAndVerify userID messageID s of Inl e \<Rightarrow> (s, Some e) | Inr msg \<Rightarrow>
       moveAndPublish env now messageID userID (folderID msg) folder (\<not> isRead msg) opts s))"

definition validateTag :: "string \<Rightarrow> error option" where
  "validateTag tagID =
    (if tagID = '''' then Some (errf MErrInvalidID)
     else if \<not> isValidTagID tagID then Some (errf MErrInvalidID)
     else if len tagID > MaxTagIDLength then Some (errf MErrInvalidID)
     else None)"

definition mb_AddTag :: "time \<Rightarrow> string \<Rightarrow> string \<Rightarrow> string \<Rightarrow> 'a service \<Rightarrow> 'a service \<times> error option" where
  "mb_AddTag now userID messageID tagID s =
    (case checkAccess userID s of Some e \<Rightarrow> (s, Some e) | None \<Rightarrow>
     (case validateTag tagID of Some e \<Rightarrow> (s, Some e) | None \<Rightarrow>
     (case getAndVerify userID messageID s of Inl e \<Rightarrow> (s, Some e) | Inr msg \<Rightarrow>
      (case Store_AddTag now tagID messageID (svc_store s) of
         (st, r) \<Rightarrow> wrapErr (s\<lparr>svc_store := st\<rparr>, storeErr r)))))"

definition mb_RemoveTag :: "time \<Rightarrow> string \<Rightarrow> string \<Rightarrow> string \<Rightarrow> 'a service \<Rightarrow> 'a service \<times> error option" where
  "mb_RemoveTag now userID messageID tagID s =
    (case checkAccess userID s of Some e \<Rightarrow> (s, Some e) | None \<Rightarrow>
     (case validateTag tagID of Some e \<Rightarrow> (s, Some e) | None \<Rightarrow>
     (case getAndVerify userID messageID s of Inl e \<Rightarrow> (s, Some e) | Inr msg \<Rightarrow>
      (case Store_RemoveTag now tagID messageID (svc_store s) of
         (st, r) \<Rightarrow> wrapErr (s\<lparr>svc_store := st\<rparr>, storeErr r)))))"

definition markAllReadStats :: "string \<Rightarrow> int \<Rightarrow> MailboxStats \<Rightarrow> MailboxStats" where
  "markAllReadStats folder cnt stats =
    (let stats = (if UnreadCount stats \<ge> cnt then stats\<lparr>UnreadCount := UnreadCount stats - cnt\<rparr>
                  else stats\<lparr>UnreadCount := 0\<rparr>);
         c = folderCounts (Folders stats) folder;
         c = (if fc_Unread c \<ge> cnt then c\<lparr>fc_Unread := fc_Unread c - cnt\<rparr> else c\<lparr>fc_Unread := 0\<rparr>)
     in stats\<lparr>Folders := AList.update folder c (Folders stats)\<rparr>)"

definition mb_MarkAllRead ::
    "'a env \<Rightarrow> time \<Rightarrow> string \<Rightarrow> string \<Rightarrow> 'a service \<Rightarrow> 'a service \<times> int \<times> error option" where
  "mb_MarkAllRead env now userID folder s =
    (case checkAccess userID s of Some e \<Rightarrow> (s, 0, Some e) | None \<Rightarrow>
     (case Store_MarkAllRead now userID folder (svc_store s) of
        (st, Ok n) \<Rightarrow>
          let s = s\<lparr>svc_store := st\<rparr> in
          if n > 0 then
            (case publishOnly env EventNameMarkAllRead folder (MarkAllReadEvent userID folder n now)
               (updateCachedStats userID (markAllReadStats folder n) s) of
               (s, e) \<Rightarrow> (s, n, e))
          else (s, n, None)
      | (st, r) \<Rightarrow> (s\<lparr>svc_store := st\<rparr>, 0, map_option Wrapf (storeErr r))))"

section \<open>Operations by filter\<close>

definition scopedFilters :: "string \<Rightarrow> Filter list \<Rightarrow> Filter list" where
  "scopedFilters userID filters = [OwnerIs userID, IsDraftFilter False] @ filters"

text \<open>The result of a bulk call of the store: the count, and the error.\<close>

definition bulkReturn :: "'a service \<Rightarrow> Store \<times> (store_error, int) res \<Rightarrow> 'a service \<times> int \<times> error option" where
  "bulkReturn s r = (case r of
      (st, Ok n) \<Rightarrow> (s\<lparr>svc_store := st\<rparr>, n, None)
    | (st, q) \<Rightarrow> (s\<lparr>svc_store := st\<rparr>, 0, storeErr q))"

text \<open>
  The loop of \<open>UpdateByFilter\<close> over the pages; \<^const>\<open>None\<close> when it does not return.
\<close>

definition markEach :: "time \<Rightarrow> bool \<Rightarrow> message list \<Rightarrow> Store \<Rightarrow> int \<Rightarrow> Store \<times> int" where
  "markEach now read msgs st cnt =
    foldl (\<lambda>(st, cnt) msg. case Store_MarkRead now read (msgID msg) st of
        (st, Ok _) \<Rightarrow> (st, cnt + 1) | (st, _) \<Rightarrow> (st, cnt)) (st, cnt) msgs"

partial_function (option) updateLoop ::
    "int \<Rightarrow> time \<Rightarrow> Filter list \<Rightarrow> bool \<Rightarrow> string \<Rightarrow> int \<Rightarrow> Store \<Rightarrow> (Store \<times> int \<times> error option) option" where
  [code]: "updateLoop limit now filters read cursor cnt st =
    (case Store_Find now filters \<lparr>Limit = limit, Offset = 0, SortBy = '''', Order = 0, StartAfter = cursor\<rparr> st of
       Err e \<Rightarrow> Some (st, cnt, Some (StoreErr e))
     | Panic \<Rightarrow> None
     | Ok list \<Rightarrow>
         (case markEach now read (ml_Messages list) st cnt of
            (st, cnt) \<Rightarrow>
              if \<not> ml_HasMore list \<or> ml_Messages list = [] then Some (st, cnt, None)
              else updateLoop limit now filters read (msgID (last (ml_Messages list))) cnt st))"

definition mb_UpdateByFilter ::
    "'a env \<Rightarrow> time \<Rightarrow> string \<Rightarrow> Filter list \<Rightarrow> Flags \<Rightarrow> 'a service \<Rightarrow> ('a service \<times> int \<times> error option) option" where
  "mb_UpdateByFilter env now userID filters flags s =
    (case checkAccess userID s of Some e \<Rightarrow> Some (s, 0, Some e) | None \<Rightarrow>
     let scoped = scopedFilters userID filters in
     (case flag_Read flags of
        Some read \<Rightarrow> Some (bulkReturn s (Store_MarkReadByFilter now read userID scoped (svc_store s)))
      | None \<Rightarrow>
          map_option (\<lambda>(st, cnt, e). (s\<lparr>svc_store := st\<rparr>, cnt, e))
            (updateLoop (MaxQueryLimit (env_cfg env)) now scoped False '''' 0 (svc_store s))))"

definition mb_MoveByFilter ::
    "time \<Rightarrow> string \<Rightarrow> Filter list \<Rightarrow> string \<Rightarrow> 'a service \<Rightarrow> 'a service \<times> int \<times> error option" where
  "mb_MoveByFilter now userID filters folder s =
    (case checkAccess userID s of Some e \<Rightarrow> (s, 0, Some e) | None \<Rightarrow>
     bulkReturn s (Store_MoveByFilter now folder userID (scopedFilters userID filters) (svc_store s)))"

definition mb_DeleteByFilter ::
    "time \<Rightarrow> string \<Rightarrow> Filter list \<Rightarrow> 'a service \<Rightarrow> 'a service \<times> int \<times> error option" where
  "mb_DeleteByFilter now userID filters s =
    (case checkAccess userID s of Some e \<Rightarrow> (s, 0, Some e) | None \<Rightarrow>
     bulkReturn s (Store_DeleteByFilter now userID (scopedFilters userID filters) (svc_store s)))"

definition mb_TagByFilter ::
    "time \<Rightarrow> string \<Rightarrow> Filter list \<Rightarrow> string \<Rightarrow> 'a service \<Rightarrow> 'a service \<times> int \<times> error option" where
  "mb_TagByFilter now userID filters tagID s =
    (case checkAccess userID s of Some e \<Rightarrow> (s, 0, Some e) | None \<Rightarrow>
     bulkReturn s (Store_AddTagByFilter now tagID userID (scopedFilters userID filters) (svc_store s)))"

definition mb_UntagByFilter ::
    "time \<Rightarrow> string \<Rightarrow> Filter list \<Rightarrow> string \<Rightarrow> 'a service \<Rightarrow> 'a service \<times> int \<times> error option" where
  "mb_UntagByFilter now userID filters tagID s =
    (case checkAccess userID s of Some e \<Rightarrow> (s, 0, Some e) | None \<Rightarrow>
     bulkReturn s (Store_RemoveTagByFilter now tagID userID (scopedFilters userID filters) (svc_store s)))"

section \<open>Bulk operations by identifier\<close>

record OperationResult =
  or_ID :: string
  or_Success :: bool
  or_Error :: "error option"

type_synonym BulkResult = "OperationResult list"

definition SuccessCount :: "BulkResult \<Rightarrow> int" where
  "SuccessCount r = foldl (\<lambda>cnt res. if or_Success res then cnt + 1 else cnt) 0 r"

definition FailureCount :: "BulkResult \<Rightarrow> int" where
  "FailureCount r = foldl (\<lambda>cnt res. if \<not> or_Success res then cnt + 1 else cnt) 0 r"

definition HasFailures :: "BulkResult \<Rightarrow> bool" where
  "HasFailures r \<longleftrightarrow> (\<exists>res \<in> set r. \<not> or_Success res)"

definition TotalCount :: "BulkResult \<Rightarrow> int" where "TotalCount r = len r"

definition BulkFailedIDs :: "BulkResult \<Rightarrow> string list" where
  "BulkFailedIDs r = map or_ID (filter (\<lambda>res. \<not> or_Success res) r)"

definition SuccessfulIDs :: "BulkResult \<Rightarrow> string list" where
  "SuccessfulIDs r = map or_ID (filter or_Success r)"

definition BulkErr :: "BulkResult \<Rightarrow> error option" where
  "BulkErr r = (if \<not> HasFailures r then None
     else Some (BulkOperationError (map the (filter (\<lambda>e. e \<noteq> None) (map or_Error r)))))"

text \<open>\<open>ctxErr i\<close> is what \<open>ctx.Err()\<close> returns before item number \<open>i\<close>.\<close>

fun bulkLoop ::
    "(nat \<Rightarrow> error option) \<Rightarrow> (string \<Rightarrow> 's \<Rightarrow> 's \<times> error option) \<Rightarrow> nat \<Rightarrow> string list \<Rightarrow> 's \<Rightarrow> 's \<times> BulkResult" where
  "bulkLoop ctxErr op i [] s = (s, [])"
| "bulkLoop ctxErr op i (x # rest) s =
    (case ctxErr i of
       Some err \<Rightarrow> (s, map (\<lambda>r. \<lparr>or_ID = r, or_Success = False, or_Error = Some err\<rparr>) (x # rest))
     | None \<Rightarrow>
         (case op x s of
            (s, e) \<Rightarrow>
              (case bulkLoop ctxErr op (i + 1) rest s of
                 (s, results) \<Rightarrow> (s, \<lparr>or_ID = x, or_Success = (e = None), or_Error = e\<rparr> # results))))"

definition bulkOp ::
    "(nat \<Rightarrow> error option) \<Rightarrow> string \<Rightarrow> string list \<Rightarrow> (string \<Rightarrow> 'a service \<Rightarrow> 'a service \<times> error option) \<Rightarrow>
     'a service \<Rightarrow> 'a service \<times> BulkResult \<times> error option" where
  "bulkOp ctxErr userID messageIDs op s =
    (case checkAccess userID s of Some e \<Rightarrow> (s, [], Some e) | None \<Rightarrow>
     (case bulkLoop ctxErr op 0 messageIDs s of (s, result) \<Rightarrow> (s, result, BulkErr result)))"

definition mb_BulkUpdateFlags ::
    "'a env \<Rightarrow> (nat \<Rightarrow> error option) \<Rightarrow> time \<Rightarrow> string \<Rightarrow> string list \<Rightarrow> Flags \<Rightarrow> 'a service \<Rightarrow>
     'a service \<times> BulkResult \<times> error option" where
  "mb_BulkUpdateFlags env ctxErr now userID messageIDs flags =
    bulkOp ctxErr userID messageIDs (\<lambda>i. mb_UpdateFlags env now userID i flags)"

definition mb_BulkMove ::
    "'a env \<Rightarrow> (nat \<Rightarrow> error option) \<Rightarrow> time \<Rightarrow> string \<Rightarrow> string list \<Rightarrow> string \<Rightarrow> string list \<Rightarrow> 'a service \<Rightarrow>
     'a service \<times> BulkResult \<times> error option" where
  "mb_BulkMove env ctxErr now userID messageIDs folder opts =
    bulkOp ctxErr userID messageIDs (\<lambda>i. mb_MoveToFolder env now userID i folder opts)"

definition mb_BulkDelete ::
    "'a env \<Rightarrow> (nat \<Rightarrow> error option) \<Rightarrow> time \<Rightarrow> string \<Rightarrow> string list \<Rightarrow> 'a service \<Rightarrow>
     'a service \<times> BulkResult \<times> error option" where
  "mb_BulkDelete env ctxErr now userID messageIDs =
    bulkOp ctxErr userID messageIDs (mb_Delete env now userID)"

definition mb_BulkPermanentlyDelete ::
    "'a env \<Rightarrow> (nat \<Rightarrow> error option) \<Rightarrow> time \<Rightarrow> string \<Rightarrow> string list \<Rightarrow> 'a service \<Rightarrow>
     'a service \<times> BulkResult \<times> error option" where
  "mb_BulkPermanentlyDelete env ctxErr now userID messageIDs =
    bulkOp ctxErr userID messageIDs (mb_PermanentlyDelete env now userID)"

definition mb_BulkAddTag ::
    "(nat \<Rightarrow> error option) \<Rightarrow> time \<Rightarrow> string \<Rightarrow> string list \<Rightarrow> string \<Rightarrow> 'a service \<Rightarrow>
     'a service \<times> BulkResult \<times> error option" where
  "mb_BulkAddTag ctxErr now userID messageIDs tagID =
    bulkOp ctxErr userID messageIDs (\<lambda>i. mb_AddTag now userID i tagID)"

definition mb_BulkRemoveTag ::
    "(nat \<Rightarrow> error option) \<Rightarrow> time \<Rightarrow> string \<Rightarrow> string list \<Rightarrow> string \<Rightarrow> 'a service \<Rightarrow>
     'a service \<times> BulkResult \<times> error option" where
  "mb_BulkRemoveTag ctxErr now userID messageIDs tagID =
    bulkOp ctxErr userID messageIDs (\<lambda>i. mb_RemoveTag now userID i tagID)"

section \<open>The contract of a mailbox operation\<close>

text \<open>
  An operation of the user \<open>u\<close> changes only messages of \<open>u\<close>: a message of another owner is as it
  was, a new message belongs to \<open>u\<close>, and no message changes its owner.
\<close>

definition confined :: "string \<Rightarrow> Store \<Rightarrow> Store \<Rightarrow> bool" where
  "confined u st st' \<longleftrightarrow>
    (\<forall>i m. msg_of st i = Some m \<longrightarrow> ownerID m \<noteq> u \<longrightarrow> msg_of st' i = Some m)
    \<and> (\<forall>i m'. msg_of st' i = Some m' \<longrightarrow> msg_of st i = None \<longrightarrow> ownerID m' = u)
    \<and> (\<forall>i m m'. msg_of st' i = Some m' \<longrightarrow> msg_of st i = Some m \<longrightarrow> ownerID m' = ownerID m)"

lemma confinedI:
  assumes "\<And>i m. msg_of st i = Some m \<Longrightarrow> ownerID m \<noteq> u \<Longrightarrow> msg_of st' i = Some m"
    and "\<And>i m'. msg_of st' i = Some m' \<Longrightarrow> msg_of st i = None \<Longrightarrow> ownerID m' = u"
    and "\<And>i m m'. msg_of st' i = Some m' \<Longrightarrow> msg_of st i = Some m \<Longrightarrow> ownerID m' = ownerID m"
  shows "confined u st st'"
  unfolding confined_def using assms by blast

lemma confinedD:
  assumes "confined u st st'"
  shows "msg_of st i = Some m \<Longrightarrow> ownerID m \<noteq> u \<Longrightarrow> msg_of st' i = Some m"
    and "msg_of st' i = Some m' \<Longrightarrow> msg_of st i = None \<Longrightarrow> ownerID m' = u"
    and "msg_of st' i = Some m' \<Longrightarrow> msg_of st i = Some m \<Longrightarrow> ownerID m' = ownerID m"
  using assms unfolding confined_def by blast+

lemma confined_refl [simp]: "confined u st st"
  unfolding confined_def by (metis option.distinct(1) option.inject)

lemma confined_trans:
  assumes ab: "confined u a b" and bc: "confined u b c"
  shows "confined u a c"
proof (rule confinedI)
  show "msg_of c i = Some m" if "msg_of a i = Some m" "ownerID m \<noteq> u" for i m
    by (rule confinedD(1) [OF bc confinedD(1) [OF ab that] that(2)])
  show "ownerID m' = u" if "msg_of c i = Some m'" "msg_of a i = None" for i m'
  proof (cases "msg_of b i")
    case None
    show ?thesis by (rule confinedD(2) [OF bc that(1) None])
  next
    case (Some mb)
    show ?thesis using confinedD(3) [OF bc that(1) Some] confinedD(2) [OF ab Some that(2)] by simp
  qed
  show "ownerID m' = ownerID m" if "msg_of c i = Some m'" "msg_of a i = Some m" for i m m'
  proof (cases "msg_of b i")
    case None
    then have "ownerID m = u" using confinedD(1) [OF ab that(2)] by fastforce
    with confinedD(2) [OF bc that(1) None] show ?thesis by simp
  next
    case (Some mb)
    show ?thesis using confinedD(3) [OF bc that(1) Some] confinedD(3) [OF ab Some that(2)] by simp
  qed
qed

text \<open>One or more such changes, on a store that satisfies the invariant.\<close>

definition user_step :: "uuids \<Rightarrow> string \<Rightarrow> Store \<Rightarrow> Store \<Rightarrow> bool" where
  "user_step uuid u st st' \<longleftrightarrow> (store_ok uuid st \<longrightarrow> store_ok uuid st' \<and> confined u st st')"

lemma user_step_refl [simp]: "user_step uuid u st st"
  by (simp add: user_step_def)

lemma user_step_trans: "user_step uuid u a b \<Longrightarrow> user_step uuid u b c \<Longrightarrow> user_step uuid u a c"
  unfolding user_step_def using confined_trans by blast

locale mailbox_op =
  fixes op :: "string \<Rightarrow> 'a service \<Rightarrow> 'a service"
  assumes op_refused: "checkAccess u s \<noteq> None \<Longrightarrow> op u s = s"
    and op_step: "user_step uuid u (svc_store s) (svc_store (op u s))"
    and op_connState: "svc_state (op u s) = svc_state s"
begin

lemma op_others: "store_ok uuid (svc_store s) \<Longrightarrow> msg_of (svc_store s) i = Some m \<Longrightarrow> ownerID m \<noteq> u \<Longrightarrow>
    msg_of (svc_store (op u s)) i = Some m"
  using confinedD(1) op_step [of uuid u s] unfolding user_step_def by blast

lemma op_access: "checkAccess v (op u s) = checkAccess v s"
  by (simp add: checkAccess_def IsConnected_def op_connState)

text \<open>Any number of calls by other users leaves the messages of an owner as they are.\<close>

lemma op_fold_others:
  assumes "store_ok uuid (svc_store s)" "msg_of (svc_store s) i = Some m" "ownerID m \<notin> set us"
  shows "msg_of (svc_store (foldl (\<lambda>s u. op u s) s us)) i = Some m"
    and "store_ok uuid (svc_store (foldl (\<lambda>s u. op u s) s us))"
proof -
  have "store_ok uuid (svc_store (foldl (\<lambda>s u. op u s) s us)) \<and>
      msg_of (svc_store (foldl (\<lambda>s u. op u s) s us)) i = Some m"
    using assms
  proof (induction us arbitrary: s)
    case (Cons u us)
    have "store_ok uuid (svc_store (op u s))" using op_step [of uuid u s] Cons.prems(1) by (simp add: user_step_def)
    moreover have "msg_of (svc_store (op u s)) i = Some m" using op_others Cons.prems by simp
    ultimately show ?case using Cons by simp
  qed simp
  then show "msg_of (svc_store (foldl (\<lambda>s u. op u s) s us)) i = Some m"
    "store_ok uuid (svc_store (foldl (\<lambda>s u. op u s) s us))" by auto
qed

end

context message_op
begin

lemma op_confined_to:
  assumes "\<And>m. msg_of s i = Some m \<Longrightarrow> ownerID m = u"
  shows "confined u s (fst (op i s))"
proof (rule confinedI)
  show "msg_of (fst (op i s)) j = Some m" if "msg_of s j = Some m" "ownerID m \<noteq> u" for j m
    using that assms op_other [of j i s] by metis
  show "ownerID m' = ownerID m" if "msg_of (fst (op i s)) j = Some m'" "msg_of s j = Some m" for j m m'
    using op_content [OF that(1)] that(2) by (auto simp: same_content_def)
  show "ownerID m' = u" if "msg_of (fst (op i s)) j = Some m'" "msg_of s j = None" for j m'
    using op_content [OF that(1)] that(2) by simp
qed

end

context bulk_op
begin

lemma bulk_confined:
  assumes "store_inv s"
  shows "confined owner s (fst (op s))"
proof (rule confinedI)
  show "msg_of (fst (op s)) i = Some m" if "msg_of s i = Some m" "ownerID m \<noteq> owner" for i m
    using bulk_others [OF assms that(1)] that(2) by simp
  show "ownerID m' = ownerID m" if "msg_of (fst (op s)) i = Some m'" "msg_of s i = Some m" for i m m'
    using bulk_content [OF assms that(1)] that(2) by (auto simp: same_content_def)
  show "ownerID m' = owner" if "msg_of (fst (op s)) i = Some m'" "msg_of s i = None" for i m'
    using bulk_content [OF assms that(1)] that(2) by simp
qed

end

section \<open>Every operation keeps the contract\<close>

lemma getAndVerify_Inr:
  assumes "getAndVerify u i s = Inr m"
  shows "msg_of (svc_store s) i = Some m" "ownerID m = u" "\<not> isDraft m" "i \<noteq> ''''" "connected (svc_store s)"
  using assms
  by (auto simp: getAndVerify_def Store_Get_def canAccess_def clone_eq split: if_splits option.splits)

lemma publishOnly_frame [simp]:
  "svc_store (fst (publishOnly env n i ev s)) = svc_store s"
  "svc_state (fst (publishOnly env n i ev s)) = svc_state s"
  "svc_atts (fst (publishOnly env n i ev s)) = svc_atts s"
  "svc_stats (fst (publishOnly env n i ev s)) = svc_stats s"
  by (simp_all add: publishOnly_def publishTypedEvent_def split: option.splits prod.splits)

lemma opAndPublish_frame [simp]:
  "svc_store (fst (opAndPublish env n i ev op s)) = fst (op (svc_store s))"
  "svc_state (fst (opAndPublish env n i ev op s)) = svc_state s"
  "svc_atts (fst (opAndPublish env n i ev op s)) = svc_atts s"
  "svc_stats (fst (opAndPublish env n i ev op s)) = svc_stats s"
  by (simp_all add: opAndPublish_def Let_def split: option.splits prod.splits)

lemma updateCachedStats_frame [simp]:
  "svc_store (updateCachedStats u f s) = svc_store s" "svc_state (updateCachedStats u f s) = svc_state s"
  "svc_events (updateCachedStats u f s) = svc_events s"
  by (simp_all add: updateCachedStats_def split: option.splits)

lemma wrapErr_fst [simp]: "fst (wrapErr r) = fst r"
  by (simp add: wrapErr_def split: prod.splits)

context message_op
begin

lemma op_user_step:
  assumes "getAndVerify u i s = Inr m"
  shows "user_step uuid u (svc_store s) (fst (op i (svc_store s)))"
  using getAndVerify_Inr [OF assms] op_confined_to [of "svc_store s" i u] op_ok
  by (simp add: user_step_def)

end

context bulk_op
begin

lemma bulk_user_step: "user_step uuid owner s (fst (op s))"
  using bulk_confined bulk_ok by (auto simp: user_step_def store_ok_def)

end

lemma moveAndPublish_frame [simp]:
  "svc_state (fst (moveAndPublish env now i u a b w opts s)) = svc_state s"
  "svc_store (fst (moveAndPublish env now i u a b w opts s)) =
    (if a = b then svc_store s else fst (Store_MoveToFolder now b opts i (svc_store s)))"
  by (simp_all add: moveAndPublish_def)

lemma moveAndPublish_step:
  "getAndVerify u i s = Inr m \<Longrightarrow>
    user_step uuid u (svc_store s) (svc_store (fst (moveAndPublish env now i u a b w opts s)))"
  by (simp add: move.op_user_step)

text \<open>The same when the message was verified before an earlier change.\<close>

context message_op
begin

lemma op_again_step:
  assumes "\<And>m. msg_of st i = Some m \<Longrightarrow> ownerID m = u"
  shows "user_step uuid u st (fst (op i st))"
  using op_confined_to [OF assms] op_ok by (simp add: user_step_def)

end

lemma verified_owner:
  assumes "getAndVerify u i s = Inr m" "msg_of (svc_store (fst (moveAndPublish env now i u a b w opts s))) i = Some m'"
  shows "ownerID m' = u"
  using assms(2) getAndVerify_Inr(1,2) [OF assms(1)] move.op_content [of now b opts i "svc_store s" i m']
  by (auto simp: same_content_def split: if_splits)

lemma updateReadFlag_frame:
  "svc_state (fst (updateReadFlag env now u i flags f s)) = svc_state s"
  "svc_store (fst (updateReadFlag env now u i flags f s)) =
    (case flag_Read flags of None \<Rightarrow> svc_store s | Some r \<Rightarrow> fst (Store_MarkRead now r i (svc_store s)))"
  by (simp_all add: updateReadFlag_def split: option.splits bool.splits prod.splits)

lemma updateReadFlag_step:
  assumes "\<And>m. msg_of (svc_store s) i = Some m \<Longrightarrow> ownerID m = u"
  shows "user_step uuid u (svc_store s) (svc_store (fst (updateReadFlag env now u i flags f s)))"
  using markRead.op_again_step [OF assms] by (simp add: updateReadFlag_frame split: option.splits)

lemma mb_UpdateFlags_cases:
  obtains (same) "fst (mb_UpdateFlags env now u i flags s) = s"
  | (move) m b where "getAndVerify u i s = Inr m"
      "fst (mb_UpdateFlags env now u i flags s) =
        fst (moveAndPublish env now i u (folderID m) b (\<not> isRead m) [] s)"
  | (read) m f where "getAndVerify u i s = Inr m"
      "fst (mb_UpdateFlags env now u i flags s) = fst (updateReadFlag env now u i flags f s)"
  | (both) m b where "getAndVerify u i s = Inr m"
      "fst (mb_UpdateFlags env now u i flags s) = fst (updateReadFlag env now u i flags b
        (fst (moveAndPublish env now i u (folderID m) b (\<not> isRead m) [] s)))"
proof -
  let ?early = "checkAccess u s \<noteq> None \<or> flag_Read flags = None \<and> flag_Archived flags = None"
  show ?thesis
  proof (cases "?early \<or> (\<exists>e. getAndVerify u i s = Inl e)")
    case True
    then show ?thesis using same by (auto simp: mb_UpdateFlags_def split: option.splits)
  next
    case False
    then obtain m where m: "getAndVerify u i s = Inr m" by (cases "getAndVerify u i s") auto
    define b where "b = (case flag_Archived flags of None \<Rightarrow> folderID m
        | Some True \<Rightarrow> FolderArchived | Some False \<Rightarrow> defaultFolderForMessage m)"
    obtain s1 e1 where r: "moveAndPublish env now i u (folderID m) b (\<not> isRead m) [] s = (s1, e1)"
      by fastforce
    have eq: "mb_UpdateFlags env now u i flags s =
      (case (if flag_Archived flags \<noteq> None then (s1, e1) else (s, None)) of
         (s, Some e) \<Rightarrow> (s, Some (Wrapf e))
       | (s, None) \<Rightarrow> updateReadFlag env now u i flags b s)"
      using False m r unfolding mb_UpdateFlags_def b_def by (simp add: Let_def) auto
    show ?thesis
    proof (cases "flag_Archived flags = None")
      case True
      then show ?thesis using read [OF m] eq by simp
    next
      case arch: False
      then show ?thesis
        using move [OF m, of b] both [OF m, of b] eq r by (cases e1) auto
    qed
  qed
qed

interpretation updateFlagsOp: mailbox_op "\<lambda>u s. fst (mb_UpdateFlags env now u i flags s)" for env now i flags
proof unfold_locales
  fix u and s :: "'a service" and uuid
  show "fst (mb_UpdateFlags env now u i flags s) = s" if "checkAccess u s \<noteq> None"
    using that by (auto simp: mb_UpdateFlags_def)
  show "svc_state (fst (mb_UpdateFlags env now u i flags s)) = svc_state s"
    by (cases rule: mb_UpdateFlags_cases [of env now u i flags s]) (simp_all add: updateReadFlag_frame)
  show "user_step uuid u (svc_store s) (svc_store (fst (mb_UpdateFlags env now u i flags s)))"
  proof (cases rule: mb_UpdateFlags_cases [of env now u i flags s])
    case (both m b)
    have "user_step uuid u (svc_store (fst (moveAndPublish env now i u (folderID m) b (\<not> isRead m) [] s)))
        (svc_store (fst (mb_UpdateFlags env now u i flags s)))"
      unfolding both(2) by (rule updateReadFlag_step) (rule verified_owner [OF both(1)])
    with moveAndPublish_step [OF both(1)] show ?thesis by (rule user_step_trans)
  next
    case (read m f)
    have "ownerID m' = u" if "msg_of (svc_store s) i = Some m'" for m'
      using that getAndVerify_Inr(1,2) [OF read(1)] by simp
    then show ?thesis unfolding read(2) by (rule updateReadFlag_step)
  next
    case (move m b)
    then show ?thesis by (simp only: moveAndPublish_step)
  qed simp
qed

lemma opAndPublish_frameD:
  assumes "opAndPublish env n i ev op s = (s', e)"
  shows "svc_store s' = fst (op (svc_store s)) \<and> svc_state s' = svc_state s \<and> svc_atts s' = svc_atts s
    \<and> svc_stats s' = svc_stats s"
  using opAndPublish_frame [of env n i ev op s] assms by simp

lemma bulkReturn_fst [simp]:
  "svc_store (fst (bulkReturn s r)) = fst r" "svc_state (fst (bulkReturn s r)) = svc_state s"
  by (simp_all add: bulkReturn_def split: prod.splits res.splits)

interpretation deleteOp: mailbox_op "\<lambda>u s. fst (mb_Delete env now u i s)" for env now i
  by unfold_locales
    (auto simp: mb_Delete_def move.op_user_step split: option.splits sum.splits)

interpretation restoreOp: mailbox_op "\<lambda>u s. fst (mb_Restore env now u i s)" for env now i
  by unfold_locales
    (auto simp: mb_Restore_def move.op_user_step split: option.splits sum.splits)

interpretation moveOp: mailbox_op "\<lambda>u s. fst (mb_MoveToFolder env now u i folder opts s)" for env now i folder opts
  by unfold_locales
    (auto simp: mb_MoveToFolder_def move.op_user_step split: option.splits sum.splits)

interpretation addTagOp: mailbox_op "\<lambda>u s. fst (mb_AddTag now u i tagID s)" for now i tagID
  by (unfold_locales, auto simp: mb_AddTag_def split: option.splits sum.splits prod.splits,
      metis addTag.op_user_step fst_conv)

interpretation removeTagOp: mailbox_op "\<lambda>u s. fst (mb_RemoveTag now u i tagID s)" for now i tagID
  by (unfold_locales, auto simp: mb_RemoveTag_def split: option.splits sum.splits prod.splits,
      metis removeTag.op_user_step fst_conv)

interpretation permDeleteOp: mailbox_op "\<lambda>u s. fst (mb_PermanentlyDelete env now u i s)" for env now i
  by unfold_locales
    (auto simp: mb_PermanentlyDelete_def hardDelete.op_user_step dest!: opAndPublish_frameD
      split: option.splits sum.splits prod.splits)

interpretation moveByOp: mailbox_op "\<lambda>u s. fst (mb_MoveByFilter now u filters folder s)" for now filters folder
  by unfold_locales (auto simp: mb_MoveByFilter_def moveBy.bulk_user_step split: option.splits)

interpretation deleteByOp: mailbox_op "\<lambda>u s. fst (mb_DeleteByFilter now u filters s)" for now filters
  by unfold_locales (auto simp: mb_DeleteByFilter_def deleteBy.bulk_user_step split: option.splits)

interpretation tagByOp: mailbox_op "\<lambda>u s. fst (mb_TagByFilter now u filters tagID s)" for now filters tagID
  by unfold_locales (auto simp: mb_TagByFilter_def addTagBy.bulk_user_step split: option.splits)

interpretation untagByOp: mailbox_op "\<lambda>u s. fst (mb_UntagByFilter now u filters tagID s)" for now filters tagID
  by unfold_locales (auto simp: mb_UntagByFilter_def removeTagBy.bulk_user_step split: option.splits)

end
