(* ===== verification/Mailbox_Send.thy ===== *)
theory Mailbox_Send
  imports Mailbox_Mutate
begin

text \<open>
  Sending, \<open>send.go\<close> and the quota check of \<open>quota.go\<close>: the preparation of a draft, the copy of
  the sender, the copies of the recipients with their quota and attachment references, the
  rollback when nobody was reached, and the events.

  The draft is a pointer that the code changes: the functions return the changed draft beside
  the state. \<open>acquire\<close> is the outcome of waiting for a free slot of the send semaphore.
\<close>

section \<open>Library\<close>

fun itoa :: "nat \<Rightarrow> string" where
  "itoa n = (if n < 10 then [char_of (48 + n)] else itoa (n div 10) @ [char_of (48 + n mod 10)])"

declare itoa.simps [simp del]

text \<open>\<open>t.Sub(u)\<close> is a 64-bit duration and saturates.\<close>

definition time_Sub :: "time \<Rightarrow> time \<Rightarrow> duration" where
  "time_Sub t u = max (- (2 ^ 63)) (min (2 ^ 63 - 1) (t - u))"

definition HeaderContentLength :: string where "HeaderContentLength = ''Content-Length''"

definition MetadataSenderFirstName :: string where "MetadataSenderFirstName = ''sender.firstname''"
definition MetadataSenderLastName :: string where "MetadataSenderLastName = ''sender.lastname''"
definition MetadataSenderEmail :: string where "MetadataSenderEmail = ''sender.email''"

section \<open>Preparation\<close>

definition newThreadID :: "'a env \<Rightarrow> 'a service \<Rightarrow> 'a service \<times> string" where
  "newThreadID env s = (case newUUID (env_uuid env) (svc_store s) of (i, st) \<Rightarrow> (s\<lparr>svc_store := st\<rparr>, i))"

definition resolveThreadID ::
    "'a env \<Rightarrow> string \<Rightarrow> string \<Rightarrow> string \<Rightarrow> 'a service \<Rightarrow> 'a service \<times> string" where
  "resolveThreadID env userID thread replyTo s =
    (if thread \<noteq> '''' then (s, thread)
     else if replyTo \<noteq> '''' then
       (case Store_Get replyTo (svc_store s) of
          Ok orig \<Rightarrow>
            if canAccess userID orig then (s, if threadID orig \<noteq> '''' then threadID orig else replyTo)
            else newThreadID env s
        | _ \<Rightarrow> newThreadID env s)
     else newThreadID env s)"

definition computeTTLFields ::
    "Config \<Rightarrow> time \<Rightarrow> duration \<Rightarrow> time option \<Rightarrow> error + time option \<times> time option" where
  "computeTTLFields cfg now ttl scheduleAt =
    (let effectiveTTL = (if ttl \<le> 0 then DefaultTTL cfg else ttl);
         scheduled = (case scheduleAt of Some t \<Rightarrow> t \<noteq> zeroTime | None \<Rightarrow> False);
         delay = (case scheduleAt of Some t \<Rightarrow> time_Sub t now | None \<Rightarrow> 0);
         availAt = (if scheduled then scheduleAt else None) in
     if effectiveTTL > 0 \<and> effectiveTTL < MinTTL cfg then Inl (errf ErrInvalidTTL)
     else if effectiveTTL > 0 \<and> MaxTTL cfg > 0 \<and> effectiveTTL > MaxTTL cfg then Inl (errf ErrInvalidTTL)
     else if scheduled \<and> delay > 0 \<and> MinScheduleDelay cfg > 0 \<and> delay < MinScheduleDelay cfg
       then Inl (errf ErrInvalidSchedule)
     else if scheduled \<and> delay > 0 \<and> MaxScheduleDelay cfg > 0 \<and> delay > MaxScheduleDelay cfg
       then Inl (errf ErrInvalidSchedule)
     else
       Inr (if effectiveTTL > 0
            then Some ((case availAt of Some t \<Rightarrow> t | None \<Rightarrow> now) + effectiveTTL) else None,
            availAt))"

definition resolveAndInjectUserMetadata :: "'a env \<Rightarrow> time \<Rightarrow> string \<Rightarrow> message \<Rightarrow> message \<times> error option" where
  "resolveAndInjectUserMetadata env now userID draft =
    (case env_userResolver env of
       None \<Rightarrow> (draft, None)
     | Some resolve \<Rightarrow>
         (case resolve userID of
            Inl _ \<Rightarrow> (draft, Some (errf ErrUserResolveFailed))
          | Inr user \<Rightarrow>
              let draft = (if user_FirstName user \<noteq> ''''
                    then message_SetMetadata now MetadataSenderFirstName (AString (user_FirstName user)) draft else draft);
                  draft = (if user_LastName user \<noteq> ''''
                    then message_SetMetadata now MetadataSenderLastName (AString (user_LastName user)) draft else draft);
                  draft = (if user_Email user \<noteq> ''''
                    then message_SetMetadata now MetadataSenderEmail (AString (user_Email user)) draft else draft)
              in (draft, None)))"

definition deduplicateRecipients :: "string list \<Rightarrow> string list" where
  "deduplicateRecipients recipients =
    snd (foldl (\<lambda>(seen, unique) i. if i \<notin> set seen then (i # seen, unique @ [i]) else (seen, unique))
      ([], []) recipients)"

text \<open>
  Steps 1 and 2 of \<open>sendDraft\<close>: the draft with unique recipients, a length header and the
  identity of the sender, and the unique delivery targets, or the error of the first check that
  fails.
\<close>

definition prepareDraft :: "'a env \<Rightarrow> time \<Rightarrow> string \<Rightarrow> message \<Rightarrow> string list \<Rightarrow> message \<times> (error + string list)" where
  "prepareDraft env now userID draft deliverTo =
    (let draft = message_SetRecipients now (deduplicateRecipients (recipientIDs draft)) draft;
         deliverTo = (if deliverTo \<noteq> [] then deduplicateRecipients deliverTo else deliverTo) in
     if \<not> set deliverTo \<subseteq> set (recipientIDs draft) then (draft, Inl (errf ErrInvalidRecipient))
     else
       let draft = (case map_of (headers draft) HeaderContentLength of
             Some v \<Rightarrow> if v = '''' then message_SetHeader now HeaderContentLength (itoa (length (body draft))) draft else draft
           | None \<Rightarrow> message_SetHeader now HeaderContentLength (itoa (length (body draft))) draft)
       in (case resolveAndInjectUserMetadata env now userID draft of
             (draft, Some e) \<Rightarrow> (draft, Inl e)
           | (draft, None) \<Rightarrow>
               (case ValidateDraft (env_mapLower env) (env_marshal env) draft (getLimits (env_cfg env)) of
                  Some e \<Rightarrow> (draft, Inl e)
                | None \<Rightarrow>
                    if attachments draft \<noteq> [] \<and> env_attachments env = None
                    then (draft, Inl (Sentinel ErrAttachmentStoreNotConfigured))
                    else (draft, Inr deliverTo))))"

section \<open>The sender's copy\<close>

definition senderData ::
    "string \<Rightarrow> message \<Rightarrow> string \<Rightarrow> string \<Rightarrow> string \<Rightarrow> time option \<Rightarrow> time option \<Rightarrow> MessageData" where
  "senderData userID draft thread replyTo external expires available =
    \<lparr>OwnerID = userID, SenderID = userID, RecipientIDs = recipientIDs draft, Subject = subject draft,
     Body = body draft, Headers = headers draft, Metadata = metadata draft,
     Status = MessageStatusQueued, FolderID = FolderOutbox, Attachments = attachments draft,
     Tags = [], ThreadID = thread, ReplyToID = replyTo, ExternalID = external,
     ExpiresAt = expires, AvailableAt = available\<rparr>"

definition createSenderMessage ::
    "'a env \<Rightarrow> time \<Rightarrow> MessageData \<Rightarrow> 'a service \<Rightarrow> 'a service \<times> (error + message)" where
  "createSenderMessage env now data s =
    (case Store_CreateMessage (env_uuid env) now data (svc_store s) of
       (st, Err e) \<Rightarrow> (s\<lparr>svc_store := st\<rparr>, Inl (Wrapf (StoreErr e)))
     | (st, Panic) \<Rightarrow> (s\<lparr>svc_store := st\<rparr>, Inl (ExternalError 0))
     | (st, Ok senderCopy) \<Rightarrow>
         (case addAttachmentRefs (env_attachments env) senderCopy (svc_atts s) of
            (a, None) \<Rightarrow> (s\<lparr>svc_store := st, svc_atts := a\<rparr>, Inr senderCopy)
          | (a, Some e) \<Rightarrow>
              (case releaseAttachmentRefs (env_attachments env) senderCopy a of
                 (a, _) \<Rightarrow>
                   (case Store_HardDelete (msgID senderCopy) st of
                      (st, r) \<Rightarrow>
                        (s\<lparr>svc_store := st, svc_atts := a\<rparr>,
                         Inl (case storeErr r of
                                Some deleteErr \<Rightarrow> Wrapf (Joined [e, deleteErr])
                              | None \<Rightarrow> Wrapf e))))))"

section \<open>Delivery\<close>

definition checkQuotaWithPolicy ::
    "'a env \<Rightarrow> time \<Rightarrow> string \<Rightarrow> QuotaPolicy \<Rightarrow> 'a service \<Rightarrow> 'a service \<times> error option" where
  "checkQuotaWithPolicy env now userID policy s =
    (if MaxMessages policy \<le> 0 then (s, None)
     else
       (case (if svc_statsEnabled s then
                (case getOrRefreshStats env now userID s of
                   (s, Ok stats) \<Rightarrow> (s, Inr (TotalMessages stats))
                 | (s, Err e) \<Rightarrow> (s, Inl (Wrapf e))
                 | (s, Panic) \<Rightarrow> (s, Inl (ExternalError 0)))
              else
                (case Store_Count now [OwnerIs userID] (svc_store s) of
                   Ok n \<Rightarrow> (s, Inr n)
                 | Err e \<Rightarrow> (s, Inl (Wrapf (StoreErr e)))
                 | Panic \<Rightarrow> (s, Inl (ExternalError 0)))) of
          (s, Inl e) \<Rightarrow> (s, Some e)
        | (s, Inr cnt) \<Rightarrow>
            (s, if cnt \<ge> MaxMessages policy then Some (QuotaExceededError userID cnt (MaxMessages policy)) else None)))"

text \<open>The check of one delivery target in the first phase of \<open>deliverToRecipients\<close>.\<close>

definition checkTarget :: "'a env \<Rightarrow> time \<Rightarrow> string \<Rightarrow> 'a service \<Rightarrow> 'a service \<times> error option" where
  "checkTarget env now recipientID s =
    (case env_quotaProvider env of
       None \<Rightarrow> (s, None)
     | Some getQuota \<Rightarrow>
         (case getQuota recipientID of
            Inl e \<Rightarrow> (s, Some (Wrapf e))
          | Inr None \<Rightarrow> (s, None)
          | Inr (Some policy) \<Rightarrow>
              if ExceedAction policy = QuotaActionReject then checkQuotaWithPolicy env now recipientID policy s
              else (s, None)))"

fun eligibleLoop ::
    "'a env \<Rightarrow> time \<Rightarrow> string list \<Rightarrow> string list \<Rightarrow> (string \<times> error) list \<Rightarrow> 'a service \<Rightarrow>
     'a service \<times> string list \<times> (string \<times> error) list" where
  "eligibleLoop env now [] eligible failed s = (s, eligible, failed)"
| "eligibleLoop env now (r # rest) eligible failed s =
    (case checkTarget env now r s of
       (s, Some e) \<Rightarrow> eligibleLoop env now rest eligible (AList.update r e failed) s
     | (s, None) \<Rightarrow> eligibleLoop env now rest (eligible @ [r]) failed s)"

definition recipientData ::
    "string \<Rightarrow> message \<Rightarrow> string \<Rightarrow> string \<Rightarrow> string \<Rightarrow> time option \<Rightarrow> time option \<Rightarrow> string \<Rightarrow> MessageData" where
  "recipientData userID draft thread replyTo external expires available recipientID =
    \<lparr>OwnerID = recipientID, SenderID = userID, RecipientIDs = recipientIDs draft, Subject = subject draft,
     Body = body draft, Headers = headers draft, Metadata = metadata draft,
     Status = MessageStatusDelivered, FolderID = FolderInbox, Attachments = attachments draft,
     Tags = [], ThreadID = thread, ReplyToID = replyTo, ExternalID = external,
     ExpiresAt = expires, AvailableAt = available\<rparr>"

text \<open>
  The third phase: the results of the batch, each with its recipient. The error of
  \<open>publishOnly\<close> is ignored.
\<close>

fun deliverLoop ::
    "'a env \<Rightarrow> time \<Rightarrow> string \<Rightarrow> string \<Rightarrow> (string \<times> (store_error, message \<times> bool) res) list \<Rightarrow>
     string list \<Rightarrow> string list \<Rightarrow> (string \<times> error) list \<Rightarrow> 'a service \<Rightarrow>
     'a service \<times> string list \<times> string list \<times> (string \<times> error) list" where
  "deliverLoop env now userID subj [] delivered newly failed s = (s, delivered, newly, failed)"
| "deliverLoop env now userID subj ((r, result) # rest) delivered newly failed s =
    (case result of
       Err e \<Rightarrow> deliverLoop env now userID subj rest delivered newly (AList.update r (Wrapf (StoreErr e)) failed) s
     | Panic \<Rightarrow> deliverLoop env now userID subj rest delivered newly (AList.update r (ExternalError 0) failed) s
     | Ok (msg, created) \<Rightarrow>
         if \<not> created then deliverLoop env now userID subj rest (delivered @ [r]) newly failed s
         else
           (case addAttachmentRefs (env_attachments env) msg (svc_atts s) of
              (a, Some refErr) \<Rightarrow>
                (case releaseAttachmentRefs (env_attachments env) msg a of
                   (a, _) \<Rightarrow>
                     (case Store_HardDelete (msgID msg) (svc_store s) of
                        (st, _) \<Rightarrow>
                          deliverLoop env now userID subj rest delivered newly (AList.update r (Wrapf refErr) failed)
                            (s\<lparr>svc_store := st, svc_atts := a\<rparr>)))
            | (a, None) \<Rightarrow>
                (case publishOnly env EventNameMessageReceived (msgID msg)
                        (MessageReceivedEvent (msgID msg) r userID subj now) (s\<lparr>svc_atts := a\<rparr>) of
                   (s, _) \<Rightarrow> deliverLoop env now userID subj rest (delivered @ [r]) (newly @ [r]) failed s)))"

definition deliverToRecipients ::
    "'a env \<Rightarrow> time \<Rightarrow> string \<Rightarrow> message \<Rightarrow> (string \<Rightarrow> MessageData) \<Rightarrow> string \<Rightarrow> string list \<Rightarrow>
     'a service \<Rightarrow> 'a service \<times> string list \<times> string list \<times> (string \<times> error) list" where
  "deliverToRecipients env now userID draft dataFor senderMsgID deliveryTargets s =
    (let deliveryTargets = (if deliveryTargets = [] then recipientIDs draft else deliveryTargets) in
     (case eligibleLoop env now deliveryTargets [] [] s of
        (s, eligible, failed) \<Rightarrow>
          if eligible = [] then (s, [], [], failed)
          else
            (case Store_CreateMessagesIdempotent (env_uuid env) now
                    (map (\<lambda>r. (dataFor r, senderMsgID @ '':'' @ r)) eligible) (svc_store s) of
               (st, Err e) \<Rightarrow>
                 (s\<lparr>svc_store := st\<rparr>, [], [],
                  foldl (\<lambda>failed r. AList.update r (Wrapf (StoreErr e)) failed) failed eligible)
             | (st, Panic) \<Rightarrow>
                 (s\<lparr>svc_store := st\<rparr>, [], [],
                  foldl (\<lambda>failed r. AList.update r (ExternalError 0) failed) failed eligible)
             | (st, Ok results) \<Rightarrow>
                 deliverLoop env now userID (subject draft) (zip eligible results) [] [] failed
                   (s\<lparr>svc_store := st\<rparr>))))"

definition rollbackSenderMessage :: "'a env \<Rightarrow> message \<Rightarrow> 'a service \<Rightarrow> 'a service \<times> error option" where
  "rollbackSenderMessage env senderCopy s =
    (case releaseAttachmentRefs (env_attachments env) senderCopy (svc_atts s) of
       (a, e1) \<Rightarrow>
         (case Store_HardDelete (msgID senderCopy) (svc_store s) of
            (st, r) \<Rightarrow>
              (s\<lparr>svc_store := st, svc_atts := a\<rparr>,
               errors_Join [map_option Wrapf e1, map_option Wrapf (storeErr r)])))"

definition finalizeDelivery ::
    "'a env \<Rightarrow> time \<Rightarrow> message \<Rightarrow> string list \<Rightarrow> message \<Rightarrow> 'a service \<Rightarrow> 'a service \<times> message \<times> error option" where
  "finalizeDelivery env now senderCopy deliveredTo draft s =
    (case Store_MoveToFolder now FolderSent [] (msgID senderCopy) (svc_store s) of
       (st, Err e) \<Rightarrow> (s\<lparr>svc_store := st\<rparr>, senderCopy, Some (Wrapf (StoreErr e)))
     | (st, Panic) \<Rightarrow> (s\<lparr>svc_store := st\<rparr>, senderCopy, Some (ExternalError 0))
     | (st, Ok _) \<Rightarrow>
         let st = (if msgID draft \<noteq> '''' then fst (Store_DeleteDraft (msgID draft) st) else st);
             s = s\<lparr>svc_store := st\<rparr>
         in (case Store_Get (msgID senderCopy) st of
               Err e \<Rightarrow> (s, senderCopy, Some (Wrapf (StoreErr e)))
             | Panic \<Rightarrow> (s, senderCopy, Some (ExternalError 0))
             | Ok updatedCopy \<Rightarrow>
                 (case publishOnly env EventNameMessageSent (msgID senderCopy)
                         (MessageSentEvent (msgID senderCopy) (senderID senderCopy) deliveredTo (subject senderCopy) now) s of
                    (s, e) \<Rightarrow> (s, updatedCopy, e))))"

section \<open>Sending\<close>

text \<open>
  Steps 6 to 11, after the thread and the times are known. The error of a total failure,
  \<open>send failed: all n delivery targets failed\<close>, wraps nothing.
\<close>

definition sendFailed :: error where "sendFailed = ExternalError 1"

definition deliverDraft ::
    "'a env \<Rightarrow> time \<Rightarrow> string \<Rightarrow> message \<Rightarrow> string \<Rightarrow> string \<Rightarrow> string \<Rightarrow> time option \<Rightarrow> time option \<Rightarrow>
     string list \<Rightarrow> 'a service \<Rightarrow> 'a service \<times> message option \<times> error option" where
  "deliverDraft env now userID draft thread replyTo external expires available deliverTo s =
    (case createSenderMessage env now (senderData userID draft thread replyTo external expires available) s of
       (s, Inl e) \<Rightarrow> (s, None, Some e)
     | (s, Inr senderCopy) \<Rightarrow>
         (case deliverToRecipients env now userID draft
                 (recipientData userID draft thread replyTo external expires available)
                 (msgID senderCopy) deliverTo s of
            (s, deliveredTo, newlyDelivered, failedRecipients) \<Rightarrow>
              if deliveredTo = [] then
                (case rollbackSenderMessage env senderCopy s of
                   (s, rollbackErr) \<Rightarrow>
                     (s, None, Some (case rollbackErr of None \<Rightarrow> sendFailed | Some _ \<Rightarrow> Wrapf sendFailed)))
              else
                (case finalizeDelivery env now senderCopy newlyDelivered draft s of
                   (s, updated, eventErr) \<Rightarrow>
                     let partialErr = (if failedRecipients \<noteq> []
                           then Some (PartialDeliveryError (msgID updated) deliveredTo failedRecipients) else None) in
                     if eventErr \<noteq> None then (s, Some updated, errors_Join [eventErr, partialErr])
                     else
                       (case afterSendLoop (env_plugins env) userID updated of
                          Some e \<Rightarrow> (s, Some updated, errors_Join [Some e, partialErr])
                        | None \<Rightarrow> (s, Some updated, partialErr)))))"

definition sendDraft ::
    "'a env \<Rightarrow> error option \<Rightarrow> time \<Rightarrow> string \<Rightarrow> message \<Rightarrow> string \<Rightarrow> string \<Rightarrow> string \<Rightarrow> duration \<Rightarrow>
     time option \<Rightarrow> string list \<Rightarrow> 'a service \<Rightarrow> 'a service \<times> message \<times> message option \<times> error option" where
  "sendDraft env acquire now userID draft thread replyTo external ttl scheduleAt deliverTo s =
    (case checkAccess userID s of Some e \<Rightarrow> (s, draft, None, Some e) | None \<Rightarrow>
     (case prepareDraft env now userID draft deliverTo of
        (draft, Inl e) \<Rightarrow> (s, draft, None, Some e)
      | (draft, Inr deliverTo) \<Rightarrow>
          (case acquire of Some e \<Rightarrow> (s, draft, None, Some e) | None \<Rightarrow>
           (case beforeSendLoop (env_plugins env) userID draft of
              (draft, Some e) \<Rightarrow> (s, draft, None, Some e)
            | (draft, None) \<Rightarrow>
                (case resolveThreadID env userID thread replyTo s of
                   (s, thread) \<Rightarrow>
                     (case computeTTLFields (env_cfg env) now ttl scheduleAt of
                        Inl e \<Rightarrow> (s, draft, None, Some e)
                      | Inr (expires, available) \<Rightarrow>
                          (case deliverDraft env now userID draft thread replyTo external expires available deliverTo s of
                             (s, r) \<Rightarrow> (s, draft, r))))))))"

record SendRequest =
  req_RecipientIDs :: "string list"
  req_Subject :: string
  req_Body :: string
  req_Headers :: "(string \<times> string) list"
  req_Metadata :: "(string \<times> any) list"
  req_Attachments :: "Attachment list"
  req_AttachmentIDs :: "string list"
  req_ThreadID :: string
  req_ReplyToID :: string
  req_ExternalID :: string
  req_DeliverTo :: "string list"
  req_TTL :: duration
  req_ScheduleAt :: "time option"

fun resolveLoop :: "'a AttachmentManager \<Rightarrow> string list \<Rightarrow> Attachment list \<Rightarrow> 'a \<Rightarrow> error + Attachment list" where
  "resolveLoop am [] atts a = Inr atts"
| "resolveLoop am (i # rest) atts a =
    (case am_GetMetadata am i a of
       Inl e \<Rightarrow> Inl (Wrapf e)
     | Inr meta \<Rightarrow> resolveLoop am rest (atts @ [Attachment.truncate meta]) a)"

definition mb_ResolveAttachments :: "'a env \<Rightarrow> string \<Rightarrow> string list \<Rightarrow> 'a service \<Rightarrow> error + Attachment list" where
  "mb_ResolveAttachments env userID attIDs s =
    (case checkAccess userID s of Some e \<Rightarrow> Inl e | None \<Rightarrow>
     (case env_attachments env of
        None \<Rightarrow> Inl (Sentinel ErrAttachmentStoreNotConfigured)
      | Some am \<Rightarrow> resolveLoop am attIDs [] (svc_atts s)))"

definition requestDraft :: "time \<Rightarrow> string \<Rightarrow> SendRequest \<Rightarrow> Attachment list \<Rightarrow> message" where
  "requestDraft now userID req allAttachments =
    (let draft = Store_NewDraft now userID;
         draft = message_SetRecipients now (req_RecipientIDs req) draft;
         draft = message_SetSubject now (req_Subject req) draft;
         draft = message_SetBody now (req_Body req) draft;
         draft = foldl (\<lambda>d (k, v). message_SetHeader now k v d) draft (req_Headers req);
         draft = foldl (\<lambda>d (k, v). message_SetMetadata now k v d) draft (req_Metadata req)
     in foldl (\<lambda>d a. message_AddAttachment now a d) draft allAttachments)"

definition mb_SendMessage ::
    "'a env \<Rightarrow> error option \<Rightarrow> time \<Rightarrow> string \<Rightarrow> SendRequest \<Rightarrow> 'a service \<Rightarrow>
     'a service \<times> message option \<times> error option" where
  "mb_SendMessage env acquire now userID req s =
    (case checkAccess userID s of Some e \<Rightarrow> (s, None, Some e) | None \<Rightarrow>
     (case (if req_AttachmentIDs req \<noteq> []
            then (case mb_ResolveAttachments env userID (req_AttachmentIDs req) s of
                    Inl e \<Rightarrow> Inl (Wrapf e) | Inr resolved \<Rightarrow> Inr (req_Attachments req @ resolved))
            else Inr (req_Attachments req)) of
        Inl e \<Rightarrow> (s, None, Some e)
      | Inr allAttachments \<Rightarrow>
          (case sendDraft env acquire now userID (requestDraft now userID req allAttachments)
                  (req_ThreadID req) (req_ReplyToID req) (req_ExternalID req) (req_TTL req)
                  (req_ScheduleAt req) (req_DeliverTo req) s of
             (s, _, r) \<Rightarrow> (s, r))))"

definition saveDraft ::
    "'a env \<Rightarrow> time \<Rightarrow> string \<Rightarrow> message \<Rightarrow> 'a service \<Rightarrow> 'a service \<times> (error + message)" where
  "saveDraft env now userID draft s =
    (case checkAccess userID s of Some e \<Rightarrow> (s, Inl e) | None \<Rightarrow>
     let limits = getLimits (env_cfg env) in
     (case first_some
        [if subject draft \<noteq> '''' then ValidateSubjectWithLimits (subject draft) limits else None,
         if body draft \<noteq> '''' then ValidateBodyWithLimits (body draft) limits else None,
         ValidateHeaders (headers draft) limits,
         ValidateMetadataWithLimits (env_marshal env) (metadata draft) limits,
         ValidateAttachments (env_mapLower env) (attachments draft) limits] of
        Some e \<Rightarrow> (s, Inl e)
      | None \<Rightarrow>
          (case Store_SaveDraft (env_uuid env) now (OwnDraft draft) (svc_store s) of
             (st, Ok saved) \<Rightarrow> (s\<lparr>svc_store := st\<rparr>, Inr saved)
           | (st, Err e) \<Rightarrow> (s\<lparr>svc_store := st\<rparr>, Inl (Wrapf (StoreErr e)))
           | (st, Panic) \<Rightarrow> (s\<lparr>svc_store := st\<rparr>, Inl (ExternalError 0)))))"

end
