(* ===== verification/Mailbox_Delivery.thy ===== *)
theory Mailbox_Delivery
  imports Mailbox_Send
begin

text \<open>
  What each phase of \<open>sendDraft\<close> does to the message store: the copy of the sender is stored or
  nothing is, the quota check only reads, the batch appends the copies of the recipients, and
  the loop that takes their attachment references drops exactly the copies for which that fails.
\<close>

section \<open>The store after each phase\<close>

lemma HardDelete_stored:
  assumes "connected st" "i \<noteq> ''''" "msg_of st i = Some m" "\<not> isDraft m"
  shows "Store_HardDelete i st = (st\<lparr>messages := AList.delete i (messages st)\<rparr>, Ok ())"
  using assms by (simp add: Store_HardDelete_def)

lemma CreateMessage_stored:
  assumes "uuid_ok uuid" "store_ok uuid st" "Store_CreateMessage uuid now d st = (st', Ok m)"
  shows "m = newMessageFromData d (uuid (uuidSeq st)) now" "msg_of st (msgID m) = None" "msgID m \<noteq> ''''"
    "msg_of st' = (msg_of st)(msgID m \<mapsto> m)" "connected st'" "connected st"
    "store_ok uuid st'" "idempotencyIdx st' = idempotencyIdx st" "uuidSeq st' = Suc (uuidSeq st)"
proof -
  have c: "connected st" using assms(3) by (auto simp: Store_CreateMessage_def split: if_splits)
  note eq = assms(3) [unfolded CreateMessage_eq [OF c] Let_def]
  show m: "m = newMessageFromData d (uuid (uuidSeq st)) now" and "connected st'" "connected st"
    "idempotencyIdx st' = idempotencyIdx st" "uuidSeq st' = Suc (uuidSeq st)"
    using eq c by auto
  show "msg_of st (msgID m) = None" using store_ok_fresh(1) [OF assms(2) order_refl] m by simp
  show "msgID m \<noteq> ''''" using assms(1) m by (simp add: uuid_ok_def)
  show "msg_of st' = (msg_of st)(msgID m \<mapsto> m)" using eq m by (auto simp: update_conv')
  show "store_ok uuid st'" using CreateMessage_ok [OF assms(1,2), of now d] assms(3) by simp
qed

lemma CreateMessage_no_panic: "snd (Store_CreateMessage uuid now d st) \<noteq> Panic"
  by (simp add: Store_CreateMessage_def case_prod_beta Let_def)

lemma CreateMessage_Err: "Store_CreateMessage uuid now d st = (st', Err e) \<Longrightarrow> st' = st"
  by (auto simp: Store_CreateMessage_def case_prod_beta Let_def split: if_splits)

text \<open>The copy of the sender is stored, or nothing is.\<close>

lemma createSenderMessage_store:
  assumes "uuid_ok (env_uuid env)" "store_ok (env_uuid env) (svc_store s)"
    and "createSenderMessage env now d s = (s', r)"
  obtains (failed) e where "r = Inl e" "msg_of (svc_store s') = msg_of (svc_store s)"
      "store_ok (env_uuid env) (svc_store s')"
  | (created) m where "r = Inr m" "m = newMessageFromData d (env_uuid env (uuidSeq (svc_store s))) now"
      "msg_of (svc_store s) (msgID m) = None" "msgID m \<noteq> ''''"
      "msg_of (svc_store s') = (msg_of (svc_store s))(msgID m \<mapsto> m)" "connected (svc_store s')"
      "store_ok (env_uuid env) (svc_store s')"
      "idempotencyIdx (svc_store s') = idempotencyIdx (svc_store s)" "svc_events s' = svc_events s"
      "uuidSeq (svc_store s') = Suc (uuidSeq (svc_store s))"
proof -
  let ?uuid = "env_uuid env"
  obtain st q where q: "Store_CreateMessage ?uuid now d (svc_store s) = (st, q)" by force
  show ?thesis
  proof (cases q)
    case (Err e)
    with q have "st = svc_store s" by (simp add: CreateMessage_Err)
    with q Err assms show ?thesis by (intro failed) (auto simp: createSenderMessage_def)
  next
    case Panic
    with q show ?thesis using CreateMessage_no_panic [of ?uuid now d "svc_store s"] by simp
  next
    case (Ok m)
    note st = CreateMessage_stored [OF assms(1,2) q [unfolded Ok]]
    obtain a e where ae: "addAttachmentRefs (env_attachments env) m (svc_atts s) = (a, e)" by force
    obtain a' e' where rel: "releaseAttachmentRefs (env_attachments env) m a = (a', e')" by force
    show ?thesis
    proof (cases e)
      case None
      then have s': "s' = s\<lparr>svc_store := st, svc_atts := a\<rparr>" "r = Inr m"
        using q Ok ae assms(3) by (simp_all add: createSenderMessage_def)
      show ?thesis by (rule created [of m]) (use st s' in simp_all)
    next
      case (Some err)
      have "msg_of st (msgID m) = Some m" using st(4) by simp
      moreover have "\<not> isDraft m" unfolding st(1) by simp
      ultimately have del: "Store_HardDelete (msgID m) st =
          (st\<lparr>messages := AList.delete (msgID m) (messages st)\<rparr>, Ok ())"
        using st(3,5) by (rule_tac HardDelete_stored) simp_all
      have s': "s' = s\<lparr>svc_store := st\<lparr>messages := AList.delete (msgID m) (messages st)\<rparr>, svc_atts := a'\<rparr>"
        "r = Inl (Wrapf err)"
        using q Ok ae rel Some del assms(3) by (simp_all add: createSenderMessage_def storeErr_def)
      have "msg_of (svc_store s') = msg_of (svc_store s)"
        using st(2,4) by (simp add: s' delete_conv' fun_upd_idem)
      then show ?thesis
        by (rule failed [OF s'(2)]) (simp add: s' store_ok_del st(7))
    qed
  qed
qed

text \<open>The quota check reads; it may refresh cached statistics.\<close>

definition same_mail :: "'a service \<Rightarrow> 'a service \<Rightarrow> bool" where
  "same_mail s s' \<longleftrightarrow> svc_store s' = svc_store s \<and> svc_atts s' = svc_atts s \<and> svc_events s' = svc_events s
     \<and> svc_state s' = svc_state s \<and> svc_failures s' = svc_failures s"

lemma same_mail_refl [simp]: "same_mail s s"
  by (simp add: same_mail_def)

lemma same_mail_trans: "same_mail a b \<Longrightarrow> same_mail b c \<Longrightarrow> same_mail a c"
  by (simp add: same_mail_def)

lemma getOrRefreshStats_same: "same_mail s (fst (getOrRefreshStats env now u s))"
  by (auto simp: getOrRefreshStats_def same_mail_def Let_def split: option.splits sum.splits res.splits)

lemma checkQuotaWithPolicy_same: "same_mail s (fst (checkQuotaWithPolicy env now u p s))"
  using getOrRefreshStats_same [of s env now u]
  by (auto simp: checkQuotaWithPolicy_def split: res.splits prod.splits)

lemma checkTarget_same: "same_mail s (fst (checkTarget env now u s))"
  using checkQuotaWithPolicy_same [of s env now u]
  by (auto simp: checkTarget_def split: option.splits sum.splits)

lemma eligibleLoop_same: "same_mail s (fst (eligibleLoop env now rs el fl s))"
proof (induction env now rs el fl s rule: eligibleLoop.induct)
  case (2 env now r rest el fl s)
  obtain s1 e where c: "checkTarget env now r s = (s1, e)" by force
  have "same_mail s s1" using checkTarget_same [of s env now r] c by simp
  then show ?case
    using 2 c by (cases e) (auto intro: same_mail_trans)
qed simp

lemma eligibleLoop_targets:
  assumes "eligibleLoop env now rs el fl s = (s', el', fl')"
  shows "set el' \<union> set (keys fl') = set el \<union> set (keys fl) \<union> set rs"
    and "distinct (keys fl) \<Longrightarrow> distinct (keys fl')"
    and "distinct (el @ rs) \<Longrightarrow> (set el \<union> set rs) \<inter> set (keys fl) = {} \<Longrightarrow>
      distinct el' \<and> set el' \<inter> set (keys fl') = {}"
proof -
  have "set el' \<union> set (keys fl') = set el \<union> set (keys fl) \<union> set rs
    \<and> (distinct (keys fl) \<longrightarrow> distinct (keys fl'))
    \<and> (distinct (el @ rs) \<longrightarrow> (set el \<union> set rs) \<inter> set (keys fl) = {} \<longrightarrow>
      distinct el' \<and> set el' \<inter> set (keys fl') = {})"
    using assms
  proof (induction env now rs el fl s rule: eligibleLoop.induct)
    case (2 env now r rest el fl s)
    obtain s1 e where c: "checkTarget env now r s = (s1, e)" by force
    show ?case
    proof (cases e)
      case None
      from 2(1) [OF c [symmetric] None] 2(3) c None show ?thesis by auto
    next
      case (Some err)
      from 2(2) [OF c [symmetric] Some] 2(3) c Some show ?thesis
        by (auto simp: dom_update distinct_update)
    qed
  qed auto
  then show "set el' \<union> set (keys fl') = set el \<union> set (keys fl) \<union> set rs"
    and "distinct (keys fl) \<Longrightarrow> distinct (keys fl')"
    and "distinct (el @ rs) \<Longrightarrow> (set el \<union> set rs) \<inter> set (keys fl) = {} \<Longrightarrow>
      distinct el' \<and> set el' \<inter> set (keys fl') = {}" by blast+
qed

text \<open>The batch appends one message for every result that says so.\<close>

lemma createIdempotentLoop_adds:
  assumes "uuid_ok uuid" "store_ok uuid st" "connected st" "list_all (\<lambda>e. snd e \<noteq> '''') es"
  shows "\<exists>st' rs. createIdempotentLoop uuid now es st = (st', map Ok rs) \<and> connected st' \<and> store_ok uuid st' \<and>
     messages st' = messages st @ map (\<lambda>(m, _). (msgID m, m)) (filter snd rs) \<and>
     list_all2 (\<lambda>e (m, c). c \<longrightarrow> m = newMessageFromData (fst e) (msgID m) now) es rs \<and>
     (list_all (\<lambda>e. entry_hit st e = None) es \<longrightarrow> distinct (map (\<lambda>e. idxKey (OwnerID (fst e)) (snd e)) es) \<longrightarrow>
       list_all snd rs)"
  using assms(2-4)
proof (induction es arbitrary: st)
  case Nil
  then show ?case by (intro exI [of _ st] exI [of _ "[]"]) simp
next
  case (Cons e es)
  obtain d key where e: "e = (d, key)" by force
  have key: "key \<noteq> ''''" "list_all (\<lambda>e. snd e \<noteq> '''') es" using Cons.prems(3) e by auto
  obtain st1 q where q: "Store_CreateMessageIdempotent uuid now d key st = (st1, q)" by force
  have ok1: "store_ok uuid st1"
    using CreateMessageIdempotent_ok [OF assms(1) Cons.prems(1), of now d key] q by simp
  have step: "\<exists>m c. q = Ok (m, c) \<and> connected st1
      \<and> messages st1 = messages st @ (if c then [(msgID m, m)] else [])
      \<and> (c \<longrightarrow> m = newMessageFromData d (msgID m) now)
      \<and> (entry_hit st e = None \<longrightarrow> c)
      \<and> (\<forall>k. k \<noteq> idxKey (OwnerID d) key \<longrightarrow> idempotent_hit st k = None \<longrightarrow> idempotent_hit st1 k = None)"
    using assms(1) Cons.prems(1,2) key(1)
  proof (cases rule: CreateMessageIdempotent_cases [where d = d and now = now])
    case (hit m)
    then show ?thesis using q Cons.prems(2) by (auto simp: e)
  next
    case (new s1 n)
    have s1: "s1 = st1" "q = Ok (newMessageFromData d (uuid n) now, True)" using new(2) q by simp_all
    have fresh: "(k, uuid n) \<notin> set (idempotencyIdx st)" for k
    proof -
      obtain s' n' where r: "reserve uuid (idxKey (OwnerID d) key) st = (s', n')" by force
      have "uuidSeq st \<le> n'" using r by (auto simp: reserve_def Let_def)
      moreover have "uuid n' = uuid n"
        using CreateMessageIdempotent_new [OF Cons.prems(2) key(1) new(1), of uuid now] r new(2)
        by (auto simp: Let_def dest: arg_cong [where f = msgID])
      ultimately show ?thesis using store_ok_fresh(2) [OF Cons.prems(1)] by metis
    qed
    have "idempotent_hit st1 k = None"
      if "k \<noteq> idxKey (OwnerID d) key" "idempotent_hit st k = None" for k
    proof -
      have idx: "map_of (idempotencyIdx st1) k = map_of (idempotencyIdx st) k"
        using new(6) that(1) s1 by (simp add: update_conv' delete_conv')
      show ?thesis
      proof (cases "map_of (idempotencyIdx st) k")
        case None
        then show ?thesis using idx by (simp add: idempotent_hit_def)
      next
        case (Some i)
        have "i \<noteq> uuid n" using fresh [of k] Some by (auto dest: map_of_SomeD)
        then show ?thesis using that(2) new(4) Some idx s1 by (simp add: idempotent_hit_def map_add_def)
      qed
    qed
    then have hits: "\<forall>k. k \<noteq> idxKey (OwnerID d) key \<longrightarrow> idempotent_hit st k = None \<longrightarrow> idempotent_hit st1 k = None"
      by blast
    show ?thesis
      by (intro exI [of _ "newMessageFromData d (uuid n) now"] exI [of _ True] conjI)
        (use new(4,5) s1 hits in simp_all)
  qed
  then obtain m c where mc: "q = Ok (m, c)" "connected st1"
      "messages st1 = messages st @ (if c then [(msgID m, m)] else [])"
      "c \<longrightarrow> m = newMessageFromData d (msgID m) now" "entry_hit st e = None \<longrightarrow> c"
      "\<forall>k. k \<noteq> idxKey (OwnerID d) key \<longrightarrow> idempotent_hit st k = None \<longrightarrow> idempotent_hit st1 k = None"
    by (elim exE conjE) (rule that)
  obtain st2 rs where IH: "createIdempotentLoop uuid now es st1 = (st2, map Ok rs)" "connected st2"
      "store_ok uuid st2" "messages st2 = messages st1 @ map (\<lambda>(m, _). (msgID m, m)) (filter snd rs)"
      "list_all2 (\<lambda>e (m, c). c \<longrightarrow> m = newMessageFromData (fst e) (msgID m) now) es rs"
      "list_all (\<lambda>e. entry_hit st1 e = None) es \<longrightarrow> distinct (map (\<lambda>e. idxKey (OwnerID (fst e)) (snd e)) es) \<longrightarrow>
       list_all snd rs"
    using Cons.IH [OF ok1 mc(2) key(2)] by blast
  have "list_all snd ((m, c) # rs)"
    if none: "list_all (\<lambda>e. entry_hit st e = None) (e # es)"
      and dist: "distinct (map (\<lambda>e. idxKey (OwnerID (fst e)) (snd e)) (e # es))"
  proof -
    have "entry_hit st1 x = None" if x: "x \<in> set es" for x
    proof -
      have "idxKey (OwnerID (fst x)) (snd x) \<noteq> idxKey (OwnerID d) key"
        using x dist by (force simp: e)
      moreover have "idempotent_hit st (idxKey (OwnerID (fst x)) (snd x)) = None"
        using x none by (simp add: list_all_iff entry_hit_def)
      ultimately show ?thesis using mc(6) by (simp add: entry_hit_def)
    qed
    then have "list_all (\<lambda>e. entry_hit st1 e = None) es" by (simp add: list_all_iff)
    then show ?thesis using none dist IH(6) mc(5) by simp
  qed
  then show ?case
    using q mc(1,3,4) IH(1-5)
    by (intro exI [of _ st2] exI [of _ "(m, c) # rs"]) (auto simp: e)
qed

text \<open>
  The loop over the results, when each is a message and whether it is new. \<open>lost\<close> is the set of
  the new messages whose attachment references could not be taken.
\<close>

definition newIDs :: "(string \<times> message \<times> bool) list \<Rightarrow> string list" where
  "newIDs ps = map (\<lambda>(_, m, _). msgID m) (filter (\<lambda>(_, _, c). c) ps)"

lemma newIDs_simps [simp]:
  "newIDs [] = []" "newIDs ((r, m, c) # ps) = (if c then msgID m # newIDs ps else newIDs ps)"
  by (simp_all add: newIDs_def)

definition received :: "'a env \<Rightarrow> time \<Rightarrow> string \<Rightarrow> string \<Rightarrow> (string \<times> message \<times> bool) list \<Rightarrow> mailbox_event list" where
  "received env now u subj ps =
     map (\<lambda>(r, m, _). MessageReceivedEvent (msgID m) r u subj now) ps"

lemma publishOnly_cases:
  assumes "publishOnly env n i ev s = (s', e)"
  shows "svc_store s' = svc_store s" "svc_atts s' = svc_atts s" "svc_state s' = svc_state s"
    "env_publish env ev = None \<Longrightarrow> svc_events s' = svc_events s @ [ev] \<and> e = None"
    "\<not> env_eventErrorsFatal env \<Longrightarrow> e = None"
  using assms by (auto simp: publishOnly_def publishTypedEvent_def split: option.splits if_splits)

definition kept :: "string set \<Rightarrow> (string \<times> message \<times> bool) list \<Rightarrow> (string \<times> message \<times> bool) list" where
  "kept lost ps = filter (\<lambda>(r, m, c). c \<and> msgID m \<notin> lost) ps"

definition reached :: "string set \<Rightarrow> (string \<times> message \<times> bool) list \<Rightarrow> string list" where
  "reached lost ps = map fst (filter (\<lambda>(r, m, c). \<not> (c \<and> msgID m \<in> lost)) ps)"

definition missed :: "string set \<Rightarrow> (string \<times> message \<times> bool) list \<Rightarrow> string set" where
  "missed lost ps = set (map fst (filter (\<lambda>(r, m, c). c \<and> msgID m \<in> lost) ps))"

lemma kept_simps [simp]:
  "kept lost [] = []"
  "kept lost ((r, m, c) # ps) = (if c \<and> msgID m \<notin> lost then (r, m, c) # kept lost ps else kept lost ps)"
  by (simp_all add: kept_def)

lemma reached_simps [simp]:
  "reached lost [] = []"
  "reached lost ((r, m, c) # ps) = (if c \<and> msgID m \<in> lost then reached lost ps else r # reached lost ps)"
  by (simp_all add: reached_def)

lemma missed_simps [simp]:
  "missed lost [] = {}"
  "missed lost ((r, m, c) # ps) = (if c \<and> msgID m \<in> lost then insert r (missed lost ps) else missed lost ps)"
  by (simp_all add: missed_def)

lemma lost_other:
  assumes "i \<notin> set (newIDs ps)"
  shows "kept (insert i lost) ps = kept lost ps" "reached (insert i lost) ps = reached lost ps"
    "missed (insert i lost) ps = missed lost ps"
  using assms by (induction ps) (auto split: if_splits)

record loop_state =
  ls_delivered :: "string list"
  ls_newly :: "string list"
  ls_failed :: "(string \<times> error) list"

definition loop_effect ::
    "'a env \<Rightarrow> time \<Rightarrow> string \<Rightarrow> string \<Rightarrow> (string \<times> message \<times> bool) list \<Rightarrow> string set \<Rightarrow>
     loop_state \<Rightarrow> 'a service \<Rightarrow> loop_state \<Rightarrow> 'a service \<Rightarrow> bool" where
  "loop_effect env now u subj ps lost l s l' s' \<longleftrightarrow>
     ls_delivered l' = ls_delivered l @ reached lost ps \<and>
     ls_newly l' = ls_newly l @ map fst (kept lost ps) \<and>
     set (keys (ls_failed l')) = set (keys (ls_failed l)) \<union> missed lost ps \<and>
     (distinct (keys (ls_failed l)) \<longrightarrow> distinct (keys (ls_failed l'))) \<and>
     msg_of (svc_store s') = (\<lambda>i. if i \<in> lost then None else msg_of (svc_store s) i) \<and>
     connected (svc_store s') = connected (svc_store s) \<and> svc_state s' = svc_state s \<and>
     (store_ok (env_uuid env) (svc_store s) \<longrightarrow> store_ok (env_uuid env) (svc_store s')) \<and>
     ((\<forall>ev. env_publish env ev = None) \<longrightarrow> svc_events s' = svc_events s @ received env now u subj (kept lost ps))"

lemma loop_effect_Nil: "loop_effect env now u subj [] {} l s l s"
  by (simp add: loop_effect_def received_def)

lemma loop_effect_old:
  assumes "loop_effect env now u subj ps lost (l\<lparr>ls_delivered := ls_delivered l @ [r]\<rparr>) s l' s'"
  shows "loop_effect env now u subj ((r, m, False) # ps) lost l s l' s'"
  using assms by (simp add: loop_effect_def)

lemma loop_effect_kept:
  assumes "loop_effect env now u subj ps lost
      (l\<lparr>ls_delivered := ls_delivered l @ [r], ls_newly := ls_newly l @ [r]\<rparr>) s1 l' s'"
    and "publishOnly env n i (MessageReceivedEvent (msgID m) r u subj now) (s\<lparr>svc_atts := a\<rparr>) = (s1, e)"
    and "msgID m \<notin> lost"
  shows "loop_effect env now u subj ((r, m, True) # ps) lost l s l' s'"
proof -
  have st: "svc_store s1 = svc_store s" "svc_state s1 = svc_state s"
    using publishOnly_cases(1,3) [OF assms(2)] by simp_all
  show ?thesis
    using assms(1,3) publishOnly_cases(4) [OF assms(2)] unfolding loop_effect_def st
    by (simp add: received_def)
qed

lemma loop_effect_lost:
  assumes "loop_effect env now u subj ps lost (l\<lparr>ls_failed := AList.update r err (ls_failed l)\<rparr>)
      (s\<lparr>svc_store := svc_store s\<lparr>messages := AList.delete (msgID m) (messages (svc_store s))\<rparr>, svc_atts := a\<rparr>) l' s'"
    and "msgID m \<notin> set (newIDs ps)"
  shows "loop_effect env now u subj ((r, m, True) # ps) (insert (msgID m) lost) l s l' s'"
  using assms(1) unfolding loop_effect_def
  by (simp add: lost_other [OF assms(2)] dom_update distinct_update store_ok_del delete_conv' fun_eq_iff)

lemma deliverLoop_store:
  assumes "deliverLoop env now u subj (map (\<lambda>(r, x). (r, Ok x)) ps)
      (ls_delivered l) (ls_newly l) (ls_failed l) s = (s', del', new', fl')"
    and "connected (svc_store s)" "distinct (newIDs ps)"
    and "\<And>r m. (r, m, True) \<in> set ps \<Longrightarrow>
      msg_of (svc_store s) (msgID m) = Some m \<and> \<not> isDraft m \<and> msgID m \<noteq> ''''"
  shows "\<exists>lost \<subseteq> set (newIDs ps). loop_effect env now u subj ps lost l s
     \<lparr>ls_delivered = del', ls_newly = new', ls_failed = fl'\<rparr> s'"
  using assms
proof (induction ps arbitrary: l s)
  case Nil
  then show ?case using loop_effect_Nil by (cases l) auto
next
  case (Cons p ps)
  obtain r m c where p: "p = (r, m, c)" by (cases p)
  show ?case
  proof (cases c)
    case False
    have "deliverLoop env now u subj (map (\<lambda>(r, x). (r, Ok x)) ps) (ls_delivered l @ [r]) (ls_newly l) (ls_failed l) s
        = (s', del', new', fl')"
      using Cons.prems(1) p False by simp
    with Cons.IH [of "l\<lparr>ls_delivered := ls_delivered l @ [r]\<rparr>" s] Cons.prems(2-4) p False
    obtain lost where "lost \<subseteq> set (newIDs ps)" "loop_effect env now u subj ps lost
        (l\<lparr>ls_delivered := ls_delivered l @ [r]\<rparr>) s \<lparr>ls_delivered = del', ls_newly = new', ls_failed = fl'\<rparr> s'"
      by auto
    then show ?thesis using loop_effect_old [of env now u subj ps lost l r] p False by auto
  next
    case True
    obtain a e where ae: "addAttachmentRefs (env_attachments env) m (svc_atts s) = (a, e)" by force
    obtain a' e' where rel: "releaseAttachmentRefs (env_attachments env) m a = (a', e')" by force
    have m: "msg_of (svc_store s) (msgID m) = Some m" "\<not> isDraft m" "msgID m \<noteq> ''''"
      using Cons.prems(4) p True by auto
    have ids: "msgID m \<notin> set (newIDs ps)" "distinct (newIDs ps)" using Cons.prems(3) p True by simp_all
    show ?thesis
    proof (cases e)
      case (Some err)
      let ?s = "s\<lparr>svc_store := svc_store s\<lparr>messages := AList.delete (msgID m) (messages (svc_store s))\<rparr>, svc_atts := a'\<rparr>"
      let ?l = "l\<lparr>ls_failed := AList.update r (Wrapf err) (ls_failed l)\<rparr>"
      have "deliverLoop env now u subj (map (\<lambda>(r, x). (r, Ok x)) ps) (ls_delivered ?l) (ls_newly ?l) (ls_failed ?l) ?s
          = (s', del', new', fl')"
        using Cons.prems(1) p True ae rel Some HardDelete_stored [OF Cons.prems(2) m(3,1,2)] by simp
      moreover have "connected (svc_store ?s)" using Cons.prems(2) by simp
      moreover have "msg_of (svc_store ?s) (msgID m') = Some m' \<and> \<not> isDraft m' \<and> msgID m' \<noteq> ''''"
        if "(r', m', True) \<in> set ps" for r' m'
      proof -
        have "msgID m' \<noteq> msgID m" using that ids(1) by (force simp: newIDs_def)
        then show ?thesis using Cons.prems(4) [of r' m'] that by (simp add: delete_conv')
      qed
      ultimately obtain lost where "lost \<subseteq> set (newIDs ps)"
        "loop_effect env now u subj ps lost ?l ?s \<lparr>ls_delivered = del', ls_newly = new', ls_failed = fl'\<rparr> s'"
        using Cons.IH [of ?l ?s] ids(2) by blast
      then show ?thesis using loop_effect_lost ids(1) p True
        by (intro exI [of _ "insert (msgID m) lost"] conjI) auto
    next
      case None
      obtain s1 e1 where pub: "publishOnly env EventNameMessageReceived (msgID m)
          (MessageReceivedEvent (msgID m) r u subj now) (s\<lparr>svc_atts := a\<rparr>) = (s1, e1)" by force
      let ?l = "l\<lparr>ls_delivered := ls_delivered l @ [r], ls_newly := ls_newly l @ [r]\<rparr>"
      have "deliverLoop env now u subj (map (\<lambda>(r, x). (r, Ok x)) ps) (ls_delivered ?l) (ls_newly ?l) (ls_failed ?l) s1
          = (s', del', new', fl')"
        using Cons.prems(1) p True ae None pub by simp
      moreover have st1: "svc_store s1 = svc_store s" using publishOnly_cases(1) [OF pub] by simp
      ultimately obtain lost where lost: "lost \<subseteq> set (newIDs ps)"
        "loop_effect env now u subj ps lost ?l s1 \<lparr>ls_delivered = del', ls_newly = new', ls_failed = fl'\<rparr> s'"
        using Cons.IH [of ?l s1] ids(2) Cons.prems(2,4) by auto
      then have "msgID m \<notin> lost" using ids(1) by blast
      from loop_effect_kept [OF lost(2) pub this] lost(1) p True show ?thesis
        by (intro exI [of _ lost]) auto
    qed
  qed
qed

end
