(* ===== verification/Mailbox_Sent.thy ===== *)
theory Mailbox_Sent
  imports Mailbox_Delivery
begin

text \<open>
  What a send does to the message store as a whole. The lemmas put the phases of the theory
  \<open>Mailbox_Delivery\<close> together; the properties say that a send that returns no message leaves the
  stored messages as they were, and that one that returns a message has added exactly the copy
  of the sender and one copy for each recipient it reports as reached.
\<close>

section \<open>Delivery to the recipients\<close>

definition entries :: "(string \<times> message) list \<Rightarrow> (string \<times> message) list" where
  "entries copies = map (\<lambda>(_, m). (msgID m, m)) copies"

lemma keys_entries: "keys (entries copies) = map (msgID \<circ> snd) copies"
  by (simp add: entries_def comp_def case_prod_beta)

text \<open>
  \<open>delivers\<close>: the copies, each with its recipient, are new messages made from the data of the
  recipient, and the store has them beside what it had.
\<close>

definition delivers ::
    "'a env \<Rightarrow> time \<Rightarrow> string \<Rightarrow> string \<Rightarrow> (string \<Rightarrow> MessageData) \<Rightarrow> (string \<times> message) list \<Rightarrow>
     'a service \<Rightarrow> 'a service \<Rightarrow> bool" where
  "delivers env now u subj dataFor copies s s' \<longleftrightarrow>
     list_all (\<lambda>(r, m). m = newMessageFromData (dataFor r) (msgID m) now \<and>
       msg_of (svc_store s) (msgID m) = None \<and> msgID m \<noteq> '''') copies \<and>
     distinct (keys (entries copies)) \<and>
     msg_of (svc_store s') = msg_of (svc_store s) ++ map_of (entries copies) \<and>
     connected (svc_store s') = connected (svc_store s) \<and> store_ok (env_uuid env) (svc_store s') \<and>
     svc_state s' = svc_state s \<and>
     ((\<forall>ev. env_publish env ev = None) \<longrightarrow>
       svc_events s' = svc_events s @ map (\<lambda>(r, m). MessageReceivedEvent (msgID m) r u subj now) copies)"

lemma delivers_none: "same_mail s s' \<Longrightarrow> store_ok (env_uuid env) (svc_store s) \<Longrightarrow> delivers env now u subj d [] s s'"
  by (simp add: delivers_def same_mail_def entries_def)

lemma newIDs_zip:
  "length rs = length el \<Longrightarrow> newIDs (zip el rs) = keys (map (\<lambda>(m, _). (msgID m, m)) (filter snd rs))"
  by (induction rs el rule: list_induct2) auto

lemma entries_kept:
  "length rs = length el \<Longrightarrow> entries (map (\<lambda>(r, m, _). (r, m)) (kept lost (zip el rs))) =
     filter (\<lambda>(k, _). k \<notin> lost) (map (\<lambda>(m, _). (msgID m, m)) (filter snd rs))"
  by (induction rs el rule: list_induct2) (auto simp: entries_def)

lemma kept_data:
  assumes "list_all2 (\<lambda>e (m, c). c \<longrightarrow> m = newMessageFromData (fst e) (msgID m) now) (map (\<lambda>r. (d r, key r)) el) rs"
    and "(r, m, c) \<in> set (kept lost (zip el rs))"
  shows "m = newMessageFromData (d r) (msgID m) now"
proof -
  have "length el = length rs" using list_all2_lengthD [OF assms(1)] by simp
  then show ?thesis using assms
    by (induction el rs rule: list_induct2) (auto split: if_splits)
qed

lemma reached_kept:
  "set (map fst (kept lost ps)) \<subseteq> set (reached lost ps)"
  "set (reached lost ps) \<union> missed lost ps = fst ` set ps"
  "list_all (\<lambda>(r, m, c). c) ps \<Longrightarrow> reached lost ps = map fst (kept lost ps)"
  "distinct (map fst ps) \<Longrightarrow> distinct (reached lost ps) \<and> set (reached lost ps) \<inter> missed lost ps = {}"
proof -
  show "set (map fst (kept lost ps)) \<subseteq> set (reached lost ps)"
    by (auto simp: kept_def reached_def)
  show "set (reached lost ps) \<union> missed lost ps = fst ` set ps"
    by (force simp: reached_def missed_def)
  show "list_all (\<lambda>(r, m, c). c) ps \<Longrightarrow> reached lost ps = map fst (kept lost ps)"
    by (induction ps) auto
  have sub: "set (reached lost ps) \<subseteq> fst ` set ps" "missed lost ps \<subseteq> fst ` set ps" for ps
    by (auto simp: reached_def missed_def)
  show "distinct (map fst ps) \<Longrightarrow> distinct (reached lost ps) \<and> set (reached lost ps) \<inter> missed lost ps = {}"
  proof (induction ps)
    case (Cons p ps)
    then show ?case using sub [of ps] by (cases p) auto
  qed simp
qed

text \<open>The idempotency keys of one send differ, also when a recipient has a colon in its name.\<close>

lemma keys_differ: "idxKey r (sid @ '':'' @ r) = idxKey q (sid @ '':'' @ q) \<longleftrightarrow> r = q"
proof
  assume eq: "idxKey r (sid @ '':'' @ r) = idxKey q (sid @ '':'' @ q)"
  have "length (idxKey r (sid @ '':'' @ r)) = length (idxKey q (sid @ '':'' @ q))"
    by (rule arg_cong [OF eq])
  then have "length r = length q" by (simp add: idxKey_def)
  with eq show "r = q" by (simp add: idxKey_def)
qed simp

lemma batch_delivers:
  assumes uuid: "uuid_ok (env_uuid env)" and ok: "store_ok (env_uuid env) (svc_store s)"
    and conn: "connected (svc_store s)"
    and batch: "Store_CreateMessagesIdempotent (env_uuid env) now (map (\<lambda>r. (d r, sid @ '':'' @ r)) el) (svc_store s) = (st, Ok results)"
    and loop: "deliverLoop env now u subj (zip el results) [] [] fl (s\<lparr>svc_store := st\<rparr>) = (s', del, new, fl')"
  shows "\<exists>copies. map fst copies = new \<and> delivers env now u subj d copies s s' \<and> set new \<subseteq> set del \<and>
     set del \<union> set (keys fl') = set el \<union> set (keys fl) \<and> (distinct (keys fl) \<longrightarrow> distinct (keys fl')) \<and>
     (distinct el \<longrightarrow> set el \<inter> set (keys fl) = {} \<longrightarrow> distinct del \<and> set del \<inter> set (keys fl') = {}) \<and>
     (distinct el \<longrightarrow> (\<forall>r. OwnerID (d r) = r) \<longrightarrow>
       (\<forall>r. idempotent_hit (svc_store s) (idxKey r (sid @ '':'' @ r)) = None) \<longrightarrow> del = new)"
proof -
  let ?uuid = "env_uuid env" and ?es = "map (\<lambda>r. (d r, sid @ '':'' @ r)) el"
  have "list_all (\<lambda>e. snd e \<noteq> '''') ?es" by (simp add: list_all_iff)
  from createIdempotentLoop_adds [OF uuid ok conn this, of now]
  obtain st' rs where "createIdempotentLoop ?uuid now ?es (svc_store s) = (st', map Ok rs) \<and> connected st' \<and>
     store_ok ?uuid st' \<and> messages st' = messages (svc_store s) @ map (\<lambda>(m, _). (msgID m, m)) (filter snd rs) \<and>
     list_all2 (\<lambda>e (m, c). c \<longrightarrow> m = newMessageFromData (fst e) (msgID m) now) ?es rs \<and>
     (list_all (\<lambda>e. entry_hit (svc_store s) e = None) ?es \<longrightarrow>
       distinct (map (\<lambda>e. idxKey (OwnerID (fst e)) (snd e)) ?es) \<longrightarrow> list_all snd rs)"
    by blast
  note facts = this
  have st': "st' = st" and results: "results = map Ok rs"
    using facts batch conn by (simp_all add: Store_CreateMessagesIdempotent_def)
  have len: "length rs = length el"
    using facts [THEN conjunct2, THEN conjunct2, THEN conjunct2, THEN conjunct2, THEN conjunct1]
    by (simp add: list_all2_lengthD [symmetric])
  define news where "news = map (\<lambda>(m, _). (msgID m, m)) (filter snd rs)"
  have msgs: "messages st = messages (svc_store s) @ news" and stok: "store_ok ?uuid st" and c: "connected st"
    using facts st' by (auto simp: news_def)
  have data: "list_all2 (\<lambda>e (m, c). c \<longrightarrow> m = newMessageFromData (fst e) (msgID m) now) ?es rs"
    using facts by blast
  let ?ps = "zip el rs" and ?s = "s\<lparr>svc_store := st\<rparr>"
  have dist: "distinct (keys (messages (svc_store s) @ news))"
    using stok msgs by (metis store_invD(1) store_ok_def)
  have ids: "newIDs ?ps = keys news" unfolding news_def by (rule newIDs_zip [OF len])
  have "msg_of (svc_store ?s) (msgID m) = Some m \<and> \<not> isDraft m \<and> msgID m \<noteq> ''''"
    if "(r, m, True) \<in> set ?ps" for r m
  proof -
    have "(msgID m, m) \<in> set (messages st)"
      using that set_zip_rightD [of r "(m, True)" el rs] by (force simp: msgs news_def)
    then have 1: "msg_of st (msgID m) = Some m"
      using dist [folded msgs] by (simp add: map_of_is_SomeI)
    have eq: "m = newMessageFromData (d r) (msgID m) now"
      by (rule kept_data [OF data, of r m True "{}"]) (simp add: kept_def that)
    have 2: "\<not> isDraft m"
      using arg_cong [OF eq, of isDraft] by (simp only: newMessageFromData_sel simp_thms)
    have "msgID m \<noteq> ''''"
      using store_invD(3) [OF _ 1] stok by (simp add: store_ok_def entry_ok_def)
    with 1 2 show ?thesis by simp
  qed
  note stored = this
  have "deliverLoop env now u subj (map (\<lambda>(r, x). (r, Ok x)) ?ps) [] [] fl ?s = (s', del, new, fl')"
    using loop results by (simp add: zip_map2)
  moreover have "distinct (newIDs ?ps)" using dist ids by simp
  ultimately obtain lost where lost: "lost \<subseteq> set (newIDs ?ps)" and
    eff: "loop_effect env now u subj ?ps lost \<lparr>ls_delivered = [], ls_newly = [], ls_failed = fl\<rparr> ?s
      \<lparr>ls_delivered = del, ls_newly = new, ls_failed = fl'\<rparr> s'"
    using deliverLoop_store [of env now u subj ?ps "\<lparr>ls_delivered = [], ls_newly = [], ls_failed = fl\<rparr>" ?s s' del new fl']
      c stored by auto
  define copies where "copies = map (\<lambda>(r, m, _). (r, m)) (kept lost ?ps)"
  have fsts: "map fst copies = map fst (kept lost ?ps)" by (simp add: copies_def comp_def case_prod_beta)
  have ent: "entries copies = filter (\<lambda>(k, _). k \<notin> lost) news"
    unfolding copies_def news_def by (rule entries_kept [OF len])
  have sets: "fst ` set ?ps = set el" using len by (metis list.set_map map_fst_zip)
  have "msg_of (svc_store s') i = (msg_of (svc_store s) ++ map_of (entries copies)) i" for i
  proof -
    have "msg_of (svc_store s') i = (if i \<in> lost then None else (map_of news ++ msg_of (svc_store s)) i)"
      using eff msgs by (simp add: loop_effect_def)
    moreover have "msg_of (svc_store s) i = None" if "i \<in> set (keys news)"
      using dist that by (auto simp: map_of_eq_None_iff)
    moreover have "map_of news i = None" if "i \<notin> set (keys news)"
      using that by (simp add: map_of_eq_None_iff)
    ultimately show ?thesis
      using lost ids unfolding ent map_add_def map_of_filter_keys
      by (cases "i \<in> set (keys news)") (auto split: option.splits)
  qed
  moreover have "list_all (\<lambda>(r, m). m = newMessageFromData (d r) (msgID m) now \<and>
       msg_of (svc_store s) (msgID m) = None \<and> msgID m \<noteq> '''') copies"
    unfolding list_all_iff
  proof (rule ballI, clarify)
    fix r m
    assume "(r, m) \<in> set copies"
    then obtain c where k: "(r, m, c) \<in> set (kept lost ?ps)" by (auto simp: copies_def)
    then have "(r, m, True) \<in> set ?ps" by (auto simp: kept_def)
    moreover from this have "msgID m \<in> set (keys news)"
      using set_zip_rightD [of r "(m, True)" el rs] by (force simp: news_def)
    then have "msg_of (svc_store s) (msgID m) = None" using dist by (auto simp: map_of_eq_None_iff)
    ultimately show "m = newMessageFromData (d r) (msgID m) now \<and>
        msg_of (svc_store s) (msgID m) = None \<and> msgID m \<noteq> ''''"
      using stored kept_data [OF data k] by blast
  qed
  moreover have "distinct (keys (entries copies))"
    unfolding ent using dist by (simp add: distinct_map_filter)
  ultimately have del: "delivers env now u subj d copies s s'"
    using eff stok c conn unfolding delivers_def loop_effect_def
    by (simp add: received_def copies_def fun_eq_iff comp_def case_prod_beta)
  have l: "del = reached lost ?ps" "new = map fst (kept lost ?ps)"
    "set (keys fl') = set (keys fl) \<union> missed lost ?ps" "distinct (keys fl) \<longrightarrow> distinct (keys fl')"
    using eff by (simp_all add: loop_effect_def)
  have el: "map fst ?ps = el" using len by simp
  note r = reached_kept [where lost = lost and ps = ?ps, unfolded sets el]
  have all_new: "list_all (\<lambda>(r, m, c). c) ?ps"
    if "distinct el" "\<forall>r. OwnerID (d r) = r" "\<forall>r. idempotent_hit (svc_store s) (idxKey r (sid @ '':'' @ r)) = None"
  proof -
    have "list_all (\<lambda>e. entry_hit (svc_store s) e = None) ?es" using that(2,3) by (simp add: list_all_iff)
    moreover have "distinct (map (\<lambda>e. idxKey (OwnerID (fst e)) (snd e)) ?es)"
      using that(1,2) by (simp add: distinct_map comp_def inj_on_def keys_differ [simplified])
    ultimately have "list_all snd rs" using facts by blast
    then show ?thesis by (force simp: list_all_iff dest: set_zip_rightD)
  qed
  show ?thesis
  proof (intro exI [of _ copies] conjI impI)
    show "map fst copies = new" using fsts l(2) by simp
    show "set new \<subseteq> set del" using r(1) l by simp
    show "set del \<union> set (keys fl') = set el \<union> set (keys fl)" using r(2) l by auto
    show "distinct del" "set del \<inter> set (keys fl') = {}" if "distinct el" "set el \<inter> set (keys fl) = {}"
      using r(2) r(4) that l by auto
    show "del = new" if "distinct el" "\<forall>r. OwnerID (d r) = r"
      "\<forall>r. idempotent_hit (svc_store s) (idxKey r (sid @ '':'' @ r)) = None"
      using r(3) all_new [OF that] l by simp
  qed (use del l(4) in blast)+
qed

lemma delivers_same: "same_mail s s1 \<Longrightarrow> delivers env now u subj d copies s1 s' \<Longrightarrow> delivers env now u subj d copies s s'"
  by (simp add: delivers_def same_mail_def)

definition targetsOf :: "message \<Rightarrow> string list \<Rightarrow> string list" where
  "targetsOf draft deliverTo = (if deliverTo = [] then recipientIDs draft else deliverTo)"

lemma deliverToRecipients_delivers:
  assumes uuid: "uuid_ok (env_uuid env)" and ok: "store_ok (env_uuid env) (svc_store s)"
    and conn: "connected (svc_store s)"
    and run: "deliverToRecipients env now u draft d sid deliverTo s = (s', del, new, fl)"
  shows "\<exists>copies. map fst copies = new \<and> delivers env now u (subject draft) d copies s s' \<and> set new \<subseteq> set del \<and>
     set del \<union> set (keys fl) = set (targetsOf draft deliverTo) \<and> distinct (keys fl) \<and>
     (distinct (targetsOf draft deliverTo) \<longrightarrow> distinct del \<and> set del \<inter> set (keys fl) = {}) \<and>
     (distinct (targetsOf draft deliverTo) \<longrightarrow> (\<forall>r. OwnerID (d r) = r) \<longrightarrow>
       (\<forall>r. idempotent_hit (svc_store s) (idxKey r (sid @ '':'' @ r)) = None) \<longrightarrow> del = new)"
proof -
  let ?T = "targetsOf draft deliverTo"
  obtain s1 el fl1 where e: "eligibleLoop env now ?T [] [] s = (s1, el, fl1)" by (cases "eligibleLoop env now ?T [] [] s")
  have same: "same_mail s s1" using eligibleLoop_same [of s env now ?T "[]" "[]"] e by simp
  then have st1: "svc_store s1 = svc_store s" by (simp add: same_mail_def)
  note t = eligibleLoop_targets [OF e, simplified]
  show ?thesis
  proof (cases "el = []")
    case True
    with run e have "s' = s1" "del = []" "new = []" "fl = fl1"
      by (simp_all add: deliverToRecipients_def targetsOf_def Let_def)
    with True t same ok delivers_none [of s s1] show ?thesis
      by (intro exI [of _ "[]"]) auto
  next
    case False
    obtain st rs where "createIdempotentLoop (env_uuid env) now (map (\<lambda>r. (d r, sid @ '':'' @ r)) el)
        (svc_store s1) = (st, rs)" by force
    then have b: "Store_CreateMessagesIdempotent (env_uuid env) now (map (\<lambda>r. (d r, sid @ '':'' @ r)) el)
        (svc_store s1) = (st, Ok rs)"
      using conn st1 by (simp add: Store_CreateMessagesIdempotent_def)
    have "deliverLoop env now u (subject draft) (zip el rs) [] [] fl1 (s1\<lparr>svc_store := st\<rparr>) = (s', del, new, fl)"
      using run e b False by (simp add: deliverToRecipients_def targetsOf_def [symmetric] Let_def)
    from batch_delivers [OF uuid _ _ b this] ok conn st1
    obtain copies where "map fst copies = new" "delivers env now u (subject draft) d copies s1 s'" "set new \<subseteq> set del"
      and rest: "set del \<union> set (keys fl) = set el \<union> set (keys fl1)" "distinct (keys fl1) \<longrightarrow> distinct (keys fl)"
        "distinct el \<longrightarrow> set el \<inter> set (keys fl1) = {} \<longrightarrow> distinct del \<and> set del \<inter> set (keys fl) = {}"
        "distinct el \<longrightarrow> (\<forall>r. OwnerID (d r) = r) \<longrightarrow>
           (\<forall>r. idempotent_hit (svc_store s) (idxKey r (sid @ '':'' @ r)) = None) \<longrightarrow> del = new"
      by auto
    then show ?thesis
      using t delivers_same [OF same] by (intro exI [of _ copies]) auto
  qed
qed

section \<open>The whole send\<close>

definition dropDraft :: "string \<Rightarrow> (string \<Rightarrow> message option) \<Rightarrow> string \<Rightarrow> message option" where
  "dropDraft i f = (case f i of Some d \<Rightarrow> if i \<noteq> '''' \<and> isDraft d then f(i := None) else f | None \<Rightarrow> f)"

lemma dropDraft_add:
  assumes "\<And>j m. g j = Some m \<Longrightarrow> f j = None \<and> \<not> isDraft m"
  shows "dropDraft i (f ++ g) = dropDraft i f ++ g"
proof (cases "g i")
  case None
  then show ?thesis by (auto simp: dropDraft_def map_add_def fun_eq_iff split: option.splits)
next
  case (Some m)
  with assms [OF Some] show ?thesis by (simp add: dropDraft_def map_add_def)
qed

lemma dropDraft_upd:
  assumes "f i = None" "\<not> isDraft m"
  shows "dropDraft j (f(i \<mapsto> m)) = (dropDraft j f)(i \<mapsto> m)"
proof -
  have "f k = None \<and> \<not> isDraft m'" if "[i \<mapsto> m] k = Some m'" for k m'
    using that assms by (simp split: if_splits)
  then have "dropDraft j (f ++ [i \<mapsto> m]) = dropDraft j f ++ [i \<mapsto> m]" by (rule dropDraft_add)
  then show ?thesis by simp
qed

lemma DeleteDraft_drop:
  assumes "connected st"
  shows "msg_of (if i \<noteq> '''' then fst (Store_DeleteDraft i st) else st) = dropDraft i (msg_of st)"
  using assms by (auto simp: Store_DeleteDraft_def dropDraft_def delete_conv' split: option.splits)

lemma finalizeDelivery_store:
  assumes conn: "connected (svc_store s)" and ok: "store_ok uuid (svc_store s)"
    and c: "msg_of (svc_store s) (msgID c) = Some c" "\<not> isDraft c"
    and run: "finalizeDelivery env now c dl draft s = (s', m, e)"
  shows "m = c\<lparr>folderID := FolderSent, updatedAt := now\<rparr>"
    "msg_of (svc_store s') = dropDraft (msgID draft) ((msg_of (svc_store s))(msgID c \<mapsto> m))"
    "store_ok uuid (svc_store s')" "svc_state s' = svc_state s"
    "\<not> env_eventErrorsFatal env \<Longrightarrow> e = None"
    "\<forall>ev. env_publish env ev = None \<Longrightarrow> e = None \<and>
      svc_events s' = svc_events s @ [MessageSentEvent (msgID c) (senderID c) dl (subject c) now]"
proof -
  let ?m = "c\<lparr>folderID := FolderSent, updatedAt := now\<rparr>"
  define st where "st = svc_store s\<lparr>messages := AList.update (msgID c) ?m (messages (svc_store s))\<rparr>"
  define st2 where "st2 = (if msgID draft \<noteq> '''' then fst (Store_DeleteDraft (msgID draft) st) else st)"
  have id: "msgID c \<noteq> ''''"
    using store_invD(3) [OF _ c(1)] ok by (simp add: store_ok_def entry_ok_def)
  have mv: "Store_MoveToFolder now FolderSent [] (msgID c) (svc_store s) = (st, Ok ())"
    using conn id c by (simp add: Store_MoveToFolder_def ApplyMoveOptions_def st_def)
  have st: "connected st" "msg_of st = (msg_of (svc_store s))(msgID c \<mapsto> ?m)"
    using conn by (simp_all add: st_def update_conv')
  have ok1: "store_ok uuid st"
    using move.op_ok [OF ok, of now FolderSent "[]" "msgID c"] mv by simp
  have ok2: "store_ok uuid st2" using DeleteDraft_ok [OF ok1] ok1 by (simp add: st2_def)
  have m2: "msg_of st2 = dropDraft (msgID draft) (msg_of st)"
    unfolding st2_def by (rule DeleteDraft_drop [OF st(1)])
  have conn2: "connected st2"
    using st(1) by (simp add: st2_def Store_DeleteDraft_def split: option.splits)
  have "msg_of st2 (msgID c) = Some ?m" unfolding m2 st(2) using c(2) by (simp add: dropDraft_def split: option.splits)
  then have get: "Store_Get (msgID c) st2 = Ok ?m" using conn2 id c(2) by (simp add: Store_Get_def)
  obtain s3 e3 where pub: "publishOnly env EventNameMessageSent (msgID c)
      (MessageSentEvent (msgID c) (senderID c) dl (subject c) now) (s\<lparr>svc_store := st2\<rparr>) = (s3, e3)" by force
  have fin: "s' = s3" "m = ?m" "e = e3"
    using run mv get pub unfolding finalizeDelivery_def st2_def [symmetric]
    by (simp_all add: Let_def st2_def [symmetric])
  note p = publishOnly_cases [OF pub]
  show "m = ?m" by (rule fin(2))
  show "msg_of (svc_store s') = dropDraft (msgID draft) ((msg_of (svc_store s))(msgID c \<mapsto> m))"
    using p(1) m2 st(2) fin by simp
  show "store_ok uuid (svc_store s')" "svc_state s' = svc_state s" using p(1,3) ok2 fin by simp_all
  show "e = None" if "\<not> env_eventErrorsFatal env" using p(5) [OF that] fin by simp
  show "e = None \<and> svc_events s' = svc_events s @ [MessageSentEvent (msgID c) (senderID c) dl (subject c) now]"
    if "\<forall>ev. env_publish env ev = None" using p(4) that fin by simp
qed

lemma rollbackSenderMessage_store:
  assumes "connected (svc_store s)" "msg_of (svc_store s) (msgID c) = Some c" "\<not> isDraft c" "msgID c \<noteq> ''''"
    and "rollbackSenderMessage env c s = (s', e)"
  shows "svc_store s' = svc_store s\<lparr>messages := AList.delete (msgID c) (messages (svc_store s))\<rparr>"
    "svc_state s' = svc_state s"
  using assms(5) HardDelete_stored [OF assms(1,4,2,3)]
  by (auto simp: rollbackSenderMessage_def split: prod.splits)

lemma createSenderMessage_state: "svc_state (fst (createSenderMessage env now d s)) = svc_state s"
  by (simp add: createSenderMessage_def split: prod.splits res.splits option.splits)

lemma deliverDraft_cases:
  fixes draft u thread replyTo external expires available env s
  defines "d0 \<equiv> senderData u draft thread replyTo external expires available"
    and "d \<equiv> recipientData u draft thread replyTo external expires available"
    and "sid \<equiv> env_uuid env (uuidSeq (svc_store s))"
  assumes uuid: "uuid_ok (env_uuid env)" and ok: "store_ok (env_uuid env) (svc_store s)"
    and run: "deliverDraft env now u draft thread replyTo external expires available deliverTo s = (s', r, e)"
  obtains (failed) "r = None" "msg_of (svc_store s') = msg_of (svc_store s)" "store_ok (env_uuid env) (svc_store s')"
      "e \<noteq> None" "svc_state s' = svc_state s"
  | (sent) m copies del fl where "r = Some m"
      "m = (newMessageFromData d0 sid now)\<lparr>folderID := FolderSent, updatedAt := now\<rparr>"
      "msg_of (svc_store s) sid = None" "set (map fst copies) \<subseteq> set del" "del \<noteq> []"
      "set del \<union> set (keys fl) = set (targetsOf draft deliverTo)" "distinct (keys fl)"
      "distinct (targetsOf draft deliverTo) \<Longrightarrow> distinct del \<and> set del \<inter> set (keys fl) = {}"
      "distinct (targetsOf draft deliverTo) \<Longrightarrow>
        \<forall>r. map_of (idempotencyIdx (svc_store s)) (idxKey r (sid @ '':'' @ r)) = None \<Longrightarrow> del = map fst copies"
      "\<forall>(r, c) \<in> set copies. c = newMessageFromData (d r) (msgID c) now \<and>
        msg_of (svc_store s) (msgID c) = None \<and> msgID c \<noteq> sid \<and> msgID c \<noteq> ''''"
      "distinct (keys (entries copies))"
      "msg_of (svc_store s') = (dropDraft (msgID draft) (msg_of (svc_store s)))(sid \<mapsto> m) ++ map_of (entries copies)"
      "store_ok (env_uuid env) (svc_store s')" "svc_state s' = svc_state s" "fl \<noteq> [] \<Longrightarrow> e \<noteq> None"
      "\<not> env_eventErrorsFatal env \<Longrightarrow> (\<And>x. afterSendLoop (env_plugins env) u x = None) \<Longrightarrow>
        e = (if fl = [] then None else Some (PartialDeliveryError sid del fl))"
      "\<forall>ev. env_publish env ev = None \<Longrightarrow> svc_events s' = svc_events s @
        map (\<lambda>(r, c). MessageReceivedEvent (msgID c) r u (subject draft) now) copies @
        [MessageSentEvent sid u (map fst copies) (subject draft) now]"
proof -
  obtain s1 q where q: "createSenderMessage env now d0 s = (s1, q)" by force
  from q have state1: "svc_state s1 = svc_state s" using createSenderMessage_state [of env now d0 s] by simp
  show ?thesis
    using uuid ok q
  proof (cases rule: createSenderMessage_store)
    case (failed err)
    with q run have "r = None" "s' = s1" "e = Some err" by (simp_all add: deliverDraft_def d0_def)
    with failed state1 show ?thesis by (intro that(1)) simp_all
  next
    case (created c)
    have c: "c = newMessageFromData d0 sid now" "msgID c = sid" "\<not> isDraft c" "senderID c = u" "subject c = subject draft"
      using created(2) by (simp_all add: sid_def d0_def senderData_def)
    obtain s2 del new fl where dl: "deliverToRecipients env now u draft d (msgID c) deliverTo s1 = (s2, del, new, fl)"
      by (cases "deliverToRecipients env now u draft d (msgID c) deliverTo s1") auto
    from deliverToRecipients_delivers [OF uuid created(7) created(6) dl]
    obtain copies where new: "map fst copies = new" and D: "delivers env now u (subject draft) d copies s1 s2"
      and sub: "set new \<subseteq> set del" and T: "set del \<union> set (keys fl) = set (targetsOf draft deliverTo)" "distinct (keys fl)"
        "distinct (targetsOf draft deliverTo) \<longrightarrow> distinct del \<and> set del \<inter> set (keys fl) = {}"
        "distinct (targetsOf draft deliverTo) \<longrightarrow> (\<forall>r. OwnerID (d r) = r) \<longrightarrow>
          (\<forall>r. idempotent_hit (svc_store s1) (idxKey r (msgID c @ '':'' @ r)) = None) \<longrightarrow> del = new"
      by blast
    have data: "\<forall>(r, m) \<in> set copies. m = newMessageFromData (d r) (msgID m) now \<and>
        msg_of (svc_store s1) (msgID m) = None \<and> msgID m \<noteq> ''''"
      using D by (simp add: delivers_def list_all_iff)
    have s2: "msg_of (svc_store s2) = msg_of (svc_store s1) ++ map_of (entries copies)" "connected (svc_store s2)"
      "store_ok (env_uuid env) (svc_store s2)" "svc_state s2 = svc_state s1" "distinct (keys (entries copies))"
      using D created(6) by (simp_all add: delivers_def)
    have "sid \<notin> set (keys (entries copies))"
      using data created(5) c(2) by (fastforce simp: entries_def)
    then have c2: "msg_of (svc_store s2) (msgID c) = Some c" "map_of (entries copies) sid = None"
      using created(5) c(2) by (simp_all add: s2(1) map_add_Some_iff map_of_eq_None_iff)
    show ?thesis
    proof (cases "del = []")
      case True
      obtain s3 e3 where rb: "rollbackSenderMessage env c s2 = (s3, e3)" by force
      with True run q created(1) dl have fin: "r = None" "s' = s3" "e \<noteq> None"
        by (auto simp: deliverDraft_def d0_def d_def split: option.splits)
      note s3 = rollbackSenderMessage_store [OF s2(2) c2(1) c(3) created(4) rb]
      have "copies = []" using sub True new by simp
      then have "msg_of (svc_store s') = msg_of (svc_store s)"
        using created(3,5) s2(1) by (simp add: fin s3 delete_conv' entries_def fun_upd_idem)
      then show ?thesis using fin s2 s3 state1 by (intro that(1)) (simp_all add: store_ok_del)
    next
      case False
      obtain s3 m ev where fz: "finalizeDelivery env now c new draft s2 = (s3, m, ev)"
        by (cases "finalizeDelivery env now c new draft s2") auto
      note f = finalizeDelivery_store [OF s2(2,3) c2(1) c(3) fz]
      let ?p = "if fl \<noteq> [] then Some (PartialDeliveryError (msgID m) del fl) else None"
      have "s' = s3 \<and> r = Some m \<and> e = (if ev \<noteq> None then errors_Join [ev, ?p]
          else case afterSendLoop (env_plugins env) u m of Some x \<Rightarrow> errors_Join [Some x, ?p] | None \<Rightarrow> ?p)"
        using False run q created(1) dl fz
        by (cases ev; cases "afterSendLoop (env_plugins env) u m")
          (auto simp: deliverDraft_def d0_def d_def Let_def)
      then have fin: "s' = s3" "r = Some m" "e = (if ev \<noteq> None then errors_Join [ev, ?p]
          else case afterSendLoop (env_plugins env) u m of Some x \<Rightarrow> errors_Join [Some x, ?p] | None \<Rightarrow> ?p)"
        by blast+
      have mid: "msgID m = sid" using f(1) c(2) by simp
      show ?thesis
      proof (rule that(2) [of m copies del fl])
        show "msg_of (svc_store s') = (dropDraft (msgID draft) (msg_of (svc_store s)))(sid \<mapsto> m) ++ map_of (entries copies)"
        proof -
          let ?f = "msg_of (svc_store s)" and ?E = "map_of (entries copies)"
          have E: "(?f(sid \<mapsto> m)) j = None \<and> \<not> isDraft x" if jx: "?E j = Some x" for j x
          proof -
            obtain r where "(r, x) \<in> set copies" "j = msgID x"
              using map_of_SomeD [OF jx] by (auto simp: entries_def)
            then have x: "x = newMessageFromData (d r) (msgID x) now" "msg_of (svc_store s1) j = None"
              using data by auto
            from x(2) have "(?f(sid \<mapsto> m)) j = None" using created(5) c(2) by (simp split: if_splits)
            moreover have "\<not> isDraft x"
              using arg_cong [OF x(1), of isDraft] by (simp only: newMessageFromData_sel simp_thms)
            ultimately show ?thesis by blast
          qed
          have "(msg_of (svc_store s2))(sid \<mapsto> m) = ?f(sid \<mapsto> m) ++ ?E"
            using c2(2) created(5) c(2) by (auto simp: s2(1) map_add_def fun_eq_iff split: option.splits)
          then have "msg_of (svc_store s') = dropDraft (msgID draft) (?f(sid \<mapsto> m) ++ ?E)"
            using f(2) fin(1) c(2) by simp
          also have "\<dots> = dropDraft (msgID draft) (?f(sid \<mapsto> m)) ++ ?E" using E by (rule dropDraft_add)
          also have "dropDraft (msgID draft) (?f(sid \<mapsto> m)) = (dropDraft (msgID draft) ?f)(sid \<mapsto> m)"
            using created(3) c(2,3) f(1) by (intro dropDraft_upd) simp_all
          finally show ?thesis .
        qed
        show "del = map fst copies" if "distinct (targetsOf draft deliverTo)"
          "\<forall>r. map_of (idempotencyIdx (svc_store s)) (idxKey r (sid @ '':'' @ r)) = None"
        proof -
          have "\<forall>r. OwnerID (d r) = r" by (simp add: d_def recipientData_def)
          moreover have "\<forall>r. idempotent_hit (svc_store s1) (idxKey r (msgID c @ '':'' @ r)) = None"
            using that(2) created(8) c(2) by (simp add: idempotent_hit_def)
          ultimately show ?thesis using T(4) that(1) new by blast
        qed
        show "\<forall>(r, x) \<in> set copies. x = newMessageFromData (d r) (msgID x) now \<and>
            msg_of (svc_store s) (msgID x) = None \<and> msgID x \<noteq> sid \<and> msgID x \<noteq> ''''"
          using data created(5) c(2) by (fastforce split: if_splits)
        show "e \<noteq> None" if "fl \<noteq> []"
          using that fin(3) by (auto simp: errors_Join_def split: option.splits)
        show "e = (if fl = [] then None else Some (PartialDeliveryError sid del fl))"
          if "\<not> env_eventErrorsFatal env" "\<And>x. afterSendLoop (env_plugins env) u x = None"
          using f(5) [OF that(1)] that(2) fin(3) mid by simp
        show "svc_events s' = svc_events s @
            map (\<lambda>(r, c). MessageReceivedEvent (msgID c) r u (subject draft) now) copies @
            [MessageSentEvent sid u (map fst copies) (subject draft) now]"
          if "\<forall>ev. env_publish env ev = None"
          using f(6) [OF that] D that fin(1) c new created(9) by (simp add: delivers_def)
        show "msg_of (svc_store s) sid = None" using created(3) c(2) by simp
        show "m = (newMessageFromData d0 sid now)\<lparr>folderID := FolderSent, updatedAt := now\<rparr>"
          using f(1) c(1) by simp
        show "store_ok (env_uuid env) (svc_store s')" "svc_state s' = svc_state s"
          using f(3,4) s2(4) state1 fin(1) by simp_all
        show "distinct del \<and> set del \<inter> set (keys fl) = {}" if "distinct (targetsOf draft deliverTo)"
          using T(3) that by blast
      qed (use fin(2) T(1,2) new sub False s2(5) in simp_all)
    qed
  qed
qed

section \<open>Preparation\<close>

lemma dedup_fold:
  assumes "set seen = set unique" "distinct unique"
  shows "distinct (snd (foldl (\<lambda>(seen, unique) i. if i \<notin> set seen then (i # seen, unique @ [i]) else (seen, unique))
      (seen, unique) xs)) \<and>
    set (snd (foldl (\<lambda>(seen, unique) i. if i \<notin> set seen then (i # seen, unique @ [i]) else (seen, unique))
      (seen, unique) xs)) = set unique \<union> set xs"
  using assms
proof (induction xs arbitrary: seen unique)
  case (Cons x xs)
  show ?case
  proof (cases "x \<in> set seen")
    case True
    then show ?thesis using Cons.IH [OF Cons.prems] Cons.prems by auto
  next
    case False
    then show ?thesis using Cons.IH [of "x # seen" "unique @ [x]"] Cons.prems by auto
  qed
qed simp

lemma deduplicateRecipients_set [simp]:
  "set (deduplicateRecipients rs) = set rs" "distinct (deduplicateRecipients rs)"
  using dedup_fold [of "[]" "[]" rs] by (simp_all add: deduplicateRecipients_def)

lemma deduplicateRecipients_empty [simp]: "deduplicateRecipients rs = [] \<longleftrightarrow> rs = []"
  by (metis deduplicateRecipients_set(1) set_empty)

lemma deduplicateRecipients_Nil [simp]: "deduplicateRecipients [] = []"
  by simp

lemma setters_frame [simp]:
  "recipientIDs (message_SetHeader now k v d) = recipientIDs d" "subject (message_SetHeader now k v d) = subject d"
  "body (message_SetHeader now k v d) = body d" "msgID (message_SetHeader now k v d) = msgID d"
  "attachments (message_SetHeader now k v d) = attachments d"
  "recipientIDs (message_SetMetadata now k w d) = recipientIDs d" "subject (message_SetMetadata now k w d) = subject d"
  "body (message_SetMetadata now k w d) = body d" "msgID (message_SetMetadata now k w d) = msgID d"
  "attachments (message_SetMetadata now k w d) = attachments d"
  "recipientIDs (message_SetRecipients now rs d) = rs" "subject (message_SetRecipients now rs d) = subject d"
  "body (message_SetRecipients now rs d) = body d" "msgID (message_SetRecipients now rs d) = msgID d"
  "attachments (message_SetRecipients now rs d) = attachments d"
  by (simp_all add: setter_defs Let_def)

lemma resolveAndInjectUserMetadata_frame:
  assumes "resolveAndInjectUserMetadata env now u draft = (draft', e)"
  shows "recipientIDs draft' = recipientIDs draft" "subject draft' = subject draft" "body draft' = body draft"
    "msgID draft' = msgID draft" "attachments draft' = attachments draft"
  using assms by (auto simp: resolveAndInjectUserMetadata_def Let_def split: option.splits sum.splits)

definition sameDraft :: "message \<Rightarrow> message \<Rightarrow> bool" where
  "sameDraft d d' \<longleftrightarrow> recipientIDs d' = deduplicateRecipients (recipientIDs d) \<and> subject d' = subject d \<and>
     body d' = body d \<and> msgID d' = msgID d \<and> attachments d' = attachments d"

lemma prepareDraft_ready:
  assumes "prepareDraft env now u draft deliverTo = (draft', Inr dt)"
  shows "sameDraft draft draft'" "dt = deduplicateRecipients deliverTo" "set deliverTo \<subseteq> set (recipientIDs draft)"
proof -
  define d1 where "d1 = message_SetRecipients now (deduplicateRecipients (recipientIDs draft)) draft"
  define d2 where "d2 = (case map_of (headers d1) HeaderContentLength of
             Some v \<Rightarrow> if v = '''' then message_SetHeader now HeaderContentLength (itoa (length (body d1))) d1 else d1
           | None \<Rightarrow> message_SetHeader now HeaderContentLength (itoa (length (body d1))) d1)"
  define t where "t = (if deliverTo \<noteq> [] then deduplicateRecipients deliverTo else deliverTo)"
  obtain d3 e where r: "resolveAndInjectUserMetadata env now u d2 = (d3, e)" by force
  have d2: "recipientIDs d2 = recipientIDs d1" "subject d2 = subject d1" "body d2 = body d1" "msgID d2 = msgID d1"
    "attachments d2 = attachments d1"
    by (simp_all add: d2_def split: option.splits)
  have eq: "prepareDraft env now u draft deliverTo =
     (if \<not> set t \<subseteq> set (recipientIDs d1) then (d1, Inl (errf ErrInvalidRecipient))
      else case (d3, e) of
             (draft, Some e) \<Rightarrow> (draft, Inl e)
           | (draft, None) \<Rightarrow>
               (case ValidateDraft (env_mapLower env) (env_marshal env) draft (getLimits (env_cfg env)) of
                  Some e \<Rightarrow> (draft, Inl e)
                | None \<Rightarrow>
                    if attachments draft \<noteq> [] \<and> env_attachments env = None
                    then (draft, Inl (Sentinel ErrAttachmentStoreNotConfigured))
                    else (draft, Inr t)))"
    unfolding prepareDraft_def Let_def d1_def [symmetric] t_def [symmetric] d2_def [symmetric] r by simp
  have sub: "set t \<subseteq> set (recipientIDs d1)" and "draft' = d3" "dt = t"
    using assms unfolding eq by (auto split: if_splits option.splits)
  then show "sameDraft draft draft'" "dt = deduplicateRecipients deliverTo" "set deliverTo \<subseteq> set (recipientIDs draft)"
    using resolveAndInjectUserMetadata_frame [OF r] d2
    by (auto simp: sameDraft_def d1_def t_def split: if_splits) 
qed

lemma newThreadID_store:
  assumes "newThreadID env s = (s', t)"
  shows "s' = s\<lparr>svc_store := svc_store s\<lparr>uuidSeq := Suc (uuidSeq (svc_store s))\<rparr>\<rparr>" "t = env_uuid env (uuidSeq (svc_store s))"
  using assms by (auto simp: newThreadID_def newUUID_def)

lemma resolveThreadID_store:
  assumes "resolveThreadID env u thread replyTo s = (s', t)"
  shows "s' = s \<or> s' = s\<lparr>svc_store := svc_store s\<lparr>uuidSeq := Suc (uuidSeq (svc_store s))\<rparr>\<rparr>"
  using assms newThreadID_store(1) [of env s s' t]
  by (auto simp: resolveThreadID_def split: if_splits res.splits)

lemma no_hooks:
  assumes "\<forall>p \<in> set ps. pl_Hook p = None"
  shows "beforeSendLoop ps u draft = (draft, None)" "afterSendLoop ps u m = None"
  using assms by (induction ps) auto

section \<open>An example\<close>

text \<open>A draft of alice with a repeated recipient, and what the preparation makes of it.\<close>

definition demoDraft :: message where
  "demoDraft = (Store_NewDraft 5 ''alice'')\<lparr>recipientIDs := [''bob'', ''carol'', ''bob''], subject := ''hi'', body := ''yo''\<rparr>"

definition demoReady :: message where
  "demoReady = (Store_NewDraft 5 ''alice'')\<lparr>recipientIDs := [''bob'', ''carol''], subject := ''hi'', body := ''yo'',
     headers := [(''Content-Length'', ''2'')], updatedAt := 7\<rparr>"

lemma demoLimits: "getLimits (env_cfg demoEnv) = DefaultLimits" by code_simp

lemma demoReady_valid: "ValidateDraft (\<lambda>s. s) (\<lambda>_. Some '''') demoReady DefaultLimits = None"
proof -
  have hi: "strings_TrimSpace ''hi'' = ''hi''" "isASCII ''hi''" "isASCII ''yo''"
    by (simp_all add: TrimSpace_ident nonSpaceByte_def isASCII_def)
  show ?thesis
    using runes_ascii [OF hi(2)] runes_ascii [OF hi(3)]
    by (simp add: ValidateDraft_def validateMessageReader_def demoReady_def Store_NewDraft_def zeroMessage_def DefaultLimits_def
        default_values ValidateRecipients_def ValidateMessageContentWithLimits_def
        ValidateSubjectWithLimits_def ValidateBodyWithLimits_def ValidateHeaders_def
        ValidateMetadataWithLimits_def ValidateAttachments_def ValidateAttachmentsWithMIME_def
        firstErr_def MinSubjectLength_def hi bytes_def unicode_IsControl_def)
qed

lemma demoPrepared:
  assumes "env_mapLower env = env_mapLower demoEnv" "env_marshal env = env_marshal demoEnv" "env_cfg env = env_cfg demoEnv"
    "env_userResolver env = None"
  shows "prepareDraft env 7 ''alice'' demoDraft [] = (demoReady, Inr [])"
proof -
  have d: "deduplicateRecipients [''bob'', ''carol'', ''bob''] = [''bob'', ''carol'']" "itoa 2 = ''2''" by code_simp+
  have e: "message_SetHeader 7 HeaderContentLength ''2'' (message_SetRecipients 7 [''bob'', ''carol''] demoDraft) = demoReady"
    by (simp add: demoDraft_def demoReady_def setter_defs HeaderContentLength_def Store_NewDraft_def zeroMessage_def)
  have f: "recipientIDs demoDraft = [''bob'', ''carol'', ''bob'']"
    "headers (message_SetRecipients 7 [''bob'', ''carol''] demoDraft) = []"
    "body demoDraft = ''yo''" "attachments demoReady = []"
    by (simp_all add: demoDraft_def demoReady_def setter_defs Store_NewDraft_def zeroMessage_def)
  have g: "env_mapLower demoEnv = (\<lambda>s. s)" "env_marshal demoEnv = (\<lambda>_. Some '''')" by (simp_all add: demoEnv_def)
  have h: "body (message_SetRecipients 7 [''bob'', ''carol''] demoDraft) = body demoDraft" by (simp add: setter_defs)
  show ?thesis
    using demoReady_valid assms
    by (simp add: prepareDraft_def f d e g h numeral_2_eq_2 [symmetric] Let_def
        resolveAndInjectUserMetadata_def demoLimits)
qed

lemma demoTTL: "computeTTLFields (env_cfg demoEnv) 7 0 None = Inr (None, None)" by code_simp

lemma demoThread: "resolveThreadID demoEnv ''alice'' '''' '''' (demoService demoStore) =
      (fst (newThreadID demoEnv (demoService demoStore)), demoUUID 0)" by code_simp

lemma demoAccess: "checkAccess ''alice'' (demoService st) = None"
proof -
  have "isASCII ''alice''" by (simp add: isASCII_def)
  from runes_ascii [OF this] show ?thesis
    by (simp add: checkAccess_def IsConnected_def demoService_def isValidUserID_def bytes_def)
qed

lemma demoSend:
  assumes "env = demoEnv\<lparr>env_quotaProvider := q\<rparr>"
    and "deliverDraft env 7 ''alice'' demoReady (demoUUID 0) '''' '''' None None []
      (fst (newThreadID demoEnv (demoService demoStore))) = (s', r)"
  shows "sendDraft env None 7 ''alice'' demoDraft '''' '''' '''' 0 None [] (demoService demoStore) = (s', demoReady, r)"
proof -
  have env: "env_plugins env = []" "env_userResolver env = None" "env_mapLower env = env_mapLower demoEnv"
    "env_marshal env = env_marshal demoEnv" "env_cfg env = env_cfg demoEnv" "env_uuid env = env_uuid demoEnv"
    by (simp_all add: assms(1)) (simp_all add: demoEnv_def)
  have "resolveThreadID env ''alice'' '''' '''' (demoService demoStore) = resolveThreadID demoEnv ''alice'' '''' '''' (demoService demoStore)"
    using env(6) by (simp add: resolveThreadID_def newThreadID_def)
  then show ?thesis
    using assms(2) env by (simp add: sendDraft_def demoPrepared demoThread demoTTL demoAccess)
qed

text \<open>A send that reaches two recipients, and one whose quota provider fails for all.\<close>

lemma demoSent: "\<exists>s' m. sendDraft demoEnv None 7 ''alice'' demoDraft '''' '''' '''' 0 None [] (demoService demoStore) =
    (s', demoReady, Some m, None)"
proof -
  let ?s = "fst (newThreadID demoEnv (demoService demoStore))"
  have "let r = deliverDraft demoEnv 7 ''alice'' demoReady (demoUUID 0) '''' '''' None None [] ?s
     in fst (snd r) \<noteq> None \<and> snd (snd r) = None"
    by code_simp
  then obtain s' m where "deliverDraft demoEnv 7 ''alice'' demoReady (demoUUID 0) '''' '''' None None [] ?s = (s', Some m, None)"
    by (cases "deliverDraft demoEnv 7 ''alice'' demoReady (demoUUID 0) '''' '''' None None [] ?s") (auto simp: Let_def)
  moreover have "demoEnv = demoEnv\<lparr>env_quotaProvider := None\<rparr>" by (simp add: demoEnv_def)
  ultimately show ?thesis using demoSend by blast
qed

definition brokenQuota :: "demo_atts env" where
  "brokenQuota = demoEnv\<lparr>env_quotaProvider := Some (\<lambda>_. Inl (ExternalError 7))\<rparr>"

lemma demoRefused: "\<exists>s' e. sendDraft brokenQuota None 7 ''alice'' demoDraft '''' '''' '''' 0 None [] (demoService demoStore) =
    (s', demoReady, None, e)"
proof -
  let ?s = "fst (newThreadID demoEnv (demoService demoStore))"
  have "let r = deliverDraft brokenQuota 7 ''alice'' demoReady (demoUUID 0) '''' '''' None None [] ?s
     in fst (snd r) = None"
    by code_simp
  then obtain s' e where "deliverDraft brokenQuota 7 ''alice'' demoReady (demoUUID 0) '''' '''' None None [] ?s = (s', None, e)"
    by (cases "deliverDraft brokenQuota 7 ''alice'' demoReady (demoUUID 0) '''' '''' None None [] ?s") (auto simp: Let_def)
  then show ?thesis using demoSend [OF brokenQuota_def] by blast
qed

section \<open>Properties\<close>

text \<open>The send up to the delivery: nothing is stored before it.\<close>

text \<open>A delivered copy carries the content of the sender's copy.\<close>

lemma recipient_copy:
  assumes "c = newMessageFromData (recipientData u draft th replyTo external ex av r) i now"
    and "m = (newMessageFromData (senderData u draft th replyTo external ex av) j now)\<lparr>folderID := FolderSent, updatedAt := now\<rparr>"
  shows "ownerID c = r \<and> senderID c = u \<and> folderID c = FolderInbox \<and> \<not> isRead c \<and>
    recipientIDs c = recipientIDs m \<and> subject c = subject m \<and> body c = body m \<and> headers c = headers m \<and>
    metadata c = metadata m \<and> attachments c = attachments m \<and> threadID c = threadID m \<and>
    expiresAt c = expiresAt m \<and> availableAt c = availableAt m"
  unfolding assms by (simp add: recipientData_def senderData_def)

lemma sendDraft_cases:
  assumes uuid: "uuid_ok (env_uuid env)" and ok: "store_ok (env_uuid env) (svc_store s)"
    and run: "sendDraft env acquire now u draft thread replyTo external ttl scheduleAt deliverTo s = (s', draft', r, e)"
  obtains (early) "r = None" "e \<noteq> None" "msg_of (svc_store s') = msg_of (svc_store s)"
      "store_ok (env_uuid env) (svc_store s')" "svc_state s' = svc_state s"
  | (deliver) d1 s1 th ex av where "sameDraft draft d1" "set deliverTo \<subseteq> set (recipientIDs draft)"
      "beforeSendLoop (env_plugins env) u d1 = (draft', None)"
      "resolveThreadID env u thread replyTo s = (s1, th)"
      "computeTTLFields (env_cfg env) now ttl scheduleAt = Inr (ex, av)"
      "s1 = s \<or> s1 = s\<lparr>svc_store := svc_store s\<lparr>uuidSeq := Suc (uuidSeq (svc_store s))\<rparr>\<rparr>"
      "store_ok (env_uuid env) (svc_store s1)"
      "deliverDraft env now u draft' th replyTo external ex av (deduplicateRecipients deliverTo) s1 = (s', r, e)"
      "checkAccess u s = None"
proof -
  obtain d1 q where q: "prepareDraft env now u draft deliverTo = (d1, q)" by force
  obtain d2 b where b: "beforeSendLoop (env_plugins env) u d1 = (d2, b)" by force
  obtain s1 th where th: "resolveThreadID env u thread replyTo s = (s1, th)" by force
  note s1 = resolveThreadID_store [OF th]
  have ok1: "store_ok (env_uuid env) (svc_store s1)" using s1 ok by auto
  have same1: "msg_of (svc_store s1) = msg_of (svc_store s)" "svc_state s1 = svc_state s" using s1 by auto
  show ?thesis
  proof (cases "checkAccess u s = None \<and> isl q = False \<and> acquire = None \<and> b = None")
    case False
    then have "s' = s \<and> r = None \<and> e \<noteq> None"
      using run q b
      by (cases "checkAccess u s"; cases q; cases acquire; cases b) (simp_all add: sendDraft_def, blast+)
    then show ?thesis using ok by (intro early) simp_all
  next
    case True
    then obtain dt where dt: "q = Inr dt" by (cases q) auto
    note p = prepareDraft_ready [OF q [unfolded dt]]
    have run1: "(case computeTTLFields (env_cfg env) now ttl scheduleAt of
        Inl e \<Rightarrow> (s1, d2, None, Some e)
      | Inr (expires, available) \<Rightarrow>
          (case deliverDraft env now u d2 th replyTo external expires available dt s1 of
             (s, r) \<Rightarrow> (s, d2, r))) = (s', draft', r, e)"
      using run q b th True dt by (simp add: sendDraft_def)
    show ?thesis
    proof (cases "computeTTLFields (env_cfg env) now ttl scheduleAt")
      case (Inl err)
      then have "s' = s1" "r = None" "e = Some err" using run1 by simp_all
      then show ?thesis using same1 ok1 by (intro early) simp_all
    next
      case (Inr exav)
      obtain ex av where ex: "exav = (ex, av)" by force
      have "deliverDraft env now u d2 th replyTo external ex av dt s1 = (s', r, e)" "draft' = d2"
        using run1 Inr ex by (auto split: prod.splits)
      then show ?thesis
        using deliver [OF p(1) p(3) _ th Inr [unfolded ex] s1 ok1] b p(2) True by simp
    qed
  qed
qed

text \<open>
  C1: A send that returns no message has left nothing behind. Whatever made it fail - the
  access check, the validation, the semaphore, a hook of a plugin, the times, the attachment
  references of the sender's copy, or the failure of every delivery target - each stored message
  is as it was before, no message was added, and an error is reported.
\<close>

theorem sendDraft_no_trace:
  assumes "uuid_ok (env_uuid env)" "store_ok (env_uuid env) (svc_store s)"
    and "sendDraft env acquire now u draft thread replyTo external ttl scheduleAt deliverTo s = (s', draft', None, e)"
  shows "e \<noteq> None \<and> (\<forall>i. msg_of (svc_store s') i = msg_of (svc_store s) i)"
  using assms
proof (cases rule: sendDraft_cases)
  case early
  then show ?thesis by simp
next
  case (deliver d1 s1 th ex av)
  have same: "msg_of (svc_store s1) = msg_of (svc_store s)" using deliver(6) by auto
  from assms(1) deliver(7,8) show ?thesis
    by (cases rule: deliverDraft_cases) (simp_all add: same)
qed

theorem sendDraft_no_trace_witness:
  "\<exists>s' d e. sendDraft brokenQuota None 7 ''alice'' demoDraft '''' '''' '''' 0 None [] (demoService demoStore) = (s', d, None, e)
     \<and> e \<noteq> None \<and> (\<forall>i. msg_of (svc_store s') i = msg_of demoStore i)"
proof -
  have ok: "uuid_ok (env_uuid brokenQuota)" "store_ok (env_uuid brokenQuota) (svc_store (demoService demoStore))"
    by (simp_all add: brokenQuota_def) (simp_all add: demoEnv_def demoService_def New_def)
  obtain s' e where run: "sendDraft brokenQuota None 7 ''alice'' demoDraft '''' '''' '''' 0 None [] (demoService demoStore) =
      (s', demoReady, None, e)" using demoRefused by blast
  have "svc_store (demoService demoStore) = demoStore" by (simp add: demoService_def New_def)
  with sendDraft_no_trace [OF ok run] run show ?thesis by auto
qed




end
