(* ===== verification/Mailbox_Trash.thy ===== *)
theory Mailbox_Trash
  imports Mailbox_Mutate
begin

text \<open>
  The life of a message in a mailbox with respect to the trash folder: what \<open>Delete\<close>, \<open>Restore\<close>
  and \<open>PermanentlyDelete\<close> of \<open>mutate.go\<close> do to the store from every state a message can be in.
\<close>

text \<open>The user's mailbox has this message under this identifier.\<close>

definition in_mailbox :: "string \<Rightarrow> string \<Rightarrow> 'a service \<Rightarrow> message \<Rightarrow> bool" where
  "in_mailbox userID i s m \<longleftrightarrow> connected (svc_store s) \<and> i \<noteq> '''' \<and> msg_of (svc_store s) i = Some m \<and>
     \<not> isDraft m \<and> ownerID m = userID"

lemma getAndVerify_iff: "getAndVerify userID i s = Inr m \<longleftrightarrow> in_mailbox userID i s m"
proof
  assume "getAndVerify userID i s = Inr m"
  from getAndVerify_Inr [OF this] show "in_mailbox userID i s m" by (simp add: in_mailbox_def)
next
  assume "in_mailbox userID i s m"
  then show "getAndVerify userID i s = Inr m"
    by (simp add: in_mailbox_def getAndVerify_def Store_Get_def canAccess_def clone_eq)
qed

lemma getAndVerify_none: "(\<And>m. \<not> in_mailbox userID i s m) \<Longrightarrow> \<exists>e. getAndVerify userID i s = Inl e"
  by (cases "getAndVerify userID i s") (auto simp: getAndVerify_iff)

lemma move_stored:
  assumes "in_mailbox userID i s m"
  shows "fst (Store_MoveToFolder now folder [] i (svc_store s)) =
      (svc_store s)\<lparr>messages := AList.update i (m\<lparr>folderID := folder, updatedAt := now\<rparr>) (messages (svc_store s))\<rparr>"
    "snd (Store_MoveToFolder now folder [] i (svc_store s)) = Ok ()"
  using assms by (simp_all add: in_mailbox_def Store_MoveToFolder_def ApplyMoveOptions_def clone_eq)

lemma hardDelete_stored:
  assumes "in_mailbox userID i s m"
  shows "Store_HardDelete i (svc_store s) = ((svc_store s)\<lparr>messages := AList.delete i (messages (svc_store s))\<rparr>, Ok ())"
  using assms by (simp add: in_mailbox_def Store_HardDelete_def)

lemma Delete_stored:
  assumes "checkAccess userID s = None" "in_mailbox userID i s m"
  shows "folderID m = FolderTrash \<Longrightarrow> mb_Delete env now userID i s = (s, Some (Sentinel ErrAlreadyInTrash))"
    "folderID m \<noteq> FolderTrash \<Longrightarrow> svc_store (fst (mb_Delete env now userID i s)) =
      (svc_store s)\<lparr>messages := AList.update i (m\<lparr>folderID := FolderTrash, updatedAt := now\<rparr>) (messages (svc_store s))\<rparr>"
  using assms getAndVerify_iff [of userID i s m] move_stored [OF assms(2)]
  by (simp_all add: mb_Delete_def moveAndPublish_def)

lemma Restore_stored:
  assumes "checkAccess userID s = None" "in_mailbox userID i s m"
  shows "folderID m \<noteq> FolderTrash \<Longrightarrow> mb_Restore env now userID i s = (s, Some (Sentinel ErrNotInTrash))"
    "folderID m = FolderTrash \<Longrightarrow> svc_store (fst (mb_Restore env now userID i s)) =
      (svc_store s)\<lparr>messages := AList.update i (m\<lparr>folderID := defaultFolderForMessage m, updatedAt := now\<rparr>)
         (messages (svc_store s))\<rparr>"
proof -
  have "FolderTrash \<noteq> defaultFolderForMessage m"
    by (simp add: defaultFolderForMessage_def FolderTrash_def FolderSent_def FolderInbox_def)
  then show "folderID m \<noteq> FolderTrash \<Longrightarrow> mb_Restore env now userID i s = (s, Some (Sentinel ErrNotInTrash))"
    "folderID m = FolderTrash \<Longrightarrow> svc_store (fst (mb_Restore env now userID i s)) =
      (svc_store s)\<lparr>messages := AList.update i (m\<lparr>folderID := defaultFolderForMessage m, updatedAt := now\<rparr>)
         (messages (svc_store s))\<rparr>"
    using assms getAndVerify_iff [of userID i s m] move_stored [OF assms(2)]
    by (simp_all add: mb_Restore_def moveAndPublish_def)
qed

lemma PermanentlyDelete_stored:
  assumes "checkAccess userID s = None" "in_mailbox userID i s m"
  shows "folderID m \<noteq> FolderTrash \<Longrightarrow> mb_PermanentlyDelete env now userID i s = (s, Some (Sentinel ErrNotInTrash))"
    "folderID m = FolderTrash \<Longrightarrow> svc_store (fst (mb_PermanentlyDelete env now userID i s)) =
      (svc_store s)\<lparr>messages := AList.delete i (messages (svc_store s))\<rparr>"
  using assms getAndVerify_iff [of userID i s m] hardDelete_stored [OF assms(2)]
  by (auto simp: mb_PermanentlyDelete_def dest!: opAndPublish_frameD split: prod.splits option.splits)

section \<open>Property\<close>


lemma demoBob: "checkAccess ''bob'' (demoService st) = None" "svc_store (demoService st) = st"
proof -
  have "isASCII ''bob''" by (simp add: isASCII_def)
  from runes_ascii [OF this] show "checkAccess ''bob'' (demoService st) = None"
    by (simp add: checkAccess_def IsConnected_def demoService_def isValidUserID_def bytes_def)
qed (simp add: demoService_def New_def)


end
