(* ===== verification/Mailbox_Query.thy ===== *)
theory Mailbox_Query
  imports Mailbox_Mutate
begin

text \<open>
  The reads of a user's mailbox: \<open>query.go\<close>, \<open>thread.go\<close>, \<open>LoadAttachment\<close> of \<open>attachment.go\<close>, the
  bulk operations of a message list (\<open>message.go\<close>) and the streaming iterators (\<open>iterator.go\<close>).
  A mailbox-level message is its store-level message together with the mailbox, so the lists
  hold the store-level messages. The in-memory store implements the optional counting
  interfaces, so the listings take their fast paths.
\<close>

section \<open>Single messages\<close>

definition mb_Get :: "string \<Rightarrow> string \<Rightarrow> 'a service \<Rightarrow> error + message" where
  "mb_Get userID messageID s =
    (case checkAccess userID s of Some e \<Rightarrow> Inl e | None \<Rightarrow>
     (case Store_Get messageID (svc_store s) of
        Err e \<Rightarrow> Inl (if errors_Is (StoreErr e) (Inr ErrNotFound) then Sentinel MErrNotFound else Wrapf (StoreErr e))
      | Panic \<Rightarrow> Inl (ExternalError 0)
      | Ok msg \<Rightarrow> if \<not> canAccess userID msg then Inl (Sentinel ErrUnauthorized) else Inr msg))"

definition mb_LoadAttachment :: "'a env \<Rightarrow> string \<Rightarrow> string \<Rightarrow> string \<Rightarrow> 'a service \<Rightarrow> error + string" where
  "mb_LoadAttachment env userID messageID attachmentID s =
    (case checkAccess userID s of Some e \<Rightarrow> Inl e | None \<Rightarrow>
     (case env_attachments env of
        None \<Rightarrow> Inl (Sentinel ErrAttachmentStoreNotConfigured)
      | Some am \<Rightarrow>
          (case Store_Get messageID (svc_store s) of
             Err e \<Rightarrow> Inl (Wrapf (StoreErr e))
           | Panic \<Rightarrow> Inl (ExternalError 0)
           | Ok msg \<Rightarrow>
               if \<not> canAccess userID msg then Inl (Sentinel ErrUnauthorized)
               else if attachmentID \<notin> set (attachmentIDs msg) then Inl (Sentinel ErrAttachmentNotFound)
               else am_Load am attachmentID (svc_atts s))))"

section \<open>Listings\<close>

text \<open>The limit a query runs with: the default for zero, and at most the maximum.\<close>

definition queryLimit :: "Config \<Rightarrow> ListOptions \<Rightarrow> ListOptions" where
  "queryLimit cfg opts =
    (let opts = (if Limit opts = 0 then opts\<lparr>Limit := DefaultQueryLimit cfg\<rparr> else opts)
     in if Limit opts > MaxQueryLimit cfg then opts\<lparr>Limit := MaxQueryLimit cfg\<rparr> else opts)"

definition listMessages ::
    "'a env \<Rightarrow> time \<Rightarrow> Filter list \<Rightarrow> ListOptions \<Rightarrow> 'a service \<Rightarrow> (error, MessageList) res" where
  "listMessages env now filters opts s =
    (let opts = queryLimit (env_cfg env) opts;
         opts = (if SortBy opts = '''' then opts\<lparr>SortBy := ''CreatedAt'', Order := SortDesc\<rparr> else opts) in
     (case Store_FindWithCount now filters opts (svc_store s) of
        Err e \<Rightarrow> Err (Wrapf (StoreErr e))
      | Panic \<Rightarrow> Panic
      | Ok (list, tot) \<Rightarrow>
          Ok \<lparr>ml_Messages = ml_Messages list, ml_Total = tot, ml_HasMore = ml_HasMore list,
              ml_NextCursor = (if ml_HasMore list \<and> ml_Messages list \<noteq> []
                               then msgID (last (ml_Messages list)) else '''')\<rparr>))"

definition mb_Folder ::
    "'a env \<Rightarrow> time \<Rightarrow> string \<Rightarrow> string \<Rightarrow> ListOptions \<Rightarrow> 'a service \<Rightarrow> (error, MessageList) res" where
  "mb_Folder env now userID folder opts s =
    (case checkAccess userID s of Some e \<Rightarrow> Err e | None \<Rightarrow>
     listMessages env now [OwnerIs userID, InFolder folder] opts s)"

text \<open>A list the store returns, or its error wrapped.\<close>

definition wrapList :: "(store_error, MessageList) res \<Rightarrow> (error, MessageList) res" where
  "wrapList r = (case r of Ok l \<Rightarrow> Ok l | Err e \<Rightarrow> Err (Wrapf (StoreErr e)) | Panic \<Rightarrow> Panic)"

definition mb_Search ::
    "'a env \<Rightarrow> time \<Rightarrow> string \<Rightarrow> SearchQuery \<Rightarrow> 'a service \<Rightarrow> (error, MessageList) res" where
  "mb_Search env now userID query s =
    (case checkAccess userID s of Some e \<Rightarrow> Err e | None \<Rightarrow>
     let query = query\<lparr>sq_Options := queryLimit (env_cfg env) (sq_Options query), sq_OwnerID := userID,
                       sq_Filters := sq_Filters query @ [OwnerIs userID, NotDeleted]\<rparr>;
         query = (if sq_Tags query \<noteq> [] then query\<lparr>sq_Filters := sq_Filters query @ HasTags (sq_Tags query)\<rparr> else query)
     in wrapList (Store_Search (env_mapLower env) now query (svc_store s)))"

definition threadOptions :: "ListOptions \<Rightarrow> ListOptions" where
  "threadOptions opts = (if SortBy opts = '''' then opts\<lparr>SortBy := ''created_at'', Order := SortAsc\<rparr> else opts)"

definition mb_GetThread ::
    "time \<Rightarrow> string \<Rightarrow> string \<Rightarrow> ListOptions \<Rightarrow> 'a service \<Rightarrow> (error, MessageList) res" where
  "mb_GetThread now userID thread opts s =
    (case checkAccess userID s of Some e \<Rightarrow> Err e | None \<Rightarrow>
     if thread = '''' then Err (errf MErrInvalidID)
     else wrapList (Store_Find now [OwnerIs userID, NotDeleted, ThreadIs thread] (threadOptions opts) (svc_store s)))"

definition mb_GetReplies ::
    "time \<Rightarrow> string \<Rightarrow> string \<Rightarrow> ListOptions \<Rightarrow> 'a service \<Rightarrow> (error, MessageList) res" where
  "mb_GetReplies now userID messageID opts s =
    (case checkAccess userID s of Some e \<Rightarrow> Err e | None \<Rightarrow>
     if messageID = '''' then Err (errf MErrInvalidID)
     else wrapList (Store_Find now [OwnerIs userID, NotDeleted, ReplyToIs messageID] (threadOptions opts) (svc_store s)))"

definition ThreadParticipants :: "string \<Rightarrow> 'a service \<Rightarrow> error + string list" where
  "ThreadParticipants thread s =
    (if \<not> IsConnected s then Inl (Sentinel MErrNotConnected)
     else if thread = '''' then Inl (errf ErrInvalidMessage)
     else (case Store_ThreadParticipants thread (svc_store s) of
             Ok us \<Rightarrow> Inr us | Err e \<Rightarrow> Inl (StoreErr e) | Panic \<Rightarrow> Inl (ExternalError 0)))"

section \<open>Folders\<close>

record FolderInfo =
  fi_ID :: string
  fi_Name :: string
  fi_IsSystem :: bool
  fi_MessageCount :: int
  fi_UnreadCount :: int

definition systemFolders :: "(string \<times> string) list" where
  "systemFolders = [(FolderInbox, ''Inbox''), (FolderSent, ''Sent''), (FolderArchived, ''Archived''),
     (FolderTrash, ''Trash'')]"

definition systemFolderSet :: "string \<Rightarrow> bool" where
  "systemFolderSet i \<longleftrightarrow> i \<in> set (map fst systemFolders)"

definition mb_ListFolders :: "time \<Rightarrow> string \<Rightarrow> 'a service \<Rightarrow> error + FolderInfo list" where
  "mb_ListFolders now userID s =
    (case checkAccess userID s of Some e \<Rightarrow> Inl e | None \<Rightarrow>
     (case Store_ListDistinctFolders now userID (svc_store s) of
        Err e \<Rightarrow> Inl (Wrapf (StoreErr e))
      | Panic \<Rightarrow> Inl (ExternalError 0)
      | Ok ids \<Rightarrow>
          let customFolderIDs = filter (\<lambda>i. \<not> systemFolderSet i) ids;
              allFolderIDs = map fst systemFolders @ customFolderIDs in
          (case Store_CountByFolders now userID allFolderIDs (svc_store s) of
             Err e \<Rightarrow> Inl (Wrapf (StoreErr e))
           | Panic \<Rightarrow> Inl (ExternalError 0)
           | Ok counts \<Rightarrow>
               Inr (map (\<lambda>(i, name). \<lparr>fi_ID = i, fi_Name = name, fi_IsSystem = True,
                      fi_MessageCount = fc_Total (folderCounts counts i), fi_UnreadCount = fc_Unread (folderCounts counts i)\<rparr>)
                      systemFolders @
                    map (\<lambda>i. \<lparr>fi_ID = i, fi_Name = i, fi_IsSystem = False,
                      fi_MessageCount = fc_Total (folderCounts counts i), fi_UnreadCount = fc_Unread (folderCounts counts i)\<rparr>)
                      customFolderIDs))))"

text \<open>
  The loop of \<open>ListFolders\<close> for a store that cannot count by folder, run on the same store: two counts
  for each identifier.
\<close>

definition folderName :: "string \<Rightarrow> string" where
  "folderName i = (if systemFolderSet i then (case map_of systemFolders i of Some name \<Rightarrow> name | None \<Rightarrow> i) else i)"

fun listFoldersSlow :: "time \<Rightarrow> string \<Rightarrow> string list \<Rightarrow> Store \<Rightarrow> error + FolderInfo list" where
  "listFoldersSlow now userID [] st = Inr []"
| "listFoldersSlow now userID (i # ids) st =
    (case Store_Count now [OwnerIs userID, NotDeleted, InFolder i] st of
       Err e \<Rightarrow> Inl (Wrapf (StoreErr e))
     | Panic \<Rightarrow> Inl (ExternalError 0)
     | Ok cnt \<Rightarrow>
         (case Store_Count now [OwnerIs userID, NotDeleted, InFolder i, IsReadFilter False] st of
            Err e \<Rightarrow> Inl (Wrapf (StoreErr e))
          | Panic \<Rightarrow> Inl (ExternalError 0)
          | Ok unreadCount \<Rightarrow>
              (case listFoldersSlow now userID ids st of
                 Inl e \<Rightarrow> Inl e
               | Inr folders \<Rightarrow>
                   Inr (\<lparr>fi_ID = i, fi_Name = folderName i, fi_IsSystem = systemFolderSet i,
                         fi_MessageCount = cnt, fi_UnreadCount = unreadCount\<rparr> # folders))))"

section \<open>Operations on a list\<close>

text \<open>\<open>forEachMessage\<close> is the loop of \<open>bulkOp\<close> without its access check.\<close>

definition forEachMessage ::
    "(nat \<Rightarrow> error option) \<Rightarrow> MessageList \<Rightarrow> (string \<Rightarrow> 'a service \<Rightarrow> 'a service \<times> error option) \<Rightarrow>
     'a service \<Rightarrow> 'a service \<times> BulkResult \<times> error option" where
  "forEachMessage ctxErr l op s =
    (case bulkLoop ctxErr op 0 (map msgID (ml_Messages l)) s of (s, result) \<Rightarrow> (s, result, BulkErr result))"

definition list_MarkRead ::
    "'a env \<Rightarrow> (nat \<Rightarrow> error option) \<Rightarrow> time \<Rightarrow> string \<Rightarrow> MessageList \<Rightarrow> 'a service \<Rightarrow> 'a service \<times> BulkResult \<times> error option" where
  "list_MarkRead env ctxErr now userID l = forEachMessage ctxErr l (\<lambda>i. mb_UpdateFlags env now userID i MarkReadFlags)"

definition list_MarkUnread ::
    "'a env \<Rightarrow> (nat \<Rightarrow> error option) \<Rightarrow> time \<Rightarrow> string \<Rightarrow> MessageList \<Rightarrow> 'a service \<Rightarrow> 'a service \<times> BulkResult \<times> error option" where
  "list_MarkUnread env ctxErr now userID l = forEachMessage ctxErr l (\<lambda>i. mb_UpdateFlags env now userID i MarkUnreadFlags)"

definition list_Move ::
    "'a env \<Rightarrow> (nat \<Rightarrow> error option) \<Rightarrow> time \<Rightarrow> string \<Rightarrow> MessageList \<Rightarrow> string \<Rightarrow> string list \<Rightarrow> 'a service \<Rightarrow>
     'a service \<times> BulkResult \<times> error option" where
  "list_Move env ctxErr now userID l folder opts =
    forEachMessage ctxErr l (\<lambda>i. mb_MoveToFolder env now userID i folder opts)"

definition list_Archive ::
    "'a env \<Rightarrow> (nat \<Rightarrow> error option) \<Rightarrow> time \<Rightarrow> string \<Rightarrow> MessageList \<Rightarrow> 'a service \<Rightarrow> 'a service \<times> BulkResult \<times> error option" where
  "list_Archive env ctxErr now userID l = list_Move env ctxErr now userID l FolderArchived []"

definition list_Delete ::
    "'a env \<Rightarrow> (nat \<Rightarrow> error option) \<Rightarrow> time \<Rightarrow> string \<Rightarrow> MessageList \<Rightarrow> 'a service \<Rightarrow> 'a service \<times> BulkResult \<times> error option" where
  "list_Delete env ctxErr now userID l = forEachMessage ctxErr l (mb_Delete env now userID)"

definition list_AddTag ::
    "(nat \<Rightarrow> error option) \<Rightarrow> time \<Rightarrow> string \<Rightarrow> MessageList \<Rightarrow> string \<Rightarrow> 'a service \<Rightarrow> 'a service \<times> BulkResult \<times> error option" where
  "list_AddTag ctxErr now userID l tagID = forEachMessage ctxErr l (\<lambda>i. mb_AddTag now userID i tagID)"

definition list_RemoveTag ::
    "(nat \<Rightarrow> error option) \<Rightarrow> time \<Rightarrow> string \<Rightarrow> MessageList \<Rightarrow> string \<Rightarrow> 'a service \<Rightarrow> 'a service \<times> BulkResult \<times> error option" where
  "list_RemoveTag ctxErr now userID l tagID = forEachMessage ctxErr l (\<lambda>i. mb_RemoveTag now userID i tagID)"

section \<open>Iterators\<close>

text \<open>
  The state of a \<open>batchIterator\<close>; \<open>it_cursor\<close> is what \<open>setCursor\<close> stores in the options of the
  query. The closure \<open>fetch\<close> is a function of that cursor and of the service.
\<close>

record batchIterator =
  it_batchSize :: int
  it_batch :: "message list"
  it_batchIdx :: int
  it_done :: bool
  it_fetched :: bool
  it_cursor :: string

type_synonym 'a fetch = "string \<Rightarrow> 'a service \<Rightarrow> (error, message list) res"

definition ErrIteratorOutOfBounds :: error where "ErrIteratorOutOfBounds = ExternalError 2"

definition it_Next ::
    "'a fetch \<Rightarrow> string \<Rightarrow> batchIterator \<Rightarrow> 'a service \<Rightarrow> batchIterator \<times> (error, bool) res" where
  "it_Next fetch userID it s =
    (if it_done it then (it, Ok False)
     else case checkAccess userID s of Some e \<Rightarrow> (it\<lparr>it_done := True\<rparr>, Err e) | None \<Rightarrow>
       if it_batchIdx it \<ge> len (it_batch it) then
         if it_fetched it \<and> len (it_batch it) < it_batchSize it then (it\<lparr>it_done := True\<rparr>, Ok False)
         else
           (case fetch (it_cursor it) s of
              Err e \<Rightarrow> (it\<lparr>it_done := True\<rparr>, Err e)
            | Panic \<Rightarrow> (it, Panic)
            | Ok msgs \<Rightarrow>
                let it = it\<lparr>it_batch := msgs, it_batchIdx := 0, it_fetched := True\<rparr>;
                    it = (if msgs \<noteq> [] then it\<lparr>it_cursor := msgID (last msgs)\<rparr> else it)
                in if msgs = [] then (it\<lparr>it_done := True\<rparr>, Ok False)
                   else (it\<lparr>it_batchIdx := it_batchIdx it + 1\<rparr>, Ok True))
       else (it\<lparr>it_batchIdx := it_batchIdx it + 1\<rparr>, Ok True))"

definition it_Message :: "batchIterator \<Rightarrow> error + message" where
  "it_Message it =
    (if it_batchIdx it \<le> 0 \<or> it_batchIdx it > len (it_batch it) then Inl ErrIteratorOutOfBounds
     else Inr (it_batch it ! nat (it_batchIdx it - 1)))"

definition streamBatchSize :: "int \<Rightarrow> int" where
  "streamBatchSize batchSize = (if batchSize \<le> 0 then 100 else batchSize)"

definition newBatchIterator :: "int \<Rightarrow> batchIterator" where
  "newBatchIterator batchSize =
    \<lparr>it_batchSize = batchSize, it_batch = [], it_batchIdx = 0, it_done = False, it_fetched = False, it_cursor = ''''\<rparr>"

definition streamOptions :: "int \<Rightarrow> string \<Rightarrow> ListOptions" where
  "streamOptions batchSize cursor =
    \<lparr>Limit = batchSize, Offset = 0, SortBy = ''created_at'', Order = SortDesc, StartAfter = cursor\<rparr>"

definition messageFetch :: "time \<Rightarrow> Filter list \<Rightarrow> int \<Rightarrow> 'a fetch" where
  "messageFetch now filters batchSize cursor s =
    (case Store_Find now filters (streamOptions batchSize cursor) (svc_store s) of
       Err e \<Rightarrow> Err (StoreErr e) | Panic \<Rightarrow> Panic | Ok list \<Rightarrow> Ok (ml_Messages list))"

definition newMessageIterator :: "time \<Rightarrow> Filter list \<Rightarrow> int \<Rightarrow> 'a fetch \<times> batchIterator" where
  "newMessageIterator now filters batchSize =
    (let batchSize = streamBatchSize batchSize
     in (messageFetch now filters batchSize, newBatchIterator batchSize))"

definition mb_Stream ::
    "time \<Rightarrow> string \<Rightarrow> Filter list \<Rightarrow> int \<Rightarrow> 'a service \<Rightarrow> error + 'a fetch \<times> batchIterator" where
  "mb_Stream now userID filters batchSize s =
    (case checkAccess userID s of Some e \<Rightarrow> Inl e | None \<Rightarrow>
     Inr (newMessageIterator now ([OwnerIs userID, NotDeleted] @ filters) batchSize))"

definition searchFetch :: "'a env \<Rightarrow> time \<Rightarrow> SearchQuery \<Rightarrow> 'a fetch" where
  "searchFetch env now query cursor s =
    (case Store_Search (env_mapLower env) now (query\<lparr>sq_Options := (sq_Options query)\<lparr>StartAfter := cursor\<rparr>\<rparr>) (svc_store s) of
       Err e \<Rightarrow> Err (StoreErr e) | Panic \<Rightarrow> Panic | Ok list \<Rightarrow> Ok (ml_Messages list))"

definition mb_StreamSearch ::
    "'a env \<Rightarrow> time \<Rightarrow> string \<Rightarrow> SearchQuery \<Rightarrow> int \<Rightarrow> 'a service \<Rightarrow> error + 'a fetch \<times> batchIterator" where
  "mb_StreamSearch env now userID query batchSize s =
    (case checkAccess userID s of Some e \<Rightarrow> Inl e | None \<Rightarrow>
     let batchSize = streamBatchSize batchSize;
         q = \<lparr>sq_OwnerID = userID, sq_Query = sq_Query query, sq_Fields = sq_Fields query, sq_Tags = sq_Tags query,
              sq_Filters = [OwnerIs userID, NotDeleted] @ sq_Filters query,
              sq_Options = streamOptions batchSize ''''\<rparr>
     in Inr (searchFetch env now q, newBatchIterator batchSize))"

end
