(* ===== verification/Mailbox_Reads.thy ===== *)
theory Mailbox_Reads
  imports Mailbox_Trash Mailbox_Query
begin

text \<open>
  What the reads of a mailbox return: only messages of the user, and folder counts that agree with
  the queries a store without folder counting answers.
\<close>

section \<open>Messages a read returns\<close>

lemma Search_found:
  assumes "Store_Search mapLower now q st = Ok l" "store_inv st" "m \<in> set (ml_Messages l)"
  shows "msg_of st (msgID m) = Some m" "searchMatch mapLower now q m"
proof -
  have c: "connected st"
    using assms(1) unfolding Store_Search_def by (cases "connected st") simp_all
  define all where "all = sortMessages (filter (searchMatch mapLower now q) (map snd (messages st)))
        (SortBy (sq_Options q)) (Order (sq_Options q))"
  have "paginate all (sq_Options q) = Ok l"
    using assms(1) c unfolding Store_Search_def Let_def all_def by simp
  from subsetD [OF paginate_subset [OF this] assms(3)]
  have "m \<in> set (filter (searchMatch mapLower now q) (map snd (messages st)))"
    unfolding all_def set_sortMessages .
  then obtain k where k: "(k, m) \<in> set (messages st)" and s: "searchMatch mapLower now q m" by auto
  then have "msg_of st k = Some m" using store_invD(1) [OF assms(2)] by simp
  with inv_msgID [OF assms(2) this] s show "msg_of st (msgID m) = Some m" "searchMatch mapLower now q m" by simp_all
qed

text \<open>The messages a list shows are the user's own, stored under their identifier, and due.\<close>

definition own_list :: "time \<Rightarrow> string \<Rightarrow> 'a service \<Rightarrow> MessageList \<Rightarrow> bool" where
  "own_list now userID s l \<longleftrightarrow>
     list_all (\<lambda>m. msg_of (svc_store s) (msgID m) = Some m \<and> visible now userID m) (ml_Messages l)"

lemma own_listI:
  "(\<And>m. m \<in> set (ml_Messages l) \<Longrightarrow> msg_of (svc_store s) (msgID m) = Some m \<and> visible now userID m) \<Longrightarrow>
   own_list now userID s l"
  by (simp add: own_list_def list_all_iff)

lemma Find_own:
  assumes "Store_Find now filters opts (svc_store s) = Ok l" "store_inv (svc_store s)" "OwnerIs userID \<in> set filters"
  shows "own_list now userID s l"
proof (rule own_listI)
  fix m assume m: "m \<in> set (ml_Messages l)"
  have "ownerID m = userID"
    using bspec [OF _ assms(3)] Find_found(2) [OF assms(1,2) m] unfolding matching_def matchesFilters_iff by force
  then show "msg_of (svc_store s) (msgID m) = Some m \<and> visible now userID m"
    using Find_found [OF assms(1,2) m] by (simp add: visible_def matching_def)
qed

lemma wrapList_Ok: "wrapList r = Ok l \<longleftrightarrow> r = Ok l"
  by (cases r) (simp_all add: wrapList_def)

lemma Get_own:
  "mb_Get userID i s = Inr m \<longleftrightarrow> checkAccess userID s = None \<and> in_mailbox userID i s m"
proof -
  have "mb_Get userID i s = Inr m \<longleftrightarrow> checkAccess userID s = None \<and> getAndVerify userID i s = Inr m"
    unfolding mb_Get_def getAndVerify_def by (simp split: option.splits res.splits)
  then show ?thesis by (simp add: getAndVerify_iff)
qed

lemma listMessages_own:
  assumes "listMessages env now filters opts s = Ok l" "store_inv (svc_store s)" "OwnerIs userID \<in> set filters"
  shows "own_list now userID s l"
proof -
  obtain opts' l' where "Store_Find now filters opts' (svc_store s) = Ok l'" "ml_Messages l = ml_Messages l'"
  proof -
    define o' where "o' = (let opts = queryLimit (env_cfg env) opts in
       (if SortBy opts = '''' then opts\<lparr>SortBy := ''CreatedAt'', Order := SortDesc\<rparr> else opts))"
    have run: "listMessages env now filters opts s =
     (case Store_FindWithCount now filters o' (svc_store s) of
        Err e \<Rightarrow> Err (Wrapf (StoreErr e))
      | Panic \<Rightarrow> Panic
      | Ok (list, tot) \<Rightarrow>
          Ok \<lparr>ml_Messages = ml_Messages list, ml_Total = tot, ml_HasMore = ml_HasMore list,
              ml_NextCursor = (if ml_HasMore list \<and> ml_Messages list \<noteq> []
                               then msgID (last (ml_Messages list)) else '''')\<rparr>)"
      unfolding listMessages_def o'_def Let_def by simp
    show thesis
    proof (cases "Store_Find now filters o' (svc_store s)")
      case (Ok l')
      with assms(1) have "ml_Messages l = ml_Messages l'"
        unfolding run Store_FindWithCount_def by (cases "Store_Count now filters (svc_store s)") auto
      with Ok show thesis by (rule that)
    qed (use assms(1) in \<open>simp_all add: run Store_FindWithCount_def\<close>)
  qed
  then show ?thesis using Find_own [OF _ assms(2,3)] by (simp add: own_list_def)
qed

lemma searchMatchD:
  assumes "searchMatch mapLower now q m"
  shows "\<not> isDraft m" "isAvailableNow now m" "matchesFilters m (sq_Filters q)"
  using assms unfolding searchMatch_def Let_def by (simp_all split: if_splits)

lemma Search_own:
  assumes "mb_Search env now userID q s = Ok l" "store_inv (svc_store s)"
  shows "own_list now userID s l"
proof -
  obtain q' where q: "Store_Search (env_mapLower env) now q' (svc_store s) = Ok l" "OwnerIs userID \<in> set (sq_Filters q')"
    using assms(1) unfolding mb_Search_def Let_def wrapList_Ok
    by (cases "sq_Tags q = []") (simp_all split: option.splits add: wrapList_Ok)
  show ?thesis
  proof (rule own_listI)
    fix m assume m: "m \<in> set (ml_Messages l)"
    note f = Search_found [OF q(1) assms(2) m]
    have "ownerID m = userID"
      using bspec [OF searchMatchD(3) [OF f(2), unfolded matchesFilters_iff] q(2)] by simp
    then show "msg_of (svc_store s) (msgID m) = Some m \<and> visible now userID m"
      using f(1) searchMatchD [OF f(2)] by (simp add: visible_def)
  qed
qed

section \<open>Folder counts\<close>

lemma Count_folder:
  assumes "connected st"
  shows "Store_Count now [OwnerIs userID, NotDeleted, InFolder i] st =
      Ok (if i = FolderTrash then 0 else fc_Total (tally (filter (visible now userID) (map snd (messages st))) i))"
    "Store_Count now [OwnerIs userID, NotDeleted, InFolder i, IsReadFilter False] st =
      Ok (if i = FolderTrash then 0 else fc_Unread (tally (filter (visible now userID) (map snd (messages st))) i))"
proof -
  have "matching now [OwnerIs userID, NotDeleted, InFolder i] =
      (\<lambda>m. i \<noteq> FolderTrash \<and> visible now userID m \<and> folderID m = i)"
    "matching now [OwnerIs userID, NotDeleted, InFolder i, IsReadFilter False] =
      (\<lambda>m. i \<noteq> FolderTrash \<and> visible now userID m \<and> folderID m = i \<and> \<not> isRead m)"
    by (rule ext, auto simp: matching_def visible_def)+
  then show "Store_Count now [OwnerIs userID, NotDeleted, InFolder i] st =
      Ok (if i = FolderTrash then 0 else fc_Total (tally (filter (visible now userID) (map snd (messages st))) i))"
    "Store_Count now [OwnerIs userID, NotDeleted, InFolder i, IsReadFilter False] st =
      Ok (if i = FolderTrash then 0 else fc_Unread (tally (filter (visible now userID) (map snd (messages st))) i))"
    by (simp_all only: Count_eq [OF assms] tally_def filter_filter FolderCounts.simps) (cases "i = FolderTrash"; simp)+
qed

text \<open>The entry \<open>ListFolders\<close> makes for a folder.\<close>

definition folderInfo :: "time \<Rightarrow> string \<Rightarrow> Store \<Rightarrow> string \<Rightarrow> FolderInfo" where
  "folderInfo now userID st i =
     (let c = tally (filter (visible now userID) (map snd (messages st))) i
      in \<lparr>fi_ID = i, fi_Name = folderName i, fi_IsSystem = systemFolderSet i,
          fi_MessageCount = fc_Total c, fi_UnreadCount = fc_Unread c\<rparr>)"

lemma CountByFolders_eq:
  assumes "connected st"
  shows "\<exists>counts. Store_CountByFolders now userID ids st = Ok counts \<and>
     (\<forall>i. i \<in> set ids \<longrightarrow> folderCounts counts i = tally (filter (visible now userID) (map snd (messages st))) i)"
proof -
  let ?P = "\<lambda>m. visible now userID m \<and> folderID m \<in> set ids"
  let ?c = "foldl (\<lambda>counts (_, m). if ?P m then countMessage m counts else counts) [] (messages st)"
  have step: "(\<lambda>counts (_, m). if isDraft m \<or> ownerID m \<noteq> userID \<or> \<not> isAvailableNow now m then counts
             else if folderID m \<notin> set ids then counts
             else countMessage m counts) = (\<lambda>counts (_ :: string, m). if ?P m then countMessage m counts else counts)"
    by (intro ext) (auto simp: visible_def)
  have "Store_CountByFolders now userID ids st = Ok ?c"
    unfolding Store_CountByFolders_def step using assms by simp
  moreover have "folderCounts ?c i = tally (filter (visible now userID) (map snd (messages st))) i" if "i \<in> set ids" for i
  proof -
    have "tally (filter ?P ms) i = tally (filter (visible now userID) ms) i" for ms
      using that by (induction ms) (auto simp: tally_def)
    then show ?thesis using CountByFolders_gen [of ?P "[]" "messages st" i] by simp
  qed
  ultimately show ?thesis by blast
qed

lemma listFoldersSlow_eq:
  assumes "connected st"
  shows "listFoldersSlow now userID ids st = Inr (map (\<lambda>i. if i = FolderTrash
     then (folderInfo now userID st i)\<lparr>fi_MessageCount := 0, fi_UnreadCount := 0\<rparr> else folderInfo now userID st i) ids)"
  by (induction ids) (simp_all add: Count_folder [OF assms] folderInfo_def Let_def)

definition customFolders :: "time \<Rightarrow> string \<Rightarrow> Store \<Rightarrow> string list" where
  "customFolders now userID st = filter (\<lambda>i. \<not> systemFolderSet i)
     (seenKeys (map folderID (filter (visible now userID) (map snd (messages st)))))"

lemma ListFolders_eq:
  assumes "connected (svc_store s)" "checkAccess userID s = None"
  shows "mb_ListFolders now userID s =
    Inr (map (folderInfo now userID (svc_store s)) (map fst systemFolders @ customFolders now userID (svc_store s)))"
proof -
  let ?st = "svc_store s" and ?custom = "customFolders now userID (svc_store s)"
  let ?all = "map fst systemFolders @ ?custom"
  have vis: "(\<lambda>m. \<not> (isDraft m \<or> ownerID m \<noteq> userID \<or> \<not> isAvailableNow now m)) = visible now userID"
    by (rule ext) (auto simp: visible_def)
  have ids: "\<exists>ids. Store_ListDistinctFolders now userID ?st = Ok ids \<and> filter (\<lambda>i. \<not> systemFolderSet i) ids = ?custom"
    unfolding Store_ListDistinctFolders_def vis customFolders_def using assms(1) by simp
  obtain counts where counts: "Store_CountByFolders now userID ?all ?st = Ok counts"
      "\<And>i. i \<in> set ?all \<Longrightarrow> folderCounts counts i = tally (filter (visible now userID) (map snd (messages ?st))) i"
    using CountByFolders_eq [OF assms(1), of now userID ?all] by blast
  have sys: "map (\<lambda>(i, name). \<lparr>fi_ID = i, fi_Name = name, fi_IsSystem = True,
       fi_MessageCount = fc_Total (folderCounts counts i), fi_UnreadCount = fc_Unread (folderCounts counts i)\<rparr>) systemFolders =
     map (folderInfo now userID ?st) (map fst systemFolders)"
    using counts(2)
    by (simp add: systemFolders_def folderInfo_def folderName_def systemFolderSet_def Let_def FolderInbox_def FolderSent_def
        FolderArchived_def FolderTrash_def)
  have cust: "map (\<lambda>i. \<lparr>fi_ID = i, fi_Name = i, fi_IsSystem = False,
       fi_MessageCount = fc_Total (folderCounts counts i), fi_UnreadCount = fc_Unread (folderCounts counts i)\<rparr>) ?custom =
     map (folderInfo now userID ?st) ?custom"
    using counts(2) by (intro map_cong) (simp_all add: folderInfo_def folderName_def Let_def customFolders_def)
  from ids obtain ids where "Store_ListDistinctFolders now userID ?st = Ok ids" "filter (\<lambda>i. \<not> systemFolderSet i) ids = ?custom"
    by blast
  then show ?thesis
    using assms(2) counts(1) sys cust by (simp add: mb_ListFolders_def Let_def)
qed

section \<open>Properties\<close>


text \<open>
  C22: The folder list is complete and its fast path agrees with the fallback. \<open>ListFolders\<close> returns the four
  system folders and every other folder that holds a visible message of the user, each once. Counting the same
  folders one by one, as the code does for a store without a folder counter, gives the same
  entries except for the trash: the fallback excludes deleted messages from its counts, so it reports an empty trash
  whatever the trash holds.
\<close>

theorem ListFolders_fallback:
  assumes "connected (svc_store s)" "checkAccess userID s = None"
  shows "\<exists>fs. mb_ListFolders now userID s = Inr fs \<and> distinct (map fi_ID fs) \<and>
     set (map fi_ID fs) = {FolderInbox, FolderSent, FolderArchived, FolderTrash} \<union>
       folderID ` set (filter (visible now userID) (map snd (messages (svc_store s)))) \<and>
     listFoldersSlow now userID (map fi_ID fs) (svc_store s) =
       Inr (map (\<lambda>f. if fi_ID f = FolderTrash then f\<lparr>fi_MessageCount := 0, fi_UnreadCount := 0\<rparr> else f) fs)"
proof -
  let ?st = "svc_store s" and ?custom = "customFolders now userID (svc_store s)"
  let ?all = "map fst systemFolders @ ?custom"
  let ?fs = "map (folderInfo now userID ?st) ?all"
  have ids: "map fi_ID ?fs = ?all" by (simp add: folderInfo_def Let_def comp_def)
  have four: "set (map fst systemFolders) = {FolderInbox, FolderSent, FolderArchived, FolderTrash}"
    by (simp add: systemFolders_def)
  have "distinct (map fst systemFolders)"
    by (simp add: systemFolders_def FolderInbox_def FolderSent_def FolderArchived_def FolderTrash_def)
  then have "distinct ?all" by (auto simp: customFolders_def systemFolderSet_def)
  moreover have "set ?all = {FolderInbox, FolderSent, FolderArchived, FolderTrash} \<union>
       folderID ` set (filter (visible now userID) (map snd (messages ?st)))"
    unfolding set_append four customFolders_def set_filter seenKeys(1) set_map systemFolderSet_def
    unfolding four [unfolded set_map] by blast
  moreover have "listFoldersSlow now userID ?all ?st =
      Inr (map (\<lambda>f. if fi_ID f = FolderTrash then f\<lparr>fi_MessageCount := 0, fi_UnreadCount := 0\<rparr> else f) ?fs)"
    unfolding listFoldersSlow_eq [OF assms(1)] map_map comp_def by (simp add: folderInfo_def Let_def)
  ultimately show ?thesis
    by (intro exI [of _ ?fs] conjI, unfold ids) (rule ListFolders_eq [OF assms], assumption+)
qed


theorem ListFolders_fallback_witness:
  "\<exists>fs. mb_ListFolders 200 ''bob'' (demoService demoFull) = Inr fs \<and>
     listFoldersSlow 200 ''bob'' (map fi_ID fs) demoFull =
       Inr (map (\<lambda>f. if fi_ID f = FolderTrash then f\<lparr>fi_MessageCount := 0, fi_UnreadCount := 0\<rparr> else f) fs)"
proof -
  have c: "connected (svc_store (demoService demoFull))" by (simp add: demoBob(2))
  show ?thesis
    using ListFolders_fallback [OF c demoBob(1), of 200] unfolding demoBob(2)
    by (elim exE conjE) (intro exI conjI)
qed

end
