(* ===== verification/Mailbox_Draft.thy ===== *)
theory Mailbox_Draft
  imports Mailbox_Send Mailbox_Trash
begin

text \<open>
  Drafts as the mailbox hands them out (\<open>draft.go\<close>, with \<open>Compose\<close>, \<open>GetDraft\<close> and \<open>Drafts\<close>): a draft
  of the store together with the fields the mailbox keeps beside it. The field \<open>mailbox\<close> of the code is the
  argument \<open>userID\<close>.
\<close>

section \<open>Composing\<close>

record draft =
  d_message :: message
  d_saved :: bool
  d_threadID :: string
  d_replyToID :: string
  d_externalID :: string
  d_ttl :: duration
  d_scheduleAt :: "time option"
  d_deliverTo :: "string list"

definition newDraft :: "time \<Rightarrow> string \<Rightarrow> draft" where
  "newDraft now userID =
    \<lparr>d_message = Store_NewDraft now userID, d_saved = False, d_threadID = '''', d_replyToID = '''',
     d_externalID = '''', d_ttl = 0, d_scheduleAt = None, d_deliverTo = []\<rparr>"

definition newSavedDraft :: "message \<Rightarrow> draft" where
  "newSavedDraft msg =
    \<lparr>d_message = msg, d_saved = True, d_threadID = threadID msg, d_replyToID = replyToID msg,
     d_externalID = externalID msg, d_ttl = 0, d_scheduleAt = availableAt msg, d_deliverTo = []\<rparr>"

definition mb_Compose :: "time \<Rightarrow> string \<Rightarrow> 'a service \<Rightarrow> error + draft" where
  "mb_Compose now userID s =
    (case checkAccess userID s of Some e \<Rightarrow> Inl e | None \<Rightarrow> Inr (newDraft now userID))"

definition draft_SetRecipients :: "time \<Rightarrow> string list \<Rightarrow> draft \<Rightarrow> draft" where
  "draft_SetRecipients now recipients d = d\<lparr>d_message := message_SetRecipients now recipients (d_message d)\<rparr>"

definition draft_SetDeliverTo :: "string list \<Rightarrow> draft \<Rightarrow> draft" where
  "draft_SetDeliverTo recipients d = d\<lparr>d_deliverTo := recipients\<rparr>"

definition draft_SetSubject :: "time \<Rightarrow> string \<Rightarrow> draft \<Rightarrow> draft" where
  "draft_SetSubject now subj d = d\<lparr>d_message := message_SetSubject now subj (d_message d)\<rparr>"

definition draft_SetBody :: "time \<Rightarrow> string \<Rightarrow> draft \<Rightarrow> draft" where
  "draft_SetBody now bdy d = d\<lparr>d_message := message_SetBody now bdy (d_message d)\<rparr>"

definition draft_SetHeader :: "time \<Rightarrow> string \<Rightarrow> string \<Rightarrow> draft \<Rightarrow> draft" where
  "draft_SetHeader now key val d = d\<lparr>d_message := message_SetHeader now key val (d_message d)\<rparr>"

definition draft_SetMetadata :: "time \<Rightarrow> string \<Rightarrow> any \<Rightarrow> draft \<Rightarrow> draft" where
  "draft_SetMetadata now key val d = d\<lparr>d_message := message_SetMetadata now key val (d_message d)\<rparr>"

definition draft_SetTTL :: "time \<Rightarrow> duration \<Rightarrow> draft \<Rightarrow> draft" where
  "draft_SetTTL now dur d = d\<lparr>d_ttl := dur, d_message := message_SetTTL now dur (d_message d)\<rparr>"

definition draft_SetScheduleAt :: "time \<Rightarrow> time \<Rightarrow> draft \<Rightarrow> draft" where
  "draft_SetScheduleAt now t d =
    (let d = (if t = zeroTime then d\<lparr>d_scheduleAt := None\<rparr> else d\<lparr>d_scheduleAt := Some t\<rparr>)
     in d\<lparr>d_message := message_SetScheduleAt now t (d_message d)\<rparr>)"

definition draft_SetExternalID :: "string \<Rightarrow> draft \<Rightarrow> draft" where
  "draft_SetExternalID i d = d\<lparr>d_externalID := i\<rparr>"

definition draft_AddAttachment ::
    "'a env \<Rightarrow> time \<Rightarrow> Attachment option \<Rightarrow> draft \<Rightarrow> draft \<times> error option" where
  "draft_AddAttachment env now attachment d =
    (case attachment of None \<Rightarrow> (d, Some (Sentinel ErrInvalidAttachment)) | Some a \<Rightarrow>
     let limits = getLimits (env_cfg env) in
     if att_Filename a = '''' then (d, Some (ValidationError ''attachment.filename''))
     else if att_ContentType a = '''' then (d, Some (ValidationError ''attachment.content_type''))
     else if att_Size a > lim_MaxAttachmentSize limits then (d, Some (ValidationError ''attachment.size''))
     else if len (attachments (d_message d)) \<ge> lim_MaxAttachmentCount limits then (d, Some (ValidationError ''attachments''))
     else (d\<lparr>d_message := message_AddAttachment now a (d_message d)\<rparr>, None))"

definition draft_ReplyTo :: "string \<Rightarrow> string \<Rightarrow> 'a service \<Rightarrow> draft \<Rightarrow> draft \<times> error option" where
  "draft_ReplyTo userID messageID s d =
    (if messageID = '''' then (d, Some (ValidationError ''message_id''))
     else case Store_Get messageID (svc_store s) of
            Err e \<Rightarrow> (d, Some (Wrapf (StoreErr e)))
          | Panic \<Rightarrow> (d, Some (ExternalError 0))
          | Ok parent \<Rightarrow>
              if \<not> canAccess userID parent then (d, Some (Sentinel ErrUnauthorized))
              else let d = d\<lparr>d_replyToID := messageID\<rparr>;
                       tid = threadID parent
                   in (if tid \<noteq> '''' then d\<lparr>d_threadID := tid\<rparr> else d\<lparr>d_threadID := messageID\<rparr>, None))"

definition draft_Forward :: "time \<Rightarrow> string \<Rightarrow> string \<Rightarrow> 'a service \<Rightarrow> draft \<Rightarrow> draft \<times> error option" where
  "draft_Forward now userID messageID s d =
    (if messageID = '''' then (d, Some (ValidationError ''message_id''))
     else case Store_Get messageID (svc_store s) of
            Err e \<Rightarrow> (d, Some (Wrapf (StoreErr e)))
          | Panic \<Rightarrow> (d, Some (ExternalError 0))
          | Ok original \<Rightarrow>
              if \<not> canAccess userID original then (d, Some (Sentinel ErrUnauthorized))
              else let subj = subject original;
                       subj = (if length subj < 4 \<or> take 4 subj \<noteq> ''Fwd:'' then ''Fwd: '' @ subj else subj);
                       msg = message_SetSubject now subj (d_message d);
                       msg = message_SetBody now (body original) msg;
                       msg = foldl (\<lambda>m a. message_AddAttachment now a m) msg (attachments original)
                   in (d\<lparr>d_message := msg\<rparr>, None))"

section \<open>Sending, saving, deleting\<close>

definition draft_Send ::
    "'a env \<Rightarrow> error option \<Rightarrow> time \<Rightarrow> string \<Rightarrow> draft \<Rightarrow> 'a service \<Rightarrow>
     'a service \<times> draft \<times> message option \<times> error option" where
  "draft_Send env acquire now userID d s =
    (case sendDraft env acquire now userID (d_message d) (d_threadID d) (d_replyToID d) (d_externalID d)
            (d_ttl d) (d_scheduleAt d) (d_deliverTo d) s of
       (s, msg, sent, err) \<Rightarrow>
         let d = d\<lparr>d_message := msg\<rparr>
         in (s, if sent \<noteq> None then d\<lparr>d_saved := True\<rparr> else d, sent, err))"

definition draft_Save ::
    "'a env \<Rightarrow> time \<Rightarrow> string \<Rightarrow> draft \<Rightarrow> 'a service \<Rightarrow> 'a service \<times> draft \<times> error option" where
  "draft_Save env now userID d s =
    (let d = d\<lparr>d_message := message_SetThreadID now (d_threadID d) (d_message d)\<rparr>;
         d = d\<lparr>d_message := message_SetReplyToID now (d_replyToID d) (d_message d)\<rparr>;
         d = d\<lparr>d_message := message_SetExternalID now (d_externalID d) (d_message d)\<rparr>
     in (case saveDraft env now userID (d_message d) s of
           (s, Inl e) \<Rightarrow> (s, d, Some e)
         | (s, Inr savedMsg) \<Rightarrow> (s, d\<lparr>d_message := savedMsg, d_saved := True\<rparr>, None)))"

definition draft_Delete :: "draft \<Rightarrow> 'a service \<Rightarrow> 'a service \<times> error option" where
  "draft_Delete d s =
    (if \<not> d_saved d \<or> msgID (d_message d) = '''' then (s, None)
     else case Store_DeleteDraft (msgID (d_message d)) (svc_store s) of
            (st, r) \<Rightarrow> (s\<lparr>svc_store := st\<rparr>, storeErr r))"

definition mb_GetDraft :: "string \<Rightarrow> string \<Rightarrow> 'a service \<Rightarrow> error + draft" where
  "mb_GetDraft userID i s =
    (case checkAccess userID s of Some e \<Rightarrow> Inl e | None \<Rightarrow>
     (case Store_GetDraft i (svc_store s) of
        Err e \<Rightarrow> Inl (if errors_Is (StoreErr e) (Inr ErrNotFound) then Sentinel MErrNotFound else Wrapf (StoreErr e))
      | Panic \<Rightarrow> Inl (ExternalError 0)
      | Ok d \<Rightarrow> if ownerID d \<noteq> userID then Inl (Sentinel MErrNotFound) else Inr (newSavedDraft d)))"

section \<open>Lists of drafts\<close>

record draftList =
  dls_drafts :: "draft list"
  dls_total :: int
  dls_hasMore :: bool
  dls_nextCursor :: string

definition mb_Drafts :: "string \<Rightarrow> ListOptions \<Rightarrow> 'a service \<Rightarrow> (error, draftList) res" where
  "mb_Drafts userID opts s =
    (case checkAccess userID s of Some e \<Rightarrow> Err e | None \<Rightarrow>
     (case Store_ListDrafts userID opts (svc_store s) of
        Err e \<Rightarrow> Err (Wrapf (StoreErr e))
      | Panic \<Rightarrow> Panic
      | Ok l \<Rightarrow> Ok \<lparr>dls_drafts = map newSavedDraft (dl_Drafts l), dls_total = dl_Total l, dls_hasMore = dl_HasMore l,
              dls_nextCursor = ''''\<rparr>))"

definition draftList_IDs :: "draft list \<Rightarrow> string list" where
  "draftList_IDs drafts = filter (\<lambda>i. i \<noteq> '''') (map (\<lambda>d. msgID (d_message d)) drafts)"

fun draftList_Delete ::
    "(nat \<Rightarrow> error option) \<Rightarrow> nat \<Rightarrow> draft list \<Rightarrow> 'a service \<Rightarrow> 'a service \<times> BulkResult" where
  "draftList_Delete ctxErr i [] s = (s, [])"
| "draftList_Delete ctxErr i (d # rest) s =
    (case ctxErr i of
       Some err \<Rightarrow> (s, map (\<lambda>r. \<lparr>or_ID = r, or_Success = False, or_Error = Some err\<rparr>) (draftList_IDs (d # rest)))
     | None \<Rightarrow>
         if msgID (d_message d) = '''' then draftList_Delete ctxErr (i + 1) rest s
         else (case Store_DeleteDraft (msgID (d_message d)) (svc_store s) of
                 (st, r) \<Rightarrow>
                   (case draftList_Delete ctxErr (i + 1) rest (s\<lparr>svc_store := st\<rparr>) of
                      (s, results) \<Rightarrow>
                        (s, \<lparr>or_ID = msgID (d_message d), or_Success = (storeErr r = None), or_Error = storeErr r\<rparr> # results))))"

definition draftLabel :: "draft \<Rightarrow> string" where
  "draftLabel d = (if msgID (d_message d) = '''' then ''unsaved-draft'' else msgID (d_message d))"

fun draftList_Send ::
    "'a env \<Rightarrow> (nat \<Rightarrow> error option) \<Rightarrow> (nat \<Rightarrow> error option) \<Rightarrow> time \<Rightarrow> string \<Rightarrow> nat \<Rightarrow> draft list \<Rightarrow> 'a service \<Rightarrow>
     'a service \<times> BulkResult \<times> message list" where
  "draftList_Send env acquire ctxErr now userID i [] s = (s, [], [])"
| "draftList_Send env acquire ctxErr now userID i (d # rest) s =
    (case ctxErr i of
       Some err \<Rightarrow> (s, map (\<lambda>d. \<lparr>or_ID = draftLabel d, or_Success = False, or_Error = Some err\<rparr>) (d # rest), [])
     | None \<Rightarrow>
         (case draft_Send env (acquire i) now userID d s of
            (s, _, msg, err) \<Rightarrow>
              (case draftList_Send env acquire ctxErr now userID (i + 1) rest s of
                 (s, results, sent) \<Rightarrow>
                   (s, \<lparr>or_ID = draftLabel d, or_Success = (msg \<noteq> None), or_Error = err\<rparr> # results,
                    (case msg of Some m \<Rightarrow> m # sent | None \<Rightarrow> sent)))))"

section \<open>What holds of every draft\<close>

text \<open>
  The drafts a user can have in hand before sending: a new or reloaded one, changed by any sequence of calls.
  A draft of the store has a user's identifier under its own identifier, as the invariant of the store says.
\<close>

inductive composed :: "'a env \<Rightarrow> string \<Rightarrow> draft \<Rightarrow> bool" for env :: "'a env" and userID :: string where
  new: "composed env userID (newDraft now userID)"
| reload: "store_inv (svc_store s) \<Longrightarrow> mb_GetDraft userID i (s :: 'a service) = Inr d \<Longrightarrow> composed env userID d"
| recipients: "composed env userID d \<Longrightarrow> composed env userID (draft_SetRecipients now rs d)"
| deliver: "composed env userID d \<Longrightarrow> composed env userID (draft_SetDeliverTo rs d)"
| subj: "composed env userID d \<Longrightarrow> composed env userID (draft_SetSubject now x d)"
| bdy: "composed env userID d \<Longrightarrow> composed env userID (draft_SetBody now x d)"
| header: "composed env userID d \<Longrightarrow> composed env userID (draft_SetHeader now k v d)"
| meta: "composed env userID d \<Longrightarrow> composed env userID (draft_SetMetadata now k w d)"
| ttl: "composed env userID d \<Longrightarrow> composed env userID (draft_SetTTL now dur d)"
| schedule: "composed env userID d \<Longrightarrow> composed env userID (draft_SetScheduleAt now t d)"
| external: "composed env userID d \<Longrightarrow> composed env userID (draft_SetExternalID i d)"
| attach: "composed env userID d \<Longrightarrow> draft_AddAttachment env now a d = (d', e) \<Longrightarrow> composed env userID d'"
| reply: "composed env userID d \<Longrightarrow> draft_ReplyTo userID i (s :: 'a service) d = (d', e) \<Longrightarrow> composed env userID d'"
| forward: "composed env userID d \<Longrightarrow> draft_Forward now userID i (s :: 'a service) d = (d', e) \<Longrightarrow> composed env userID d'"
| save: "composed env userID d \<Longrightarrow> draft_Save env now userID d s = (s', d', e) \<Longrightarrow> composed env userID d'"

definition draft_wf :: "string \<Rightarrow> draft \<Rightarrow> bool" where
  "draft_wf userID d \<longleftrightarrow>
     isDraft (d_message d) \<and> ownerID (d_message d) = userID \<and> (d_saved d \<longleftrightarrow> msgID (d_message d) \<noteq> '''') \<and>
     availableAt (d_message d) = d_scheduleAt d \<and> (0 < d_ttl d \<longrightarrow> expiresAt (d_message d) \<noteq> None)"

lemma GetDraft_loads:
  assumes "checkAccess userID s = None" "connected (svc_store s)" "i \<noteq> ''''" "msg_of (svc_store s) i = Some m" "isDraft m"
    "ownerID m = userID"
  shows "mb_GetDraft userID i s = Inr (newSavedDraft m)"
  using assms by (simp add: mb_GetDraft_def Store_GetDraft_def)

lemma GetDraft_Inr:
  assumes "mb_GetDraft userID i s = Inr d"
  obtains m where "i \<noteq> ''''" "msg_of (svc_store s) i = Some m" "isDraft m" "ownerID m = userID" "d = newSavedDraft m"
proof (cases "Store_GetDraft i (svc_store s)")
  case (Ok m)
  then have "i \<noteq> ''''" "msg_of (svc_store s) i = Some m" "isDraft m"
    unfolding Store_GetDraft_def by (simp_all split: if_splits option.splits)
  moreover have "ownerID m = userID" "d = newSavedDraft m"
    using assms Ok unfolding mb_GetDraft_def by (simp_all split: if_splits option.splits)
  ultimately show thesis by (rule that)
qed (use assms in \<open>simp_all add: mb_GetDraft_def split: option.splits\<close>)

text \<open>The fields of the message that the mailbox layer relies on.\<close>

definition same_frame :: "message \<Rightarrow> message \<Rightarrow> bool" where
  "same_frame a b \<longleftrightarrow> isDraft b = isDraft a \<and> ownerID b = ownerID a \<and> msgID b = msgID a \<and>
     availableAt b = availableAt a \<and> expiresAt b = expiresAt a"

lemma wf_frame:
  assumes "draft_wf userID d" "same_frame (d_message d) (d_message d')"
    and "d_saved d' = d_saved d" "d_scheduleAt d' = d_scheduleAt d" "d_ttl d' = d_ttl d"
  shows "draft_wf userID d'"
  using assms by (simp add: draft_wf_def same_frame_def)

lemma addAttachments_frame:
  "same_frame m (foldl (\<lambda>m a. message_AddAttachment now a m) (m\<lparr>subject := x, body := y, updatedAt := t\<rparr>) as)"
proof -
  have "same_frame m (foldl (\<lambda>m a. message_AddAttachment now a m) m' as)" if "same_frame m m'" for m'
    using that by (induction as arbitrary: m') (simp_all add: message_AddAttachment_def same_frame_def)
  then show ?thesis by (simp add: same_frame_def)
qed

text \<open>The record that \<open>Save\<close> stores.\<close>

definition savedMessage :: "time \<Rightarrow> draft \<Rightarrow> string \<Rightarrow> message" where
  "savedMessage now d i = (d_message d)\<lparr>msgID := i, threadID := d_threadID d, replyToID := d_replyToID d,
     externalID := d_externalID d, updatedAt := now, isDraft := True\<rparr>"

lemma SaveDraft_own:
  assumes "connected st"
  shows "let i = (if msgID m = '''' then uuid (uuidSeq st) else msgID m); m' = m\<lparr>msgID := i, updatedAt := now, isDraft := True\<rparr>
    in \<exists>st'. Store_SaveDraft uuid now (OwnDraft m) st = (st', Ok m') \<and> msg_of st' i = Some m' \<and> connected st'"
proof (cases "msgID m = ''''")
  case True
  then show ?thesis using assms by (simp add: Store_SaveDraft_def newUUID_def Let_def)
next
  case False
  then have "m\<lparr>msgID := msgID m, updatedAt := now, isDraft := True\<rparr> = m\<lparr>updatedAt := now, isDraft := True\<rparr>" by simp
  with False show ?thesis using assms by (simp add: Store_SaveDraft_def newUUID_def Let_def)
qed

lemma draft_Save_cases:
  assumes "uuid_ok (env_uuid env)" "draft_Save env now userID d s = (s', d', e)"
  obtains (failed) err where "e = Some err" "d_saved d' = d_saved d" "d_scheduleAt d' = d_scheduleAt d" "d_ttl d' = d_ttl d"
      "same_frame (d_message d) (d_message d')"
  | (saved) i where "e = None" "i \<noteq> ''''" "msgID (d_message d) \<noteq> '''' \<longrightarrow> i = msgID (d_message d)"
      "d' = d\<lparr>d_message := savedMessage now d i, d_saved := True\<rparr>"
      "msg_of (svc_store s') i = Some (savedMessage now d i)" "connected (svc_store s')" "svc_state s' = svc_state s"
      "checkAccess userID s = None"
proof -
  let ?m = "(d_message d)\<lparr>threadID := d_threadID d, replyToID := d_replyToID d, externalID := d_externalID d, updatedAt := now\<rparr>"
  have run: "draft_Save env now userID d s = (case saveDraft env now userID ?m s of
           (s, Inl e) \<Rightarrow> (s, d\<lparr>d_message := ?m\<rparr>, Some e)
         | (s, Inr savedMsg) \<Rightarrow> (s, d\<lparr>d_message := savedMsg, d_saved := True\<rparr>, None))"
    by (simp add: draft_Save_def Let_def setter_defs split: prod.splits sum.splits)
  obtain s1 r where sv: "saveDraft env now userID ?m s = (s1, r)" by (rule prod.exhaust)
  show thesis
  proof (cases r)
    case (Inl err)
    then have "e = Some err" "d' = d\<lparr>d_message := ?m\<rparr>" using assms(2) run sv by simp_all
    then show thesis by (intro failed) (simp_all add: same_frame_def)
  next
    case (Inr saved)
    then have out: "e = None" "d' = d\<lparr>d_message := saved, d_saved := True\<rparr>" "s' = s1" using assms(2) run sv by simp_all
    have acc: "checkAccess userID s = None"
      using sv Inr by (cases "checkAccess userID s") (simp_all add: saveDraft_def)
    obtain st where st: "Store_SaveDraft (env_uuid env) now (OwnDraft ?m) (svc_store s) = (st, Ok saved)" "s1 = s\<lparr>svc_store := st\<rparr>"
      using sv Inr acc unfolding saveDraft_def Let_def
      by (simp split: option.splits prod.splits res.splits)
    define i where "i = (if msgID ?m = '''' then env_uuid env (uuidSeq (svc_store s)) else msgID ?m)"
    have c: "connected (svc_store s)" using st(1) by (cases "connected (svc_store s)") (simp_all add: Store_SaveDraft_def)
    have "saved = ?m\<lparr>msgID := i, updatedAt := now, isDraft := True\<rparr> \<and>
        msg_of st i = Some (?m\<lparr>msgID := i, updatedAt := now, isDraft := True\<rparr>) \<and> connected st"
      using SaveDraft_own [OF c, of ?m "env_uuid env" now] st(1) unfolding i_def Let_def by auto
    then have eq: "saved = savedMessage now d i" "msg_of st i = Some (savedMessage now d i)" "connected st"
      by (simp_all add: savedMessage_def)
    have "i \<noteq> ''''" using assms(1) by (simp add: i_def uuid_ok_def)
    then show thesis using out eq acc st(2) by (intro saved) (simp_all add: i_def)
  qed
qed

lemma composed_draft_wf:
  assumes "composed env userID d" "uuid_ok (env_uuid env)"
  shows "draft_wf userID d"
  using assms
proof (induction rule: composed.induct)
  case (reload s i d)
  from GetDraft_Inr [OF reload(2)] obtain m where m: "i \<noteq> ''''" "msg_of (svc_store s) i = Some m" "isDraft m"
      "ownerID m = userID" "d = newSavedDraft m" .
  from inv_msgID [OF reload(1) m(2)] m show ?case by (simp add: draft_wf_def newSavedDraft_def)
next
  case (attach d now a d' e)
  then show ?case
    by (cases a) (auto simp: draft_AddAttachment_def Let_def message_AddAttachment_def draft_wf_def split: if_splits)
next
  case (reply d i s d' e)
  then have "draft_wf userID d" by simp
  moreover have "same_frame (d_message d) (d_message d')" "d_saved d' = d_saved d" "d_scheduleAt d' = d_scheduleAt d" "d_ttl d' = d_ttl d"
    using reply(2) by (auto simp: draft_ReplyTo_def Let_def same_frame_def split: if_splits res.splits)
  ultimately show ?case by (rule wf_frame)
next
  case (forward d now i s d' e)
  then have "draft_wf userID d" by simp
  moreover have "same_frame (d_message d) (d_message d')" "d_saved d' = d_saved d" "d_scheduleAt d' = d_scheduleAt d" "d_ttl d' = d_ttl d"
    using forward(2) addAttachments_frame [of "d_message d" now]
    by (auto simp: draft_Forward_def Let_def setter_defs same_frame_def split: if_splits res.splits)
  ultimately show ?case by (rule wf_frame)
next
  case (save d now s s' d' e)
  then have "draft_wf userID d" by simp
  from save(4,2) show ?case
  proof (cases rule: draft_Save_cases)
    case failed
    then show ?thesis using wf_frame [OF \<open>draft_wf userID d\<close>] by simp
  next
    case (saved i)
    then show ?thesis using \<open>draft_wf userID d\<close> by (simp add: draft_wf_def savedMessage_def)
  qed
qed (auto simp: draft_wf_def newDraft_def Store_NewDraft_def zeroMessage_def draft_SetRecipients_def draft_SetDeliverTo_def
      draft_SetSubject_def draft_SetBody_def draft_SetHeader_def draft_SetMetadata_def draft_SetTTL_def draft_SetScheduleAt_def
      draft_SetExternalID_def setter_defs Let_def)

section \<open>Properties\<close>


text \<open>
  C21: Saving a draft and loading it again returns what was saved, with its thread, reply, external identifier,
  schedule, content and attachments, except for two fields: the delivery targets, as documented, and the
  time-to-live, which \<open>Save\<close> is documented to keep. The reloaded draft has a time-to-live of zero, so sending it
  applies the default of the service instead.
\<close>

theorem draft_Save_reload:
  assumes "composed env userID d" "uuid_ok (env_uuid env)" "draft_Save env now userID d s = (s', d', None)"
  shows "\<exists>i. d' = d\<lparr>d_message := savedMessage now d i, d_saved := True\<rparr> \<and>
     mb_GetDraft userID i s' = Inr (d'\<lparr>d_ttl := 0, d_deliverTo := []\<rparr>)"
  using assms(2,3)
proof (cases rule: draft_Save_cases)
  case (saved i)
  have wf: "ownerID (d_message d) = userID" "availableAt (d_message d) = d_scheduleAt d"
    using composed_draft_wf [OF assms(1,2)] by (simp_all add: draft_wf_def)
  have "checkAccess userID s' = None" using saved(7,8) by (simp add: checkAccess_def IsConnected_def)
  then have "mb_GetDraft userID i s' = Inr (newSavedDraft (savedMessage now d i))"
    using saved wf by (intro GetDraft_loads) (simp_all add: savedMessage_def)
  also have "newSavedDraft (savedMessage now d i) = d'\<lparr>d_ttl := 0, d_deliverTo := []\<rparr>"
    using wf(2) by (simp add: saved(4) newSavedDraft_def savedMessage_def)
  finally show ?thesis using saved(4) by (intro exI conjI)
qed simp

definition ttlDraft :: draft where
  "ttlDraft = draft_SetTTL 5 3600000000000 (newDraft 5 ''bob'')"

lemma ttlDraft_composed: "composed demoEnv ''bob'' ttlDraft"
  unfolding ttlDraft_def by (intro composed.intros)

lemma demo_uuid_ok: "uuid_ok (env_uuid demoEnv)" by (simp add: demoEnv_def)


lemma ttlDraft_saves: "\<exists>s' d'. draft_Save demoEnv 7 ''bob'' ttlDraft (demoService demoStore) = (s', d', None)"
proof -
  have "let m = d_message ttlDraft; limits = getLimits (env_cfg demoEnv) in
    subject m = '''' \<and> body m = '''' \<and> ValidateHeaders (headers m) limits = None \<and>
    ValidateMetadataWithLimits (env_marshal demoEnv) (metadata m) limits = None \<and>
    ValidateAttachments (env_mapLower demoEnv) (attachments m) limits = None \<and> msgID m = ''''"
    by code_simp
  then show ?thesis
    by (simp add: draft_Save_def saveDraft_def demoBob Let_def setter_defs Store_SaveDraft_def newUUID_def)
qed

theorem draft_Save_reload_witness:
  "\<exists>s' d' i. draft_Save demoEnv 7 ''bob'' ttlDraft (demoService demoStore) = (s', d', None) \<and> d_ttl d' = 3600000000000 \<and>
     mb_GetDraft ''bob'' i s' = Inr (d'\<lparr>d_ttl := 0, d_deliverTo := []\<rparr>)"
proof -
  obtain s' d' where run: "draft_Save demoEnv 7 ''bob'' ttlDraft (demoService demoStore) = (s', d', None)"
    using ttlDraft_saves by (elim exE)
  obtain i where i: "d' = ttlDraft\<lparr>d_message := savedMessage 7 ttlDraft i, d_saved := True\<rparr>"
      "mb_GetDraft ''bob'' i s' = Inr (d'\<lparr>d_ttl := 0, d_deliverTo := []\<rparr>)"
    using draft_Save_reload [OF ttlDraft_composed demo_uuid_ok run] by (elim exE conjE)
  have "d_ttl d' = 3600000000000" by (simp add: i(1) ttlDraft_def draft_SetTTL_def)
  with run i(2) show ?thesis by (intro exI conjI)
qed

end
