(* ===== verification/Mailbox_Stream.thy ===== *)
theory Mailbox_Stream
  imports Mailbox_Query Mailbox_Trash
begin

text \<open>
  What the streaming iterators of \<open>iterator.go\<close> deliver. The loop over \<open>batchIterator\<close> relies on one law of
  its \<open>fetch\<close>: given the identifier of the last message delivered, it returns the next batch of a fixed list.
  The locale states that law, the lemmas on \<open>Next\<close> and \<open>Message\<close> are proved from it once, and the
  two iterators of the program interpret it.
\<close>

section \<open>The loop of a client\<close>

text \<open>The loop of the package documentation, with at most the given number of calls to \<open>Next\<close>:
  the messages processed, and whether \<open>Next\<close> reported the end.\<close>

primrec drain ::
    "'a fetch \<Rightarrow> string \<Rightarrow> nat \<Rightarrow> batchIterator \<Rightarrow> 'a service \<Rightarrow> message list \<times> bool" where
  "drain fetch userID 0 it s = ([], False)"
| "drain fetch userID (Suc n) it s =
    (case it_Next fetch userID it s of
       (it, Ok True) \<Rightarrow>
         (case it_Message it of
            Inr msg \<Rightarrow> (case drain fetch userID n it s of (msgs, e) \<Rightarrow> (msg # msgs, e))
          | Inl _ \<Rightarrow> ([], False))
     | (_, Ok False) \<Rightarrow> ([], True)
     | _ \<Rightarrow> ([], False))"

section \<open>Progress through the batches\<close>

text \<open>The iterator has delivered the first \<open>k\<close> messages of \<open>all\<close>.\<close>

definition it_at :: "message list \<Rightarrow> nat \<Rightarrow> batchIterator \<Rightarrow> nat \<Rightarrow> bool" where
  "it_at all b it k \<longleftrightarrow>
     it_batchSize it = int b \<and> \<not> it_done it \<and>
     (if it_fetched it
      then \<exists>p. p < k \<and> k \<le> p + length (it_batch it) \<and> p < length all \<and> it_batch it = take b (drop p all) \<and>
             it_batchIdx it = int (k - p) \<and> it_cursor it = msgID (last (it_batch it))
      else k = 0 \<and> it_batch it = [] \<and> it_batchIdx it = 0 \<and> it_cursor it = '''')"

lemma it_at_new: "0 < b \<Longrightarrow> it_at all b (newBatchIterator (int b)) 0"
  by (simp add: it_at_def newBatchIterator_def)

lemma it_at_fetched:
  assumes "it_at all b it k" "it_fetched it"
  obtains p where "p < k" "k \<le> p + length (it_batch it)" "p < length all" "it_batch it = take b (drop p all)"
    "it_batchIdx it = int (k - p)" "it_cursor it = msgID (last (it_batch it))"
  using assms unfolding it_at_def by (simp only: if_True) (elim exE conjE, rule that)

lemma it_at_start:
  assumes "it_at all b it k" "\<not> it_fetched it"
  shows "k = 0" "it_batch it = []" "it_batchIdx it = 0" "it_cursor it = ''''"
  using assms by (simp_all add: it_at_def)

lemma it_at_open: "it_at all b it k \<Longrightarrow> it_batchSize it = int b" "it_at all b it k \<Longrightarrow> \<not> it_done it"
  by (simp_all add: it_at_def)

lemma last_take_drop:
  "p < length all \<Longrightarrow> 0 < b \<Longrightarrow> last (take b (drop p all)) = all ! (p + length (take b (drop p all)) - 1)"
  by (simp add: last_conv_nth min_def)

locale batch_source =
  fixes fetch :: "'a fetch" and all :: "'a service \<Rightarrow> message list" and b :: nat
    and usable :: "'a service \<Rightarrow> bool"
  assumes batch_pos: "usable s \<Longrightarrow> 0 < b"
    and ids_nonempty: "usable s \<Longrightarrow> m \<in> set (all s) \<Longrightarrow> msgID m \<noteq> ''''"
    and fetch_page: "usable s \<Longrightarrow> at_position (all s) p cursor \<Longrightarrow> p \<le> length (all s) \<Longrightarrow>
      fetch cursor s = Ok (take b (drop p (all s)))"
    and fetch_lost: "usable s \<Longrightarrow> cursor \<noteq> '''' \<Longrightarrow> cursor \<notin> msgID ` set (all s) \<Longrightarrow> fetch cursor s = Ok []"
begin

lemma cursor_at:
  assumes "usable s" "p < length (all s)" "batch = take b (drop p (all s))"
  shows "at_position (all s) (p + length batch) (msgID (last batch))"
proof -
  have "0 < length batch" "p + length batch \<le> length (all s)"
    using assms batch_pos [OF assms(1)] by simp_all
  moreover have "msgID (all s ! (p + length batch - 1)) \<noteq> ''''"
    using calculation by (intro ids_nonempty [OF assms(1)] nth_mem) linarith
  ultimately show ?thesis
    using last_take_drop [OF assms(2) batch_pos [OF assms(1)]] assms(3) by (simp add: at_position_def)
qed

lemma Next_more:
  assumes "usable s" "checkAccess userID s = None" "it_at (all s) b it k" "k < length (all s)"
  obtains it' where "it_Next fetch userID it s = (it', Ok True)" "it_at (all s) b it' (Suc k)"
    "it_Message it' = Inr (all s ! k)"
proof -
  note b = batch_pos [OF assms(1)]
  show thesis
  proof (cases "it_fetched it \<and> it_batchIdx it < len (it_batch it)")
    case True
    obtain p where p: "p < k" "p < length (all s)" "it_batch it = take b (drop p (all s))"
        "it_batchIdx it = int (k - p)" "it_cursor it = msgID (last (it_batch it))"
      using it_at_fetched [OF assms(3)] True by metis
    have k: "k < p + length (it_batch it)" using True p(1,4) by linarith
    let ?it = "it\<lparr>it_batchIdx := it_batchIdx it + 1\<rparr>"
    have "it_Next fetch userID it s = (?it, Ok True)"
      using True assms(2) it_at_open [OF assms(3)] by (simp add: it_Next_def)
    moreover have "it_at (all s) b ?it (Suc k)"
      unfolding it_at_def using p k True it_at_open [OF assms(3)]
      by simp (rule exI [of _ p], simp add: Suc_diff_le)
    moreover have "it_Message ?it = Inr (all s ! k)"
    proof -
      have "it_Message ?it = Inr (it_batch it ! (k - p))"
        using p(1,4) k by (simp add: it_Message_def nat_diff_distrib)
      also have "it_batch it ! (k - p) = all s ! k" using p(1,2,3) k by simp
      finally show ?thesis .
    qed
    ultimately show thesis by (rule that)
  next
    case False
    have at: "at_position (all s) k (it_cursor it)"
    proof (cases "it_fetched it")
      case True
      then obtain p where p: "p < k" "k \<le> p + length (it_batch it)" "p < length (all s)"
          "it_batch it = take b (drop p (all s))" "it_batchIdx it = int (k - p)" "it_cursor it = msgID (last (it_batch it))"
        using it_at_fetched [OF assms(3)] by metis
      then have "k = p + length (it_batch it)" using True False by linarith
      then show ?thesis using cursor_at [OF assms(1) p(3,4)] p(6) by simp
    next
      case nf: False
      then show ?thesis using it_at_start [OF assms(3)] by (simp add: at_position_def)
    qed
    have idx: "it_batchIdx it \<ge> len (it_batch it)" "\<not> it_done it" "it_batchSize it = int b"
      using False it_at_open [OF assms(3)] it_at_start [OF assms(3)] by (cases "it_fetched it"; simp)+
    have full: "\<not> (it_fetched it \<and> len (it_batch it) < it_batchSize it)"
    proof
      assume f: "it_fetched it \<and> len (it_batch it) < it_batchSize it"
      then obtain p where p: "p < k" "p < length (all s)" "it_batch it = take b (drop p (all s))" "it_batchIdx it = int (k - p)"
        using it_at_fetched [OF assms(3)] by metis
      have "length (it_batch it) < b" using f idx(3) by simp
      then have "length (it_batch it) = length (all s) - p" by (simp add: p(3))
      then show False using idx(1) p(1,2,4) assms(4) by linarith
    qed
    let ?msgs = "take b (drop k (all s))"
    have ne: "?msgs \<noteq> []" using b assms(4) by simp
    let ?it = "it\<lparr>it_batch := ?msgs, it_batchIdx := 1, it_fetched := True, it_cursor := msgID (last ?msgs)\<rparr>"
    have "it_Next fetch userID it s = (?it, Ok True)"
      using idx full assms(2) fetch_page [OF assms(1) at] assms(4) ne by (simp add: it_Next_def)
    moreover have "it_at (all s) b ?it (Suc k)"
      unfolding it_at_def using idx(2,3) assms(4) b by simp (rule exI [of _ k], simp)
    moreover have "it_Message ?it = Inr (all s ! k)" using assms(4) b ne by (simp add: it_Message_def)
    ultimately show thesis by (rule that)
  qed
qed

lemma Next_end:
  assumes "usable s" "checkAccess userID s = None" "it_at (all s) b it (length (all s))"
  shows "\<exists>it'. it_Next fetch userID it s = (it', Ok False) \<and> it_done it'"
proof (cases "it_fetched it")
  case False
  note st = it_at_start [OF assms(3) False]
  have "fetch '''' s = Ok []"
    using fetch_page [OF assms(1), of 0 "''''"] st(1) by (simp add: at_position_def)
  then show ?thesis using st False it_at_open [OF assms(3)] assms(2) by (simp add: it_Next_def)
next
  case True
  obtain p where p: "length (all s) \<le> p + length (it_batch it)" "p < length (all s)" "it_batch it = take b (drop p (all s))"
      "it_batchIdx it = int (length (all s) - p)" "it_cursor it = msgID (last (it_batch it))"
    using it_at_fetched [OF assms(3) True] by metis
  have "length (it_batch it) \<le> length (all s) - p" unfolding p(3) by simp
  then have n: "p + length (it_batch it) = length (all s)" using p(1,2) by linarith
  then have "it_batchIdx it = len (it_batch it)" using p(4) by simp
  moreover have "fetch (it_cursor it) s = Ok []"
    using fetch_page [OF assms(1) cursor_at [OF assms(1) p(2,3)]] n p(5) by simp
  ultimately show ?thesis using it_at_open [OF assms(3)] assms(2) by (simp add: it_Next_def)
qed

lemma Next_lost:
  assumes "usable s" "checkAccess userID s = None" "\<not> it_done it" "it_batchIdx it \<ge> len (it_batch it)"
    and "it_cursor it \<noteq> ''''" "it_cursor it \<notin> msgID ` set (all s)"
  shows "\<exists>it'. it_Next fetch userID it s = (it', Ok False) \<and> it_done it'"
  using assms fetch_lost [OF assms(1,5,6)] by (simp add: it_Next_def)

lemma drain_from:
  assumes "usable s" "checkAccess userID s = None" "it_at (all s) b it k" "k \<le> length (all s)"
    and "n > length (all s) - k"
  shows "drain fetch userID n it s = (drop k (all s), True)"
  using assms(3-5)
proof (induction n arbitrary: it k)
  case (Suc n)
  show ?case
  proof (cases "k = length (all s)")
    case True
    with Next_end [OF assms(1,2)] Suc.prems(1) obtain it' where "it_Next fetch userID it s = (it', Ok False)" by blast
    then show ?thesis using True by simp
  next
    case False
    with Suc.prems have k: "k < length (all s)" by simp
    obtain it' where it: "it_Next fetch userID it s = (it', Ok True)" "it_at (all s) b it' (Suc k)"
        "it_Message it' = Inr (all s ! k)"
      using Next_more [OF assms(1,2) Suc.prems(1) k] .
    have "drain fetch userID n it' s = (drop (Suc k) (all s), True)"
      using Suc.IH [OF it(2)] Suc.prems k by simp
    then show ?thesis using it k by (simp add: Cons_nth_drop_Suc)
  qed
qed simp

lemma drain_all:
  assumes "usable s" "checkAccess userID s = None" "n > length (all s)"
  shows "drain fetch userID n (newBatchIterator (int b)) s = (all s, True)"
  using drain_from [OF assms(1,2) it_at_new [OF batch_pos [OF assms(1)]]] assms(3) by simp

end

section \<open>The two iterators\<close>

definition queryable :: "nat \<Rightarrow> 'a service \<Rightarrow> bool" where
  "queryable b s \<longleftrightarrow> 0 < b \<and> store_inv (svc_store s) \<and> connected (svc_store s) \<and>
     int (length (messages (svc_store s))) + int b < 2 ^ 63"

definition streamed :: "time \<Rightarrow> Filter list \<Rightarrow> 'a service \<Rightarrow> message list" where
  "streamed now filters s = found now filters (streamOptions 1 '''') (svc_store s)"

definition searched :: "'a env \<Rightarrow> time \<Rightarrow> SearchQuery \<Rightarrow> 'a service \<Rightarrow> message list" where
  "searched env now q s =
     sortMessages (filter (searchMatch (env_mapLower env) now q) (map snd (messages (svc_store s))))
       (SortBy (sq_Options q)) (Order (sq_Options q))"

lemma paginate_lost:
  assumes "StartAfter opts \<noteq> ''''" "StartAfter opts \<notin> msgID ` set all"
  shows "paginate all opts = Ok \<lparr>ml_Messages = [], ml_Total = int (length all), ml_HasMore = False, ml_NextCursor = ''''\<rparr>"
proof -
  have "find_index (\<lambda>m. msgID m = StartAfter opts) all = None"
    using assms(2) unfolding find_index_None by (metis imageI)
  then show ?thesis using assms(1) by (simp add: paginate_def)
qed

lemma streamed_found: "found now filters (streamOptions b c) (svc_store s) = streamed now filters s"
  by (simp add: streamed_def found_def streamOptions_def)

lemma messageFetch_eq:
  assumes "connected (svc_store s)"
  shows "messageFetch now filters b cursor s =
    (case paginate (streamed now filters s) (streamOptions b cursor) of
       Err e \<Rightarrow> Err (StoreErr e) | Panic \<Rightarrow> Panic | Ok list \<Rightarrow> Ok (ml_Messages list))"
  by (simp only: messageFetch_def Find_eq [OF assms] streamed_found)

lemma searchFetch_eq:
  assumes "connected (svc_store s)"
  shows "searchFetch env now q cursor s =
    (case paginate (searched env now q s) ((sq_Options q)\<lparr>StartAfter := cursor\<rparr>) of
       Err e \<Rightarrow> Err (StoreErr e) | Panic \<Rightarrow> Panic | Ok list \<Rightarrow> Ok (ml_Messages list))"
proof -
  have "searchMatch (env_mapLower env) now (q\<lparr>sq_Options := x\<rparr>) = searchMatch (env_mapLower env) now q" for x
    by (rule ext) (simp add: searchMatch_def)
  then show ?thesis using assms by (simp add: searchFetch_def Store_Search_def searched_def)
qed

lemma stored_id:
  assumes "store_inv st" "m \<in> set (map snd (messages st))"
  shows "msgID m \<noteq> ''''"
proof -
  obtain k where "(k, m) \<in> set (messages st)" using assms(2) by auto
  then have "entry_ok k m" using assms(1) unfolding store_inv_def list_all_iff by blast
  then show ?thesis by (simp add: entry_ok_def)
qed

lemma distinct_stored:
  assumes "store_inv st"
  shows "distinct (map msgID (sortMessages (filter P (map snd (messages st))) key order))"
proof -
  have "distinct (map msgID (map snd (messages st)))"
    unfolding ids_messages [OF assms] by (rule store_invD(1) [OF assms])
  then have "distinct (map msgID (filter P (map snd (messages st))))" by (rule distinct_map_filter)
  then show ?thesis by (simp only: distinct_ids_sortMessages)
qed

lemma streamed_props:
  assumes "store_inv (svc_store s)"
  shows "distinct (map msgID (streamed now filters s))" "m \<in> set (streamed now filters s) \<Longrightarrow> msgID m \<noteq> ''''"
    "length (streamed now filters s) \<le> length (messages (svc_store s))"
proof -
  show "distinct (map msgID (streamed now filters s))"
    unfolding streamed_def found_def by (rule distinct_stored [OF assms])
  show "msgID m \<noteq> ''''" if "m \<in> set (streamed now filters s)"
    using that stored_id [OF assms] unfolding streamed_def found_def set_sortMessages set_filter by blast
  show "length (streamed now filters s) \<le> length (messages (svc_store s))"
    unfolding streamed_def by (rule length_found_le)
qed

lemma searched_props:
  assumes "store_inv (svc_store s)"
  shows "distinct (map msgID (searched env now q s))" "m \<in> set (searched env now q s) \<Longrightarrow> msgID m \<noteq> ''''"
    "length (searched env now q s) \<le> length (messages (svc_store s))"
proof -
  show "distinct (map msgID (searched env now q s))"
    unfolding searched_def by (rule distinct_stored [OF assms])
  show "msgID m \<noteq> ''''" if "m \<in> set (searched env now q s)"
    using that stored_id [OF assms] unfolding searched_def set_sortMessages set_filter by blast
  show "length (searched env now q s) \<le> length (messages (svc_store s))"
    unfolding searched_def length_sortMessages by (rule order_trans [OF length_filter_le]) simp
qed

interpretation messageStream: batch_source "messageFetch now filters (int b)" "streamed now filters" b "queryable b"
  for now filters b
proof
  fix s :: "'a service" and p :: nat and cursor :: string and m :: message
  assume q: "queryable b s"
  then have inv: "store_inv (svc_store s)" "connected (svc_store s)" by (simp_all add: queryable_def)
  show "0 < b" using q by (simp add: queryable_def)
  show "msgID m \<noteq> ''''" if "m \<in> set (streamed now filters s)" by (rule streamed_props(2) [OF inv(1) that])
  show "messageFetch now filters (int b) cursor s = Ok (take b (drop p (streamed now filters s)))"
    if "at_position (streamed now filters s) p cursor" "p \<le> length (streamed now filters s)"
  proof -
    have "int (length (streamed now filters s)) + int b < 2 ^ 63"
      using q streamed_props(3) [OF inv(1), of now filters] unfolding queryable_def by linarith
    then show ?thesis
      using paginate_page [OF streamed_props(1) [OF inv(1), of now filters], of p "streamOptions (int b) cursor"] that q
      by (simp add: messageFetch_eq [OF inv(2)] streamOptions_def queryable_def)
  qed
  show "messageFetch now filters (int b) cursor s = Ok []"
    if "cursor \<noteq> ''''" "cursor \<notin> msgID ` set (streamed now filters s)"
    using paginate_lost [of "streamOptions (int b) cursor" "streamed now filters s"] that
    by (simp add: messageFetch_eq [OF inv(2)] streamOptions_def)
qed

interpretation searchStream: batch_source "searchFetch env now q" "searched env now q" b
    "\<lambda>s. queryable b s \<and> Limit (sq_Options q) = int b"
  for env now q b
proof
  fix s :: "'a service" and p :: nat and cursor :: string and m :: message
  assume q: "queryable b s \<and> Limit (sq_Options q) = int b"
  then have inv: "store_inv (svc_store s)" "connected (svc_store s)" by (simp_all add: queryable_def)
  show "0 < b" using q by (simp add: queryable_def)
  show "msgID m \<noteq> ''''" if "m \<in> set (searched env now q s)" by (rule searched_props(2) [OF inv(1) that])
  show "searchFetch env now q cursor s = Ok (take b (drop p (searched env now q s)))"
    if "at_position (searched env now q s) p cursor" "p \<le> length (searched env now q s)"
  proof -
    have "int (length (searched env now q s)) + int b < 2 ^ 63"
      using q searched_props(3) [OF inv(1), of env now q] unfolding queryable_def by linarith
    then show ?thesis
      using paginate_page [OF searched_props(1) [OF inv(1), of env now q], of p "(sq_Options q)\<lparr>StartAfter := cursor\<rparr>"] that q
      by (simp add: searchFetch_eq [OF inv(2)] queryable_def)
  qed
  show "searchFetch env now q cursor s = Ok []"
    if "cursor \<noteq> ''''" "cursor \<notin> msgID ` set (searched env now q s)"
    using paginate_lost [of "(sq_Options q)\<lparr>StartAfter := cursor\<rparr>" "searched env now q s"] that
    by (simp add: searchFetch_eq [OF inv(2)])
qed

lemma sortMessages_newest: "sorted (rev (map createdAt (sortMessages msgs ''created_at'' SortDesc)))"
proof -
  have "sorted_wrt (\<lambda>a b. \<not> shouldSwap ''created_at'' SortDesc a b) (sortMessages msgs ''created_at'' SortDesc)"
    using by_key.sortLoops_sorted [of "''created_at''" SortDesc msgs] by (simp add: sortMessages_def)
  then show ?thesis by (simp add: shouldSwap_def sorted_wrt_map sorted_wrt_rev not_less)
qed

lemma streamed_set:
  assumes "store_inv (svc_store s)"
  shows "set (streamed now filters s) = {m. msg_of (svc_store s) (msgID m) = Some m \<and> matching now filters m}"
  using set_found [OF assms] by (simp add: streamed_def set_eq_iff)

section \<open>Properties\<close>

text \<open>
  C7: Streaming a mailbox terminates and is complete. On a store that does not change, the loop over the
  iterator of \<open>Stream\<close> sees \<open>Next\<close> report the end without an error after at most one call more than there are
  messages, whatever the batch size. The messages it processed are exactly those of the user that are not
  drafts, not scheduled for later, not in the trash and match the filters, each once, newest first.
\<close>

theorem Stream_complete:
  assumes "store_inv (svc_store s)" "connected (svc_store s)" "checkAccess userID s = None"
    and "int (length (messages (svc_store s))) + streamBatchSize batch < 2 ^ 63"
    and "calls > length (messages (svc_store s))"
  shows "\<exists>fetch it msgs. mb_Stream now userID filters batch s = Inr (fetch, it) \<and>
     drain fetch userID calls it s = (msgs, True) \<and> distinct (map msgID msgs) \<and>
     set msgs = {m. msg_of (svc_store s) (msgID m) = Some m \<and> \<not> isDraft m \<and> isAvailableNow now m \<and>
       ownerID m = userID \<and> folderID m \<noteq> FolderTrash \<and> matchesFilters m filters} \<and>
     sorted (rev (map createdAt msgs))"
proof -
  let ?b = "nat (streamBatchSize batch)" and ?fs = "[OwnerIs userID, NotDeleted] @ filters"
  have b: "int ?b = streamBatchSize batch" by (simp add: streamBatchSize_def)
  have q: "queryable ?b s" using assms b by (simp add: queryable_def streamBatchSize_def)
  have "length (streamed now ?fs s) < calls" using streamed_props(3) [OF assms(1), of now ?fs] assms(5) by linarith
  from messageStream.drain_all [OF q assms(3) this]
  have run: "drain (messageFetch now ?fs (streamBatchSize batch)) userID calls (newBatchIterator (streamBatchSize batch)) s =
      (streamed now ?fs s, True)" unfolding b .
  have start: "mb_Stream now userID filters batch s =
      Inr (messageFetch now ?fs (streamBatchSize batch), newBatchIterator (streamBatchSize batch))"
    using assms(3) by (simp add: mb_Stream_def newMessageIterator_def Let_def)
  have "matching now ?fs m \<longleftrightarrow> \<not> isDraft m \<and> isAvailableNow now m \<and> ownerID m = userID \<and>
      folderID m \<noteq> FolderTrash \<and> matchesFilters m filters" for m
    by (simp add: matching_def)
  then have "set (streamed now ?fs s) = {m. msg_of (svc_store s) (msgID m) = Some m \<and> \<not> isDraft m \<and> isAvailableNow now m \<and>
       ownerID m = userID \<and> folderID m \<noteq> FolderTrash \<and> matchesFilters m filters}"
    unfolding streamed_set [OF assms(1)] by simp
  moreover have "sorted (rev (map createdAt (streamed now ?fs s)))"
    using sortMessages_newest by (simp add: streamed_def found_def streamOptions_def)
  ultimately show ?thesis
    using start run streamed_props(1) [OF assms(1)] by (intro exI conjI)
qed

text \<open>
  C23: Deleting the messages of a stream as they are processed cuts it short. Once the last message of a batch
  has been processed by a successful \<open>Delete\<close>, the next call of \<open>Next\<close> reports the end of the stream and no
  error, however many matching messages the mailbox still has: the cursor is the identifier of a message that
  the query no longer returns. The usage example of the package invites this loop.
\<close>

theorem Stream_ends_after_Delete:
  assumes "store_inv (svc_store s)" "checkAccess userID s = None"
    and "0 < batch" "int (length (messages (svc_store s))) + batch < 2 ^ 63"
    and "\<not> it_done it" "it_batchIdx it = len (it_batch it)" "it_cursor it = msgID msg" "in_mailbox userID (msgID msg) s msg"
    and "folderID msg \<noteq> FolderTrash" "mb_Delete env now' userID (msgID msg) s = (s', e)"
  shows "\<exists>it'. it_Next (messageFetch now ([OwnerIs userID, NotDeleted] @ filters) batch) userID it s' = (it', Ok False) \<and>
     it_done it'"
proof -
  let ?fs = "[OwnerIs userID, NotDeleted] @ filters" and ?i = "msgID msg"
  have st: "svc_store s' = (svc_store s)\<lparr>messages := AList.update ?i (msg\<lparr>folderID := FolderTrash, updatedAt := now'\<rparr>)
      (messages (svc_store s))\<rparr>"
    using Delete_stored(2) [OF assms(2,8,9), of env now'] assms(10) by simp
  have acc: "checkAccess userID s' = None" using deleteOp.op_access [of userID env now' userID ?i s] assms(2,10) by simp
  have "entry_ok ?i msg" using store_invD(3) [OF assms(1)] assms(8) by (simp add: in_mailbox_def)
  then have "entry_ok ?i (msg\<lparr>folderID := FolderTrash, updatedAt := now'\<rparr>)"
    by (simp add: entry_ok_def read_consistent_def)
  with assms(1) have ok: "store_inv (svc_store s')" unfolding st by (rule inv_put)
  have n: "length (messages (svc_store s')) = length (messages (svc_store s))"
  proof -
    have "?i \<in> set (keys (messages (svc_store s)))"
      using map_of_SomeD [of "messages (svc_store s)" ?i msg] assms(8) unfolding in_mailbox_def set_map
      by (intro image_eqI [of _ _ "(?i, msg)"]) simp_all
    then have "length (AList.update ?i v (messages (svc_store s))) = length (messages (svc_store s))" for v
      using arg_cong [OF update_keys [of ?i v "messages (svc_store s)"], of length] by simp
    then show ?thesis by (simp add: st)
  qed
  have "connected (svc_store s')" using assms(8) unfolding in_mailbox_def st by simp
  then have q: "queryable (nat batch) s'"
    unfolding queryable_def n using ok assms(3,4) by simp
  have "?i \<notin> msgID ` set (streamed now ?fs s')"
  proof
    assume "?i \<in> msgID ` set (streamed now ?fs s')"
    then obtain m where m: "m \<in> set (streamed now ?fs s')" "msgID m = ?i" by (elim imageE) simp
    then have "msg_of (svc_store s') ?i = Some m" "folderID m \<noteq> FolderTrash"
      unfolding streamed_set [OF ok] mem_Collect_eq matching_def matchesFilters_iff by simp_all
    moreover from this(1) have "m = msg\<lparr>folderID := FolderTrash, updatedAt := now'\<rparr>" by (simp add: st)
    ultimately show False by simp
  qed
  moreover have "?i \<noteq> ''''" using assms(8) by (simp add: in_mailbox_def)
  ultimately show ?thesis
    using messageStream.Next_lost [OF q acc assms(5), of now ?fs] assms(3,6,7) by simp
qed

theorem Stream_complete_witness:
  "\<exists>fetch it msgs. mb_Stream 200 ''bob'' [] 1 (demoService demoFull) = Inr (fetch, it) \<and>
     drain fetch ''bob'' 5 it (demoService demoFull) = (msgs, True) \<and>
     (demoMail ''m2'' ''bob'')\<lparr>expiresAt := Some 150\<rparr> \<in> set msgs"
proof -
  let ?m = "(demoMail ''m2'' ''bob'')\<lparr>expiresAt := Some 150\<rparr>"
  have m: "msg_of demoFull (msgID ?m) = Some ?m" by code_simp
  have f: "\<not> isDraft ?m" "isAvailableNow 200 ?m" "ownerID ?m = ''bob''" "folderID ?m \<noteq> FolderTrash" "matchesFilters ?m []"
    by code_simp+
  have h: "store_inv (svc_store (demoService demoFull))" "connected (svc_store (demoService demoFull))"
    "int (length (messages (svc_store (demoService demoFull)))) + streamBatchSize 1 < 2 ^ 63"
    "length (messages (svc_store (demoService demoFull))) < 5"
    by (simp_all add: demoBob(2) demoFull_length streamBatchSize_def)
  obtain fetch it msgs where run: "mb_Stream 200 ''bob'' [] 1 (demoService demoFull) = Inr (fetch, it)"
      "drain fetch ''bob'' 5 it (demoService demoFull) = (msgs, True)"
      "set msgs = {m. msg_of (svc_store (demoService demoFull)) (msgID m) = Some m \<and> \<not> isDraft m \<and> isAvailableNow 200 m \<and>
         ownerID m = ''bob'' \<and> folderID m \<noteq> FolderTrash \<and> matchesFilters m []}"
    using Stream_complete [OF h(1,2) demoBob(1) h(3,4), of 200 "[]"] by (elim exE conjE) (rule that)
  have "?m \<in> set msgs"
    unfolding run(3) demoBob(2) mem_Collect_eq using m f by (intro conjI)
  with run(1,2) show ?thesis by (intro exI conjI)
qed

definition streamStore :: Store where
  "streamStore = demoStore\<lparr>messages := [(''m1'', demoMail ''m1'' ''bob''), (''m2'', demoMail ''m2'' ''bob''),
     (''m3'', demoMail ''m3'' ''bob'')]\<rparr>"

theorem Stream_ends_after_Delete_witness:
  "\<exists>it it'. fst (it_Next (messageFetch 200 [OwnerIs ''bob'', NotDeleted] 1) ''bob'' (newBatchIterator 1) (demoService streamStore)) = it \<and>
     it_Message it = Inr (demoMail ''m1'' ''bob'') \<and>
     it_Next (messageFetch 200 [OwnerIs ''bob'', NotDeleted] 1) ''bob'' it
       (fst (mb_Delete demoEnv 130 ''bob'' ''m1'' (demoService streamStore))) = (it', Ok False) \<and>
     length (streamed 200 [OwnerIs ''bob'', NotDeleted]
       (fst (mb_Delete demoEnv 130 ''bob'' ''m1'' (demoService streamStore)))) = 2"
proof -
  let ?s = "demoService streamStore" and ?m = "demoMail ''m1'' ''bob''" and ?fs = "[OwnerIs ''bob'', NotDeleted]"
  let ?f = "messageFetch 200 ?fs 1 :: demo_atts fetch"
  let ?it = "\<lparr>it_batchSize = 1, it_batch = [?m], it_batchIdx = 1, it_done = False, it_fetched = True, it_cursor = ''m1''\<rparr>"
  have fetch: "?f '''' ?s = Ok [?m]" unfolding messageFetch_def demoBob(2) by code_simp
  have id: "msgID ?m = ''m1''" by code_simp
  have nxt: "it_Next ?f ''bob'' (newBatchIterator 1) ?s = (?it, Ok True)"
    using fetch by (simp add: it_Next_def newBatchIterator_def demoBob(1) id)
  have msg: "it_Message ?it = Inr ?m" by (simp add: it_Message_def)
  have own: "in_mailbox ''bob'' ''m1'' ?s ?m"
    unfolding in_mailbox_def demoBob(2) by code_simp
  have trash: "folderID ?m \<noteq> FolderTrash" by code_simp
  have "\<exists>it'. it_Next ?f ''bob'' ?it (fst (mb_Delete demoEnv 130 ''bob'' ''m1'' ?s)) = (it', Ok False)"
  proof -
    have inv: "store_inv streamStore" "connected streamStore" by code_simp+
    have len: "length (messages streamStore) = 3" by code_simp
    obtain s' e where del: "mb_Delete demoEnv 130 ''bob'' ''m1'' ?s = (s', e)" by (rule prod.exhaust)
    have own': "in_mailbox ''bob'' (msgID ?m) ?s ?m" and del': "mb_Delete demoEnv 130 ''bob'' (msgID ?m) ?s = (s', e)"
      using own del by (simp_all only: id)
    have "\<exists>it'. it_Next (messageFetch 200 (?fs @ []) 1) ''bob'' ?it s' = (it', Ok False) \<and> it_done it'"
      by (rule Stream_ends_after_Delete [OF _ demoBob(1) _ _ _ _ _ own' trash del'])
        (simp_all add: demoBob(2) inv len id)
    then show ?thesis by (simp add: del) (elim exE conjE, rule exI)
  qed
  moreover have "length (streamed 200 ?fs (fst (mb_Delete demoEnv 130 ''bob'' ''m1'' ?s))) = 2"
    unfolding streamed_def length_found Delete_stored(2) [OF demoBob(1) own trash] demoBob(2) by code_simp
  ultimately obtain it' where stop: "it_Next ?f ''bob'' ?it (fst (mb_Delete demoEnv 130 ''bob'' ''m1'' ?s)) = (it', Ok False)"
    and two: "length (streamed 200 ?fs (fst (mb_Delete demoEnv 130 ''bob'' ''m1'' ?s))) = 2" by (elim exE)
  show ?thesis
    by (rule exI [of _ ?it], rule exI [of _ it'], unfold nxt fst_conv) (intro conjI msg stop two, simp)
qed

end
