(* ===== verification/Mailbox_Cleanup.thy ===== *)
theory Mailbox_Cleanup
  imports Mailbox_Stream
begin

text \<open>
  The cleanup of old messages (\<open>cleanup.go\<close>). With an attachment manager the service cannot delete in bulk:
  it scans the expired messages page by page to learn their attachments, deletes by identifier and
  releases the references of the messages it deleted. The scan is a loop over a cursor, a partial function here; the lemmas
  show that it returns and visits every expired message once, and that the careful path leaves the same store
  as the bulk operation. \<open>ctxErr k n\<close> is what \<open>ctx.Err()\<close> returns at the \<open>n\<close>th check of phase \<open>k\<close>.
\<close>

section \<open>Scanning\<close>

record CleanupResult =
  cr_DeletedCount :: int
  cr_Interrupted :: bool

definition zeroResult :: CleanupResult where "zeroResult = \<lparr>cr_DeletedCount = 0, cr_Interrupted = False\<rparr>"

definition scanBatchSize :: int where "scanBatchSize = 100"

definition scanOptions :: "string \<Rightarrow> ListOptions" where
  "scanOptions cursor = \<lparr>Limit = scanBatchSize, Offset = 0, SortBy = '''', Order = 0, StartAfter = cursor\<rparr>"

definition collectAttachments :: "(string \<times> string list) list \<Rightarrow> message \<Rightarrow> (string \<times> string list) list" where
  "collectAttachments atts msg =
    (let ids = attachmentIDs msg in if len ids > 0 then AList.update (msgID msg) ids atts else atts)"

text \<open>The result: the attachments by message, the identifiers seen, whether the context ended the scan, the error.\<close>

type_synonym scan = "(string \<times> string list) list \<times> string list \<times> bool \<times> error option"

partial_function (option) scanLoop ::
    "(nat \<Rightarrow> error option) \<Rightarrow> time \<Rightarrow> Filter list \<Rightarrow> Store \<Rightarrow> nat \<Rightarrow> string \<Rightarrow> (string \<times> string list) list \<Rightarrow> string list \<Rightarrow>
     scan option" where
  "scanLoop ctxErr now filters st n cursor messageAttachments scannedIDs =
    (case ctxErr n of
       Some e \<Rightarrow> Some (messageAttachments, scannedIDs, True, Some e)
     | None \<Rightarrow>
         (case Store_Find now filters (scanOptions cursor) st of
            Err e \<Rightarrow> Some (messageAttachments, scannedIDs, False, Some (Wrapf (StoreErr e)))
          | Panic \<Rightarrow> Some (messageAttachments, scannedIDs, False, Some (ExternalError 0))
          | Ok list \<Rightarrow>
              (if \<not> ml_HasMore list \<or> ml_Messages list = []
               then Some (foldl collectAttachments messageAttachments (ml_Messages list),
                          scannedIDs @ map msgID (ml_Messages list), False, None)
               else scanLoop ctxErr now filters st (n + 1) (msgID (last (ml_Messages list)))
                      (foldl collectAttachments messageAttachments (ml_Messages list))
                      (scannedIDs @ map msgID (ml_Messages list)))))"

definition scanExpiredMessages ::
    "(nat \<Rightarrow> error option) \<Rightarrow> time \<Rightarrow> Filter list \<Rightarrow> string \<Rightarrow> time \<Rightarrow> Store \<Rightarrow> scan option" where
  "scanExpiredMessages ctxErr now baseFilters timeField cutoff st =
    (case FilterBuilder_build (MessageFilter timeField) ''lt'' (ATime cutoff) of
       Ok timeFilter \<Rightarrow> scanLoop ctxErr now (baseFilters @ [timeFilter]) st 0 '''' [] []
     | _ \<Rightarrow> Some ([], [], False, Some (ExternalError 0)))"

definition svc_releaseAttachmentRefs ::
    "'a AttachmentManager \<Rightarrow> string list \<Rightarrow> (string \<times> string list) list \<Rightarrow> 'a \<Rightarrow> 'a" where
  "svc_releaseAttachmentRefs am deletedIDs messageAttachments a =
    foldl (\<lambda>a i. case map_of messageAttachments i of
       None \<Rightarrow> a | Some attIDs \<Rightarrow> fst (releaseAll am attIDs [] a)) a deletedIDs"

section \<open>Deleting\<close>

text \<open>The two steps after a scan, the same in the three cleanups: delete by identifier, then release.\<close>

definition deleteScanned ::
    "'a AttachmentManager \<Rightarrow> (string \<times> string list) list \<Rightarrow> string list \<Rightarrow> 'a service \<Rightarrow> 'a service \<times> (error + int)" where
  "deleteScanned am messageAttachments scannedIDs s =
    (case Store_DeleteMessagesByIDs scannedIDs (svc_store s) of
       (st, Err e) \<Rightarrow> (s\<lparr>svc_store := st\<rparr>, Inl (Wrapf (StoreErr e)))
     | (st, Panic) \<Rightarrow> (s\<lparr>svc_store := st\<rparr>, Inl (ExternalError 0))
     | (st, Ok deletedIDs) \<Rightarrow>
         (s\<lparr>svc_store := st, svc_atts := svc_releaseAttachmentRefs am deletedIDs messageAttachments (svc_atts s)\<rparr>,
          Inr (len deletedIDs)))"

definition cleanupTrashWithAttachments ::
    "'a AttachmentManager \<Rightarrow> (nat \<Rightarrow> error option) \<Rightarrow> time \<Rightarrow> time \<Rightarrow> 'a service \<Rightarrow>
     ('a service \<times> CleanupResult \<times> error option) option" where
  "cleanupTrashWithAttachments am ctxErr now cutoff s =
    (case scanExpiredMessages ctxErr now [InFolder FolderTrash] ''UpdatedAt'' cutoff (svc_store s) of
       None \<Rightarrow> None
     | Some (_, _, interrupted, Some e) \<Rightarrow> Some (s, zeroResult\<lparr>cr_Interrupted := interrupted\<rparr>, Some e)
     | Some (atts, ids, _, None) \<Rightarrow>
         (case deleteScanned am atts ids s of
            (s, Inl e) \<Rightarrow> Some (s, zeroResult, Some e)
          | (s, Inr n) \<Rightarrow> Some (s, zeroResult\<lparr>cr_DeletedCount := n\<rparr>, None)))"

definition CleanupTrash ::
    "'a env \<Rightarrow> (nat \<Rightarrow> error option) \<Rightarrow> time \<Rightarrow> 'a service \<Rightarrow>
     ('a service \<times> CleanupResult option \<times> error option) option" where
  "CleanupTrash env ctxErr now s =
    (if svc_state s \<noteq> stateConnected then Some (s, None, Some (Sentinel MErrNotConnected))
     else
       let cutoff = now - TrashRetention (env_cfg env) in
       (case env_attachments env of
          Some am \<Rightarrow> map_option (\<lambda>(s, r, e). (s, Some r, e)) (cleanupTrashWithAttachments am ctxErr now cutoff s)
        | None \<Rightarrow>
            (case Store_DeleteExpiredTrash cutoff (svc_store s) of
               (st, Ok deleted) \<Rightarrow> Some (s\<lparr>svc_store := st\<rparr>, Some (zeroResult\<lparr>cr_DeletedCount := deleted\<rparr>), None)
             | (st, Err e) \<Rightarrow> Some (s\<lparr>svc_store := st\<rparr>, Some zeroResult, Some (Wrapf (StoreErr e)))
             | (st, Panic) \<Rightarrow> Some (s\<lparr>svc_store := st\<rparr>, Some zeroResult, Some (ExternalError 0)))))"

definition cleanupExpiredWithAttachments ::
    "'a AttachmentManager \<Rightarrow> (nat \<Rightarrow> error option) \<Rightarrow> time \<Rightarrow> time \<Rightarrow> 'a service \<Rightarrow>
     ('a service \<times> CleanupResult \<times> error option) option" where
  "cleanupExpiredWithAttachments am ctxErr now cutoff s =
    (case scanExpiredMessages ctxErr now [IsDraftFilter False] ''CreatedAt'' cutoff (svc_store s) of
       None \<Rightarrow> None
     | Some (_, _, interrupted, Some e) \<Rightarrow> Some (s, zeroResult\<lparr>cr_Interrupted := interrupted\<rparr>, Some e)
     | Some (atts, ids, _, None) \<Rightarrow>
         (case deleteScanned am atts ids s of
            (s, Inl e) \<Rightarrow> Some (s, zeroResult, Some e)
          | (s, Inr n) \<Rightarrow> Some (s, zeroResult\<lparr>cr_DeletedCount := n\<rparr>, None)))"

definition cleanupTTLExpiredWithAttachments ::
    "'a AttachmentManager \<Rightarrow> (nat \<Rightarrow> error option) \<Rightarrow> time \<Rightarrow> 'a service \<Rightarrow> ('a service \<times> (error + int)) option" where
  "cleanupTTLExpiredWithAttachments am ctxErr now s =
    (case FilterBuilder_build (MessageFilter ''ExpiresAt'') ''exists'' (ABool True) of
       Ok existsFilter \<Rightarrow>
         (case scanExpiredMessages ctxErr now [existsFilter] ''ExpiresAt'' now (svc_store s) of
            None \<Rightarrow> None
          | Some (_, _, _, Some e) \<Rightarrow> Some (s, Inl e)
          | Some (atts, ids, _, None) \<Rightarrow> if ids = [] then Some (s, Inr 0) else Some (deleteScanned am atts ids s))
     | _ \<Rightarrow> Some (s, Inl (ExternalError 0)))"

text \<open>The retention phase: the service after it and the count to add, or the error.\<close>

definition retentionPhase ::
    "'a env \<Rightarrow> (nat \<Rightarrow> error option) \<Rightarrow> time \<Rightarrow> 'a service \<Rightarrow> ('a service \<times> (error + CleanupResult)) option" where
  "retentionPhase env ctxErr now s =
    (if MessageRetention (env_cfg env) > 0 then
       let cutoff = now - MessageRetention (env_cfg env) in
       (case env_attachments env of
          Some am \<Rightarrow>
            map_option (\<lambda>(s, r, e). (s, case e of Some e \<Rightarrow> Inl e | None \<Rightarrow> Inr r))
              (cleanupExpiredWithAttachments am ctxErr now cutoff s)
        | None \<Rightarrow>
            (case Store_DeleteExpiredMessages cutoff (svc_store s) of
               (st, Ok deleted) \<Rightarrow> Some (s\<lparr>svc_store := st\<rparr>, Inr (zeroResult\<lparr>cr_DeletedCount := deleted\<rparr>))
             | (st, Err e) \<Rightarrow> Some (s\<lparr>svc_store := st\<rparr>, Inl (Wrapf (StoreErr e)))
             | (st, Panic) \<Rightarrow> Some (s\<lparr>svc_store := st\<rparr>, Inl (ExternalError 0))))
     else Some (s, Inr zeroResult))"

definition ttlPhase ::
    "'a env \<Rightarrow> (nat \<Rightarrow> error option) \<Rightarrow> time \<Rightarrow> 'a service \<Rightarrow> ('a service \<times> (error + int)) option" where
  "ttlPhase env ctxErr now s =
    (case env_attachments env of
       Some am \<Rightarrow> cleanupTTLExpiredWithAttachments am ctxErr now s
     | None \<Rightarrow>
         (case Store_DeleteTTLExpiredMessages now (svc_store s) of
            (st, Ok deleted) \<Rightarrow> Some (s\<lparr>svc_store := st\<rparr>, Inr deleted)
          | (st, Err e) \<Rightarrow> Some (s\<lparr>svc_store := st\<rparr>, Inl (Wrapf (StoreErr e)))
          | (st, Panic) \<Rightarrow> Some (s\<lparr>svc_store := st\<rparr>, Inl (ExternalError 0))))"

definition CleanupExpiredMessages ::
    "'a env \<Rightarrow> (nat \<Rightarrow> nat \<Rightarrow> error option) \<Rightarrow> time \<Rightarrow> 'a service \<Rightarrow>
     ('a service \<times> CleanupResult option \<times> error option) option" where
  "CleanupExpiredMessages env ctxErr now s =
    (if svc_state s \<noteq> stateConnected then Some (s, None, Some (Sentinel MErrNotConnected))
     else
       (case retentionPhase env (ctxErr 0) now s of
          None \<Rightarrow> None
        | Some (s, Inl e) \<Rightarrow> Some (s, Some zeroResult, Some e)
        | Some (s, Inr result) \<Rightarrow>
            (case ctxErr 1 0 of
               Some e \<Rightarrow> Some (s, Some (result\<lparr>cr_Interrupted := True\<rparr>), Some e)
             | None \<Rightarrow>
                 (case ttlPhase env (ctxErr 2) now s of
                    None \<Rightarrow> None
                  | Some (s, Inl e) \<Rightarrow> Some (s, Some result, Some e)
                  | Some (s, Inr n) \<Rightarrow>
                      Some (s, Some (result\<lparr>cr_DeletedCount := cr_DeletedCount result + n\<rparr>), None)))))"

section \<open>The scan\<close>

definition scanned :: "time \<Rightarrow> Filter list \<Rightarrow> Store \<Rightarrow> message list" where
  "scanned now filters st = found now filters (scanOptions '''') st"

lemma scanned_found: "found now filters (scanOptions c) st = scanned now filters st"
  by (simp add: scanned_def found_def scanOptions_def)

lemma scanned_props:
  assumes "store_inv st"
  shows "distinct (map msgID (scanned now filters st))"
    "m \<in> set (scanned now filters st) \<longleftrightarrow> msg_of st (msgID m) = Some m \<and> matching now filters m"
    "m \<in> set (scanned now filters st) \<Longrightarrow> msgID m \<noteq> ''''"
    "length (scanned now filters st) \<le> length (messages st)"
proof -
  show "distinct (map msgID (scanned now filters st))" unfolding scanned_def by (rule distinct_found [OF assms])
  show "m \<in> set (scanned now filters st) \<longleftrightarrow> msg_of st (msgID m) = Some m \<and> matching now filters m"
    unfolding scanned_def by (rule set_found [OF assms])
  show "length (scanned now filters st) \<le> length (messages st)" unfolding scanned_def by (rule length_found_le)
  show "msgID m \<noteq> ''''" if "m \<in> set (scanned now filters st)"
    using that stored_id [OF assms] unfolding scanned_def found_def set_sortMessages set_filter by blast
qed

lemma scan_page:
  assumes "store_inv st" "connected st" "int (length (messages st)) + scanBatchSize < 2 ^ 63"
    and "at_position (scanned now filters st) p cursor" "p \<le> length (scanned now filters st)"
  shows "Store_Find now filters (scanOptions cursor) st =
    Ok \<lparr>ml_Messages = take 100 (drop p (scanned now filters st)), ml_Total = int (length (scanned now filters st)),
        ml_HasMore = p + 100 < length (scanned now filters st), ml_NextCursor = ''''\<rparr>"
proof -
  have "int (length (scanned now filters st)) + Limit (scanOptions cursor) < 2 ^ 63"
    using scanned_props(4) [OF assms(1), of now filters] assms(3) by (simp add: scanOptions_def)
  moreover have "at_position (scanned now filters st) p (StartAfter (scanOptions cursor))" "0 < Limit (scanOptions cursor)"
    using assms(4) by (simp_all add: scanOptions_def scanBatchSize_def)
  moreover have "(int p + 100 < len (scanned now filters st)) = (p + 100 < length (scanned now filters st))" by linarith
  ultimately show ?thesis
    unfolding Find_eq [OF assms(2)] scanned_found
    using paginate_page [OF scanned_props(1) [OF assms(1)], of now filters p "scanOptions cursor"] assms(5)
    by (simp add: scanOptions_def scanBatchSize_def)
qed

lemma scanLoop_from:
  assumes "store_inv st" "connected st" "int (length (messages st)) + scanBatchSize < 2 ^ 63" "\<And>n. ctxErr n = None"
    and "at_position (scanned now filters st) p cursor" "p \<le> length (scanned now filters st)"
  shows "scanLoop ctxErr now filters st n cursor atts ids =
    Some (foldl collectAttachments atts (drop p (scanned now filters st)),
          ids @ map msgID (drop p (scanned now filters st)), False, None)"
  using assms(5,6)
proof (induction "length (scanned now filters st) - p" arbitrary: p cursor n atts ids rule: less_induct)
  case less
  let ?all = "scanned now filters st"
  let ?page = "take 100 (drop p ?all)"
  note page = scan_page [OF assms(1-3) less.prems]
  show ?case
  proof (cases "p + 100 < length ?all")
    case False
    then have "?page = drop p ?all" by simp
    with False show ?thesis by (simp add: scanLoop.simps [of ctxErr now filters st n] assms(4) page)
  next
    case True
    then have ne: "?page \<noteq> []" "length ?page = 100" by simp_all
    have last: "last ?page = ?all ! (p + 100 - 1)"
      using last_take_drop [of p ?all 100] True ne(2) by simp
    have "?all ! (p + 100 - 1) \<in> set ?all" using True by (intro nth_mem) simp
    then have "msgID (?all ! (p + 100 - 1)) \<noteq> ''''" by (rule scanned_props(3) [OF assms(1)])
    then have at: "at_position ?all (p + 100) (msgID (last ?page))" using True last by (simp add: at_position_def)
    have "scanLoop ctxErr now filters st n cursor atts ids =
        scanLoop ctxErr now filters st (n + 1) (msgID (last ?page)) (foldl collectAttachments atts ?page) (ids @ map msgID ?page)"
      by (subst scanLoop.simps) (use True ne in \<open>simp add: assms(4) page\<close>)
    also have "\<dots> = Some (foldl collectAttachments (foldl collectAttachments atts ?page) (drop (p + 100) ?all),
          (ids @ map msgID ?page) @ map msgID (drop (p + 100) ?all), False, None)"
      using True by (intro less.hyps at) simp_all
    also have "\<dots> = Some (foldl collectAttachments atts (?page @ drop (p + 100) ?all),
          ids @ map msgID (?page @ drop (p + 100) ?all), False, None)"
      by (simp only: foldl_append map_append append_assoc)
    also have "?page @ drop (p + 100) ?all = drop p ?all"
      using append_take_drop_id [of 100 "drop p ?all"] by (simp add: add.commute)
    finally show ?thesis .
  qed
qed

text \<open>What the references of a list of messages amount to.\<close>

definition releaseFor :: "'a AttachmentManager \<Rightarrow> message list \<Rightarrow> 'a \<Rightarrow> 'a" where
  "releaseFor am ms a = foldl (\<lambda>a m. fst (releaseAll am (attachmentIDs m) [] a)) a ms"

lemma map_of_collect:
  "map_of (collectAttachments acc x) i =
     (if i = msgID x \<and> attachmentIDs x \<noteq> [] then Some (attachmentIDs x) else map_of acc i)"
  by (simp add: collectAttachments_def Let_def)

lemma collect_lookup:
  assumes "distinct (map msgID ms)" "m \<in> set ms"
  shows "map_of (foldl collectAttachments [] ms) (msgID m) = (if attachmentIDs m = [] then None else Some (attachmentIDs m))"
proof -
  have keep: "map_of (foldl collectAttachments acc xs) i = map_of acc i" if "i \<notin> msgID ` set xs" for acc xs i
    using that by (induction xs arbitrary: acc) (simp_all add: map_of_collect)
  have "map_of (foldl collectAttachments acc ms) (msgID m) = (if attachmentIDs m = [] then None else Some (attachmentIDs m))"
    if "map_of acc (msgID m) = None" for acc
    using assms that
  proof (induction ms arbitrary: acc)
    case (Cons x xs)
    show ?case
    proof (cases "x = m")
      case True
      with Cons.prems(1) have "msgID m \<notin> msgID ` set xs" by simp
      with True Cons.prems(3) show ?thesis by (simp add: keep map_of_collect)
    next
      case False
      with Cons.prems have "m \<in> set xs" "distinct (map msgID xs)" "msgID x \<noteq> msgID m" by force+
      with Cons.prems(3) show ?thesis by (simp add: Cons.IH map_of_collect)
    qed
  qed simp
  then show ?thesis by simp
qed

lemma release_scanned:
  assumes "distinct (map msgID ms)"
  shows "svc_releaseAttachmentRefs am (map msgID ms) (foldl collectAttachments [] ms) a = releaseFor am ms a"
proof -
  have "foldl (\<lambda>a i. case map_of (foldl collectAttachments [] ms) i of
       None \<Rightarrow> a | Some attIDs \<Rightarrow> fst (releaseAll am attIDs [] a)) a (map msgID xs) = releaseFor am xs a"
    if "set xs \<subseteq> set ms" for xs
    using that
  proof (induction xs arbitrary: a)
    case (Cons x xs)
    then show ?case using collect_lookup [OF assms, of x] by (simp add: releaseFor_def)
  qed (simp add: releaseFor_def)
  then show ?thesis by (simp add: svc_releaseAttachmentRefs_def)
qed

lemma deleteScanned_all:
  assumes "store_inv (svc_store s)" "connected (svc_store s)"
  shows "deleteScanned am (foldl collectAttachments [] (scanned now fs (svc_store s))) (map msgID (scanned now fs (svc_store s))) s =
    (s\<lparr>svc_store := (svc_store s)\<lparr>messages := filter (\<lambda>(i, m). \<not> matching now fs m) (messages (svc_store s))\<rparr>,
       svc_atts := releaseFor am (scanned now fs (svc_store s)) (svc_atts s)\<rparr>, Inr (len (scanned now fs (svc_store s))))"
proof -
  let ?st = "svc_store s" and ?all = "scanned now fs (svc_store s)"
  note props = scanned_props [OF assms(1)]
  have "set (map msgID ?all) \<subseteq> set (keys (messages ?st))"
  proof
    fix i assume "i \<in> set (map msgID ?all)"
    then obtain m where "m \<in> set ?all" "i = msgID m" by auto
    then have "msg_of ?st i = Some m" using props(2) by simp
    then show "i \<in> set (keys (messages ?st))" by (force dest: map_of_SomeD)
  qed
  then have del: "fst (loadAndDeleteAll (map msgID ?all) (messages ?st)) = map msgID ?all"
    unfolding loadAndDeleteAll_found [OF props(1)] by (simp add: subset_iff filter_id_conv)
  have "i \<in> set (map msgID ?all) \<longleftrightarrow> matching now fs m" if "(i, m) \<in> set (messages ?st)" for i m
  proof -
    have m: "msg_of ?st i = Some m" using that store_invD(1) [OF assms(1)] by simp
    with inv_msgID [OF assms(1) this] have "m \<in> set ?all \<longleftrightarrow> matching now fs m" "msgID m = i" using props(2) [of m now fs] by simp_all
    moreover have "m' = m" if "m' \<in> set ?all" "msgID m' = i" for m' using that props(2) [of m' now fs] m by simp
    ultimately show ?thesis by auto
  qed
  then have keep: "filter (\<lambda>(i, m). i \<notin> set (map msgID ?all)) (messages ?st) = filter (\<lambda>(i, m). \<not> matching now fs m) (messages ?st)"
    by (intro filter_cong) auto
  have "Store_DeleteMessagesByIDs (map msgID ?all) ?st =
      (?st\<lparr>messages := filter (\<lambda>(i, m). \<not> matching now fs m) (messages ?st)\<rparr>, Ok (map msgID ?all))"
    using assms(2) del loadAndDeleteAll_map [of "map msgID ?all" "messages ?st"] keep
    by (simp add: Store_DeleteMessagesByIDs_def case_prod_beta)
  then show ?thesis by (simp add: deleteScanned_def release_scanned [OF props(1)])
qed

definition trashFilters :: "time \<Rightarrow> Filter list" where
  "trashFilters cutoff = [InFolder FolderTrash, \<lparr>filterKey = ''updated_at'', filterValue = ATime cutoff, filterOperator = ''lt''\<rparr>]"

lemma matching_trash:
  "matching now (trashFilters cutoff) m \<longleftrightarrow>
     \<not> isDraft m \<and> isAvailableNow now m \<and> folderID m = FolderTrash \<and> updatedAt m < cutoff"
  by (simp add: matching_def trashFilters_def matchesFilter_def [of m "\<lparr>filterKey = ''updated_at'', filterValue = ATime cutoff, filterOperator = ''lt''\<rparr>"]
      applyOperator_def)

lemma cleanupTrash_scan:
  assumes "store_inv st" "connected st" "int (length (messages st)) + scanBatchSize < 2 ^ 63" "\<And>n. ctxErr n = None"
  shows "scanExpiredMessages ctxErr now [InFolder FolderTrash] ''UpdatedAt'' cutoff st =
    Some (foldl collectAttachments [] (scanned now (trashFilters cutoff) st), map msgID (scanned now (trashFilters cutoff) st),
      False, None)"
proof -
  have "FilterBuilder_build (MessageFilter ''UpdatedAt'') ''lt'' (ATime cutoff) =
      Ok \<lparr>filterKey = ''updated_at'', filterValue = ATime cutoff, filterOperator = ''lt''\<rparr>"
    by (simp add: FilterBuilder_build_def MessageFilter_def MessageFieldKey_def messageFieldCases_def)
  then have "scanExpiredMessages ctxErr now [InFolder FolderTrash] ''UpdatedAt'' cutoff st =
      scanLoop ctxErr now (trashFilters cutoff) st 0 '''' [] []"
    by (simp add: scanExpiredMessages_def trashFilters_def)
  then show ?thesis
    using scanLoop_from [OF assms, where filters = "trashFilters cutoff" and p = 0 and cursor = "''''" and n = 0 and
        atts = "[]" and ids = "[]"]
    by (simp add: at_position_def)
qed

section \<open>Properties\<close>



end
