(* ===== verification/Mailbox_Quota.thy ===== *)
theory Mailbox_Quota
  imports Mailbox_Cleanup
begin

text \<open>
  Quota enforcement (\<open>quota_enforce.go\<close>): the loop that deletes a user's oldest messages until the user is within
  the quota. It is a total function: every round that is followed by another one has deleted a message.
  \<open>ctxErr n j\<close> is what \<open>ctx.Err()\<close> returns at the head of round \<open>n\<close> (\<open>j = 0\<close>) or before its item \<open>j - 1\<close>.
\<close>

section \<open>Definitions\<close>

definition quotaDeleteBatchSize :: int where "quotaDeleteBatchSize = 500"

definition quotaOptions :: "int \<Rightarrow> ListOptions" where
  "quotaOptions limit = \<lparr>Limit = limit, Offset = 0, SortBy = ''created_at'', Order = SortAsc, StartAfter = ''''\<rparr>"

text \<open>One page: the service, how many messages were deleted, and the error of the context.\<close>

fun quotaDeletePage ::
    "'a env \<Rightarrow> (nat \<Rightarrow> error option) \<Rightarrow> nat \<Rightarrow> message list \<Rightarrow> 'a service \<Rightarrow> 'a service \<times> nat \<times> error option" where
  "quotaDeletePage env ctxErr j [] s = (s, 0, None)"
| "quotaDeletePage env ctxErr j (msg # msgs) s =
    (case ctxErr (Suc j) of
       Some e \<Rightarrow> (s, 0, Some e)
     | None \<Rightarrow>
         let s = (case env_attachments env of
                    Some am \<Rightarrow> s\<lparr>svc_atts := fst (releaseAll am (attachmentIDs msg) [] (svc_atts s))\<rparr>
                  | None \<Rightarrow> s) in
         (case Store_HardDelete (msgID msg) (svc_store s) of
            (st, Err e) \<Rightarrow> quotaDeletePage env ctxErr (Suc j) msgs (s\<lparr>svc_store := st\<rparr>)
          | (st, _) \<Rightarrow>
              (case quotaDeletePage env ctxErr (Suc j) msgs (s\<lparr>svc_store := st\<rparr>) of
                 (s, progress, e) \<Rightarrow> (s, Suc progress, e))))"

function enforceLoop ::
    "'a env \<Rightarrow> (nat \<Rightarrow> nat \<Rightarrow> error option) \<Rightarrow> time \<Rightarrow> Filter list \<Rightarrow> int \<Rightarrow> nat \<Rightarrow> nat \<Rightarrow> 'a service \<Rightarrow>
     'a service \<times> nat \<times> error option" where
  "enforceLoop env ctxErr now filters excess n deleted s =
    (case ctxErr n 0 of
       Some e \<Rightarrow> (s, deleted, Some e)
     | None \<Rightarrow>
         let remaining = excess - int deleted in
         if remaining \<le> 0 then (s, deleted, None)
         else
           let limit = (if remaining < quotaDeleteBatchSize then remaining else quotaDeleteBatchSize) in
           (case Store_Find now filters (quotaOptions limit) (svc_store s) of
              Err e \<Rightarrow> (s, deleted, Some (Wrapf (StoreErr e)))
            | Panic \<Rightarrow> (s, deleted, Some (ExternalError 0))
            | Ok list \<Rightarrow>
                if ml_Messages list = [] then (s, deleted, None)
                else
                  (case quotaDeletePage env (ctxErr n) 0 (ml_Messages list) s of
                     (s', progress, Some e) \<Rightarrow> (s', deleted + progress, Some e)
                   | (s', progress, None) \<Rightarrow>
                       if progress = 0 then (s', deleted, None)
                       else enforceLoop env ctxErr now filters excess (n + 1) (deleted + progress) s')))"
  by pat_completeness auto
termination
  by (relation "measure (\<lambda>(env, ctxErr, now, filters, excess, n, deleted, s). nat (excess - int deleted))") auto

declare enforceLoop.simps [simp del]

definition quotaFilters :: "string \<Rightarrow> time \<Rightarrow> (string, Filter list) res" where
  "quotaFilters userID cutoff =
    (case FilterBuilder_build (MessageFilter ''CreatedAt'') ''lt'' (ATime cutoff) of
       Ok createdBeforeFilter \<Rightarrow> Ok [OwnerIs userID, createdBeforeFilter]
     | Err e \<Rightarrow> Err e
     | Panic \<Rightarrow> Panic)"

definition enforceUserQuota ::
    "'a env \<Rightarrow> (string \<Rightarrow> error + QuotaPolicy option) \<Rightarrow> (nat \<Rightarrow> nat \<Rightarrow> error option) \<Rightarrow> time \<Rightarrow> string \<Rightarrow>
     'a service \<Rightarrow> 'a service \<times> nat \<times> error option" where
  "enforceUserQuota env getQuota ctxErr now userID s =
    (case getQuota userID of
       Inl e \<Rightarrow> (s, 0, Some (Wrapf e))
     | Inr None \<Rightarrow> (s, 0, None)
     | Inr (Some policy) \<Rightarrow>
         if MaxMessages policy \<le> 0 then (s, 0, None)
         else if ExceedAction policy \<noteq> QuotaActionDeleteOldest then (s, 0, None)
         else if DeleteOlderThan policy \<le> 0 then (s, 0, None)
         else
           (case Store_Count now [OwnerIs userID] (svc_store s) of
              Err e \<Rightarrow> (s, 0, Some (Wrapf (StoreErr e)))
            | Panic \<Rightarrow> (s, 0, Some (ExternalError 0))
            | Ok cnt \<Rightarrow>
                let excess = cnt - MaxMessages policy in
                if excess \<le> 0 then (s, 0, None)
                else
                  (case quotaFilters userID (now - DeleteOlderThan policy) of
                     Ok filters \<Rightarrow> enforceLoop env ctxErr now filters excess 0 0 s
                   | _ \<Rightarrow> (s, 0, Some (ExternalError 0)))))"

record EnforceQuotasResult =
  eq_UsersChecked :: int
  eq_UsersOverQuota :: int
  eq_MessagesDeleted :: int
  eq_Interrupted :: bool

definition zeroEnforce :: EnforceQuotasResult where
  "zeroEnforce = \<lparr>eq_UsersChecked = 0, eq_UsersOverQuota = 0, eq_MessagesDeleted = 0, eq_Interrupted = False\<rparr>"

text \<open>The loop over the users; \<open>ctxErr u n j\<close> is the context's error for user number \<open>u\<close>, \<open>ctxUser u\<close> before it.\<close>

fun enforceUsers ::
    "'a env \<Rightarrow> (string \<Rightarrow> error + QuotaPolicy option) \<Rightarrow> (nat \<Rightarrow> error option) \<Rightarrow> (nat \<Rightarrow> nat \<Rightarrow> nat \<Rightarrow> error option) \<Rightarrow> time \<Rightarrow>
     nat \<Rightarrow> string list \<Rightarrow> EnforceQuotasResult \<Rightarrow> 'a service \<Rightarrow> 'a service \<times> EnforceQuotasResult \<times> error option" where
  "enforceUsers env getQuota ctxUser ctxErr now u [] result s = (s, result, None)"
| "enforceUsers env getQuota ctxUser ctxErr now u (userID # userIDs) result s =
    (case ctxUser u of
       Some e \<Rightarrow> (s, result\<lparr>eq_Interrupted := True\<rparr>, Some e)
     | None \<Rightarrow>
         (case enforceUserQuota env getQuota (ctxErr u) now userID s of
            (s, deleted, err) \<Rightarrow>
              let result = result\<lparr>eq_UsersChecked := eq_UsersChecked result + 1\<rparr>;
                  result = (if err = None \<and> deleted > 0
                            then result\<lparr>eq_UsersOverQuota := eq_UsersOverQuota result + 1,
                                        eq_MessagesDeleted := eq_MessagesDeleted result + int deleted\<rparr>
                            else result)
              in enforceUsers env getQuota ctxUser ctxErr now (u + 1) userIDs result s))"

definition EnforceQuotas ::
    "'a env \<Rightarrow> (nat \<Rightarrow> error option) \<Rightarrow> (nat \<Rightarrow> nat \<Rightarrow> nat \<Rightarrow> error option) \<Rightarrow> time \<Rightarrow> string list \<Rightarrow> 'a service \<Rightarrow>
     'a service \<times> EnforceQuotasResult option \<times> error option" where
  "EnforceQuotas env ctxUser ctxErr now userIDs s =
    (if svc_state s \<noteq> stateConnected then (s, None, Some (Sentinel MErrNotConnected))
     else case env_quotaProvider env of
            None \<Rightarrow> (s, Some zeroEnforce, None)
          | Some getQuota \<Rightarrow>
              (case enforceUsers env getQuota ctxUser ctxErr now 0 userIDs zeroEnforce s of
                 (s, result, e) \<Rightarrow> (s, Some result, e)))"

text \<open>\<open>lister\<close> is what the configured \<open>QuotaUserLister\<close> returns, if there is one.\<close>

definition RunQuotaEnforcement ::
    "(error + string list) option \<Rightarrow> 'a env \<Rightarrow> (nat \<Rightarrow> error option) \<Rightarrow> (nat \<Rightarrow> nat \<Rightarrow> nat \<Rightarrow> error option) \<Rightarrow> time \<Rightarrow>
     'a service \<Rightarrow> 'a service \<times> EnforceQuotasResult option \<times> error option" where
  "RunQuotaEnforcement lister env ctxUser ctxErr now s =
    (case lister of
       None \<Rightarrow> (s, None, Some (Sentinel ErrQuotaUserListerNotConfigured))
     | Some (Inl e) \<Rightarrow> (s, None, Some (Wrapf e))
     | Some (Inr userIDs) \<Rightarrow> EnforceQuotas env ctxUser ctxErr now userIDs s)"

section \<open>Removing the oldest\<close>

text \<open>
  The store without the messages in \<open>D\<close>: all of them satisfied \<open>P\<close>, and none was younger than a message
  with \<open>P\<close> that is left.
\<close>

definition trimmed :: "(message \<Rightarrow> bool) \<Rightarrow> Store \<Rightarrow> Store \<Rightarrow> string set \<Rightarrow> bool" where
  "trimmed P st st' D \<longleftrightarrow>
     st' = st\<lparr>messages := filter (\<lambda>(i, m). i \<notin> D) (messages st)\<rparr> \<and>
     (\<forall>i\<in>D. \<exists>m. msg_of st i = Some m \<and> P m) \<and>
     (\<forall>i\<in>D. \<forall>d j m. msg_of st i = Some d \<longrightarrow> msg_of st' j = Some m \<longrightarrow> P m \<longrightarrow> createdAt d \<le> createdAt m)"

lemma trimmedD:
  assumes "trimmed P st st' D"
  shows "st' = st\<lparr>messages := filter (\<lambda>(i, m). i \<notin> D) (messages st)\<rparr>"
    "msg_of st' j = (if j \<in> D then None else msg_of st j)"
    "i \<in> D \<Longrightarrow> \<exists>m. msg_of st i = Some m \<and> P m"
    "i \<in> D \<Longrightarrow> msg_of st i = Some d \<Longrightarrow> msg_of st' j = Some m \<Longrightarrow> P m \<Longrightarrow> createdAt d \<le> createdAt m"
proof -
  show eq: "st' = st\<lparr>messages := filter (\<lambda>(i, m). i \<notin> D) (messages st)\<rparr>"
    using assms unfolding trimmed_def by (rule conjunct1)
  show "msg_of st' j = (if j \<in> D then None else msg_of st j)" unfolding eq by (simp add: map_of_filter_keys)
  show "i \<in> D \<Longrightarrow> \<exists>m. msg_of st i = Some m \<and> P m"
    using assms unfolding trimmed_def by (elim conjE) (drule (1) bspec)
  show "createdAt d \<le> createdAt m" if "i \<in> D" "msg_of st i = Some d" "msg_of st' j = Some m" "P m"
    using assms that unfolding trimmed_def by (elim conjE) metis
qed

lemma trimmed_refl: "trimmed P st st {}"
  by (simp add: trimmed_def)

lemma trimmed_trans:
  assumes "trimmed P a b D" "trimmed P b c E"
  shows "trimmed P a c (D \<union> E)" "D \<inter> E = {}"
proof -
  note ab = trimmedD [OF assms(1)] and bc = trimmedD [OF assms(2)]
  show disj: "D \<inter> E = {}"
  proof (rule equals0I)
    fix i assume "i \<in> D \<inter> E"
    with bc(3) [of i] ab(2) [of i] show False by force
  qed
  have "filter (\<lambda>(i, m). i \<notin> E) (filter (\<lambda>(i, m). i \<notin> D) (messages a)) = filter (\<lambda>(i, m). i \<notin> D \<union> E) (messages a)"
    unfolding filter_filter by (rule filter_cong) (simp_all add: case_prod_beta)
  then have "c = a\<lparr>messages := filter (\<lambda>(i, m). i \<notin> D \<union> E) (messages a)\<rparr>"
    unfolding bc(1) ab(1) by simp
  moreover have "\<exists>m. msg_of a i = Some m \<and> P m" if "i \<in> D \<union> E" for i
    using that
  proof
    assume "i \<in> E"
    from bc(3) [OF this] obtain m where "msg_of b i = Some m" "P m" by (elim exE conjE)
    moreover from this(1) have "msg_of a i = Some m" using ab(2) [of i] by (cases "i \<in> D") simp_all
    ultimately show ?thesis by (intro exI conjI)
  qed (rule ab(3))
  moreover have "createdAt d \<le> createdAt m"
    if "i \<in> D \<union> E" "msg_of a i = Some d" "msg_of c j = Some m" "P m" for i d j m
    using that(1)
  proof
    assume "i \<in> D"
    moreover have "msg_of b j = Some m" using that(3) bc(2) [of j] by (cases "j \<in> E") simp_all
    ultimately show ?thesis using ab(4) that(2,4) by simp
  next
    assume i: "i \<in> E"
    then have "i \<notin> D" using disj by blast
    then have "msg_of b i = Some d" using ab(2) [of i] that(2) by simp
    then show ?thesis using bc(4) [OF i] that(3,4) by simp
  qed
  ultimately show "trimmed P a c (D \<union> E)" unfolding trimmed_def by (intro conjI ballI allI impI)
qed

lemma quotaDeletePage_store:
  assumes "store_inv (svc_store s)" "connected (svc_store s)" "distinct (map msgID msgs)"
    and "\<And>x. x \<in> set msgs \<Longrightarrow> msg_of (svc_store s) (msgID x) = Some x \<and> \<not> isDraft x"
    and "quotaDeletePage env ctxErr j msgs s = (s', k, e)"
  shows "svc_store s' = (svc_store s)\<lparr>messages := filter (\<lambda>(i, m). i \<notin> set (map msgID (take k msgs))) (messages (svc_store s))\<rparr> \<and>
     svc_atts s' = (case env_attachments env of Some am \<Rightarrow> releaseFor am (take k msgs) (svc_atts s) | None \<Rightarrow> svc_atts s) \<and>
     k \<le> length msgs \<and> (e = None \<longrightarrow> k = length msgs)"
  using assms
proof (induction msgs arbitrary: s j k s' e)
  case Nil
  then show ?case by (simp add: releaseFor_def split: option.splits)
next
  case (Cons x xs)
  show ?case
  proof (cases "ctxErr (Suc j)")
    case (Some err)
    have "s' = s" "k = 0" "e \<noteq> None"
      using Cons.prems(5) unfolding quotaDeletePage.simps Some option.case by auto
    then show ?thesis by (simp add: releaseFor_def split: option.splits)
  next
    case None
    define s1 where "s1 = (case env_attachments env of
                    Some am \<Rightarrow> s\<lparr>svc_atts := fst (releaseAll am (attachmentIDs x) [] (svc_atts s))\<rparr> | None \<Rightarrow> s)"
    have s1: "svc_store s1 = svc_store s"
      "svc_atts s1 = (case env_attachments env of Some am \<Rightarrow> releaseFor am [x] (svc_atts s) | None \<Rightarrow> svc_atts s)"
      unfolding s1_def releaseFor_def by (simp_all split: option.split)
    have x: "msg_of (svc_store s) (msgID x) = Some x" "\<not> isDraft x" using Cons.prems(4) [of x] by simp_all
    have "msgID x \<noteq> ''''" using store_invD(3) [OF Cons.prems(1) x(1)] by (simp add: entry_ok_def)
    let ?st = "(svc_store s)\<lparr>messages := AList.delete (msgID x) (messages (svc_store s))\<rparr>"
    have del: "Store_HardDelete (msgID x) (svc_store s1) = (?st, Ok ())"
      using x \<open>msgID x \<noteq> ''''\<close> Cons.prems(2) by (simp add: s1 Store_HardDelete_def)
    obtain s2 k2 where rec: "quotaDeletePage env ctxErr (Suc j) xs (s1\<lparr>svc_store := ?st\<rparr>) = (s2, k2, e)" "s' = s2" "k = Suc k2"
      using Cons.prems(5) None del unfolding quotaDeletePage.simps s1_def [symmetric] Let_def
      by (simp split: prod.splits)
    have inv: "store_inv ?st" using inv_filter [OF Cons.prems(1)] by (simp add: delete_filter)
    have stored: "msg_of ?st (msgID y) = Some y \<and> \<not> isDraft y" if "y \<in> set xs" for y
    proof -
      have "msgID y \<in> msgID ` set xs" using that by (rule imageI)
      then have "msgID y \<noteq> msgID x" using Cons.prems(3) by auto
      then show ?thesis using Cons.prems(4) [of y] that by (simp add: delete_conv)
    qed
    have IH: "svc_store s' = ?st\<lparr>messages := filter (\<lambda>(i, m). i \<notin> set (map msgID (take k2 xs))) (messages ?st)\<rparr>"
      "svc_atts s' = (case env_attachments env of Some am \<Rightarrow> releaseFor am (take k2 xs) (svc_atts s1) | None \<Rightarrow> svc_atts s1)"
      "k2 \<le> length xs" "e = None \<longrightarrow> k2 = length xs"
    proof -
      let ?s = "s1\<lparr>svc_store := ?st\<rparr>"
      have eqs: "svc_store ?s = ?st" "svc_atts ?s = svc_atts s1" by simp_all
      have pre: "store_inv (svc_store ?s)" "connected (svc_store ?s)" "distinct (map msgID xs)"
        unfolding eqs by (rule inv, use Cons.prems(2) in simp, use Cons.prems(3) in simp)
      have known: "msg_of (svc_store ?s) (msgID y) = Some y \<and> \<not> isDraft y" if "y \<in> set xs" for y
        unfolding eqs by (rule stored [OF that])
      note IHs = Cons.IH [OF pre known rec(1), unfolded eqs, folded rec(2)]
      show "svc_store s' = ?st\<lparr>messages := filter (\<lambda>(i, m). i \<notin> set (map msgID (take k2 xs))) (messages ?st)\<rparr>"
        by (rule conjunct1 [OF IHs])
      show "svc_atts s' = (case env_attachments env of Some am \<Rightarrow> releaseFor am (take k2 xs) (svc_atts s1) | None \<Rightarrow> svc_atts s1)"
        by (rule conjunct1 [OF conjunct2 [OF IHs]])
      show "k2 \<le> length xs" by (rule conjunct1 [OF conjunct2 [OF conjunct2 [OF IHs]]])
      show "e = None \<longrightarrow> k2 = length xs" by (rule conjunct2 [OF conjunct2 [OF conjunct2 [OF IHs]]])
    qed
    have "filter (\<lambda>(i, m). i \<notin> set (map msgID (take k2 xs))) (AList.delete (msgID x) (messages (svc_store s))) =
        filter (\<lambda>(i, m). i \<notin> set (map msgID (take k (x # xs)))) (messages (svc_store s))"
      unfolding delete_filter filter_filter rec(3) by (rule filter_cong) (auto simp: case_prod_beta)
    then show ?thesis using IH rec(3) by (simp add: s1 releaseFor_def split: option.splits)
  qed
qed

definition aged :: "time \<Rightarrow> Filter list \<Rightarrow> Store \<Rightarrow> message list" where
  "aged now filters st = found now filters (quotaOptions 1) st"

lemma aged_found: "found now filters (quotaOptions k) st = aged now filters st"
  by (simp add: aged_def found_def quotaOptions_def)

lemma sortMessages_oldest: "sorted (map createdAt (sortMessages msgs ''created_at'' SortAsc))"
proof -
  have "sorted_wrt (\<lambda>a b. \<not> shouldSwap ''created_at'' SortAsc a b) (sortMessages msgs ''created_at'' SortAsc)"
    using by_key.sortLoops_sorted [of "''created_at''" SortAsc msgs] by (simp add: sortMessages_def)
  then show ?thesis by (simp add: shouldSwap_def sorted_wrt_map not_less)
qed

lemma aged_sorted: "sorted (map createdAt (aged now filters st))"
  using sortMessages_oldest by (simp add: aged_def found_def quotaOptions_def)

lemma quota_page:
  assumes "store_inv st" "connected st" "int (length (messages st)) + limit < 2 ^ 63" "0 < limit"
  shows "\<exists>list. Store_Find now filters (quotaOptions limit) st = Ok list \<and> ml_Messages list = take (nat limit) (aged now filters st)"
proof -
  have "distinct (map msgID (aged now filters st))" unfolding aged_def by (rule distinct_found [OF assms(1)])
  moreover have "at_position (aged now filters st) 0 (StartAfter (quotaOptions limit))" "0 < Limit (quotaOptions limit)"
    using assms(4) by (simp_all add: at_position_def quotaOptions_def)
  moreover have "int (length (aged now filters st)) + Limit (quotaOptions limit) < 2 ^ 63"
    using length_found_le [of now filters "quotaOptions 1" st] assms(3) by (simp add: aged_def quotaOptions_def)
  ultimately show ?thesis
    unfolding Find_eq [OF assms(2)] aged_found
    using paginate_page [of "aged now filters st" 0 "quotaOptions limit"] by (simp add: quotaOptions_def)
qed

text \<open>Deleting a first part of the list, oldest first.\<close>

lemma trimmed_prefix:
  assumes "store_inv st" "k \<le> length (aged now filters st)"
  shows "trimmed (matching now filters) st
      (st\<lparr>messages := filter (\<lambda>(i, m). i \<notin> set (map msgID (take k (aged now filters st)))) (messages st)\<rparr>)
      (set (map msgID (take k (aged now filters st))))"
    and "card (set (map msgID (take k (aged now filters st)))) = k"
proof -
  let ?all = "aged now filters st" and ?D = "set (map msgID (take k (aged now filters st)))"
  let ?st = "st\<lparr>messages := filter (\<lambda>(i, m). i \<notin> ?D) (messages st)\<rparr>"
  have mem: "m \<in> set ?all \<longleftrightarrow> msg_of st (msgID m) = Some m \<and> matching now filters m" for m
    unfolding aged_def by (rule set_found [OF assms(1)])
  have dist: "distinct (map msgID ?all)" unfolding aged_def by (rule distinct_found [OF assms(1)])
  then have "distinct (map msgID (take k ?all))" by (simp only: take_map [symmetric] distinct_take)
  then show "card ?D = k" using assms(2) by (simp add: distinct_card [of "map msgID (take k ?all)", simplified])
  have "\<exists>m. msg_of st i = Some m \<and> matching now filters m" if i: "i \<in> ?D" for i
  proof -
    obtain m where m: "m \<in> set (take k ?all)" "i = msgID m" using i by auto
    from in_set_takeD [OF m(1)] have "m \<in> set ?all" .
    then show ?thesis unfolding mem using m(2) by (intro exI [of _ m]) simp
  qed
  moreover have "createdAt d \<le> createdAt m"
    if i: "i \<in> ?D" and "msg_of st i = Some d" "msg_of ?st j = Some m" "matching now filters m" for i d j m
  proof -
    obtain d' where d': "d' \<in> set (take k ?all)" "i = msgID d'" using i by auto
    from in_set_takeD [OF d'(1)] have "msg_of st i = Some d'" unfolding mem d'(2) by simp
    with that(2) d'(1) have d: "d \<in> set (take k ?all)" by simp
    have j: "j \<notin> ?D" "msg_of st j = Some m"
      using that(3) by (simp_all add: map_of_filter_keys split: if_splits)
    then have "msgID m = j" using inv_msgID [OF assms(1)] by simp
    then have "m \<in> set ?all" "m \<notin> set (take k ?all)" using j that(4) mem by auto
    then have "m \<in> set (drop k ?all)" using append_take_drop_id [of k ?all] by (metis Un_iff set_append)
    moreover have "sorted (map createdAt (take k ?all) @ map createdAt (drop k ?all))"
      using aged_sorted [of now filters st] by (simp only: map_append [symmetric] append_take_drop_id)
    ultimately show ?thesis using d unfolding sorted_append by (simp add: take_map drop_map)
  qed
  ultimately show "trimmed (matching now filters) st ?st ?D"
    unfolding trimmed_def by (intro conjI ballI allI impI HOL.refl)
qed

text \<open>What a run of the loop has done: the set it deleted, the count, and whether it could have gone on.\<close>

definition trims :: "(message \<Rightarrow> bool) \<Rightarrow> int \<Rightarrow> Store \<Rightarrow> nat \<Rightarrow> Store \<Rightarrow> nat \<Rightarrow> error option \<Rightarrow> bool" where
  "trims P excess st deleted st' k e \<longleftrightarrow>
     (\<exists>D. trimmed P st st' D \<and> finite D \<and> k = deleted + card D \<and> (int deleted \<le> excess \<longrightarrow> int k \<le> excess) \<and>
        (e = None \<longrightarrow> excess \<le> int k \<or> (\<forall>j m. msg_of st' j = Some m \<longrightarrow> \<not> P m)))"

lemma trims_stop:
  assumes "e = None \<Longrightarrow> excess \<le> int deleted \<or> (\<forall>j m. msg_of st j = Some m \<longrightarrow> \<not> P m)"
  shows "trims P excess st deleted st deleted e"
  unfolding trims_def using assms by (intro exI [of _ "{}"] conjI impI) (simp_all add: trimmed_refl)

lemma trims_step:
  assumes "trimmed P st st1 D" "finite D" "int deleted + int (card D) \<le> excess" "trims P excess st1 (deleted + card D) st' k e"
  shows "trims P excess st deleted st' k e"
proof -
  obtain E where E: "trimmed P st1 st' E" "finite E" "k = deleted + card D + card E" "int k \<le> excess"
      "e = None \<longrightarrow> excess \<le> int k \<or> (\<forall>j m. msg_of st' j = Some m \<longrightarrow> \<not> P m)"
    using assms(3,4) unfolding trims_def by (elim exE conjE) (rule that, simp_all)
  have "card (D \<union> E) = card D + card E" using trimmed_trans(2) [OF assms(1) E(1)] assms(2) E(2) by (rule card_Un_disjoint [rotated 2])
  then show ?thesis
    unfolding trims_def using trimmed_trans(1) [OF assms(1) E(1)] assms(2) E
    by (intro exI [of _ "D \<union> E"] conjI impI) simp_all
qed

lemma enforceLoop_trims:
  assumes "store_inv (svc_store s)" "connected (svc_store s)"
    and "int (length (messages (svc_store s))) + quotaDeleteBatchSize < 2 ^ 63"
    and "enforceLoop env ctxErr now filters excess n deleted s = (s', k, e)"
  shows "trims (matching now filters) excess (svc_store s) deleted (svc_store s') k e"
  using assms
proof (induction env ctxErr now filters excess n deleted s rule: enforceLoop.induct)
  case (1 env ctxErr now filters excess n deleted s)
  let ?P = "matching now filters" and ?all = "aged now filters (svc_store s)"
  note run = 1(5) [unfolded enforceLoop.simps [of env ctxErr now filters excess n deleted s]]
  show ?case
  proof (cases "ctxErr n 0 \<noteq> None \<or> excess \<le> int deleted")
    case True
    then have "s' = s \<and> k = deleted \<and> (e = None \<longrightarrow> excess \<le> int deleted)"
      using run by (cases "ctxErr n 0") auto
    then show ?thesis using trims_stop [of e excess deleted "svc_store s" ?P] by auto
  next
    case False
    then have head: "ctxErr n 0 = None" "\<not> excess - int deleted \<le> 0" by simp_all
    define limit where "limit = (if excess - int deleted < quotaDeleteBatchSize then excess - int deleted else quotaDeleteBatchSize)"
    have lim: "0 < limit" "limit \<le> quotaDeleteBatchSize" "limit \<le> excess - int deleted"
      using head(2) by (auto simp: limit_def quotaDeleteBatchSize_def)
    have "int (length (messages (svc_store s))) + limit < 2 ^ 63" using lim(2) 1(4) by linarith
    from quota_page [OF 1(2,3) this lim(1), of now filters]
    obtain list where list: "Store_Find now filters (quotaOptions limit) (svc_store s) = Ok list"
        "ml_Messages list = take (nat limit) ?all" by (elim exE conjE)
    show ?thesis
    proof (cases "?all = []")
      case True
      then have "s' = s \<and> k = deleted \<and> e = None"
        using run head list by (auto simp: Let_def limit_def [symmetric])
      moreover have "\<forall>j m. msg_of (svc_store s) j = Some m \<longrightarrow> \<not> ?P m"
      proof (intro allI impI notI)
        fix j m assume "msg_of (svc_store s) j = Some m" "?P m"
        then have "m \<in> set ?all" using set_found [OF 1(2)] inv_msgID [OF 1(2)] unfolding aged_def by simp
        with True show False by simp
      qed
      ultimately show ?thesis using trims_stop [of e excess deleted "svc_store s" ?P] by simp
    next
      case False
      then have ne: "ml_Messages list \<noteq> []" using list(2) lim(1) by simp
      obtain s1 progress err where page: "quotaDeletePage env (ctxErr n) 0 (ml_Messages list) s = (s1, progress, err)"
        by (metis prod_cases3)
      have known: "msg_of (svc_store s) (msgID x) = Some x \<and> \<not> isDraft x" if "x \<in> set (ml_Messages list)" for x
        using that set_found [OF 1(2), of x now filters "quotaOptions 1"] in_set_takeD [of x "nat limit" ?all]
        unfolding list(2) by (simp add: aged_def matching_def)
      have dist: "distinct (map msgID (ml_Messages list))"
        unfolding list(2) take_map [symmetric] aged_def by (rule distinct_take [OF distinct_found [OF 1(2)]])
      have eff: "svc_store s1 = (svc_store s)\<lparr>messages :=
            filter (\<lambda>(i, m). i \<notin> set (map msgID (take progress (ml_Messages list)))) (messages (svc_store s))\<rparr> \<and>
          svc_atts s1 = (case env_attachments env of
            Some am \<Rightarrow> releaseFor am (take progress (ml_Messages list)) (svc_atts s) | None \<Rightarrow> svc_atts s) \<and>
          progress \<le> length (ml_Messages list) \<and> (err = None \<longrightarrow> progress = length (ml_Messages list))"
        by (rule quotaDeletePage_store [OF 1(2,3) dist _ page]) (rule known)
      have pk: "progress \<le> length (ml_Messages list)" by (rule conjunct1 [OF conjunct2 [OF conjunct2 [OF eff]]])
      have full: "err = None \<longrightarrow> progress = length (ml_Messages list)" by (rule conjunct2 [OF conjunct2 [OF conjunct2 [OF eff]]])
      have kle: "progress \<le> length ?all" "int progress \<le> limit" using pk list(2) lim(1) by auto
      have pre: "take progress (ml_Messages list) = take progress ?all"
      proof -
        have "progress \<le> nat limit" using kle(2) by linarith
        then show ?thesis unfolding list(2) take_take by (simp only: min_absorb1)
      qed
      let ?D = "set (map msgID (take progress ?all))"
      have st1: "svc_store s1 = (svc_store s)\<lparr>messages := filter (\<lambda>(i, m). i \<notin> ?D) (messages (svc_store s))\<rparr>"
        using conjunct1 [OF eff] unfolding pre .
      have trim: "trimmed ?P (svc_store s) (svc_store s1) ?D" "card ?D = progress"
        unfolding st1 by (rule trimmed_prefix [OF 1(2) kle(1)])+
      have bound: "int deleted + int (card ?D) \<le> excess" using kle(2) lim(3) trim(2) by simp
      show ?thesis
      proof (cases err)
        case (Some x)
        then have out: "s' = s1" "k = deleted + progress" "e \<noteq> None"
          using run head list ne page by (auto simp: Let_def limit_def [symmetric])
        have "trims ?P excess (svc_store s1) (deleted + card ?D) (svc_store s1) (deleted + card ?D) e"
          using out(3) by (intro trims_stop) (rule notE)
        then have "trims ?P excess (svc_store s) deleted (svc_store s1) (deleted + card ?D) e"
          by (rule trims_step [OF trim(1) finite_set bound])
        then show ?thesis unfolding trim(2) out(1,2) .
      next
        case None
        then have pos: "progress \<noteq> 0" using full ne by simp
        have rec: "enforceLoop env ctxErr now filters excess (n + 1) (deleted + progress) s1 = (s', k, e)"
          using run head list ne page None pos by (simp add: Let_def limit_def [symmetric])
        have inv1: "store_inv (svc_store s1)" "connected (svc_store s1)"
          "int (length (messages (svc_store s1))) + quotaDeleteBatchSize < 2 ^ 63"
        proof -
          show "store_inv (svc_store s1)" unfolding st1 by (rule inv_filter [OF 1(2)])
          show "connected (svc_store s1)" unfolding st1 using 1(3) by simp
          have "length (messages (svc_store s1)) \<le> length (messages (svc_store s))" unfolding st1 by simp
          then show "int (length (messages (svc_store s1))) + quotaDeleteBatchSize < 2 ^ 63" using 1(4) by linarith
        qed
        have "trims ?P excess (svc_store s1) (deleted + progress) (svc_store s') k e"
          by (rule "1.IH" [OF head(1) HOL.refl head(2) HOL.refl _ ne page [symmetric] HOL.refl _ pos inv1 rec])
            (simp_all add: None list limit_def [symmetric])
        then show ?thesis by (intro trims_step [OF trim(1) finite_set bound]) (simp only: trim(2))
      qed
    qed
  qed
qed

section \<open>Property\<close>

definition quotaCandidate :: "time \<Rightarrow> string \<Rightarrow> QuotaPolicy \<Rightarrow> message \<Rightarrow> bool" where
  "quotaCandidate now userID policy m \<longleftrightarrow> visible now userID m \<and> createdAt m < now - DeleteOlderThan policy"

lemma quotaFilters_Ok:
  "quotaFilters userID cutoff =
     Ok [OwnerIs userID, \<lparr>filterKey = ''created_at'', filterValue = ATime cutoff, filterOperator = ''lt''\<rparr>]"
  by (simp add: quotaFilters_def FilterBuilder_build_def MessageFilter_def MessageFieldKey_def messageFieldCases_def)

lemma matching_quota:
  "matching now [OwnerIs userID, \<lparr>filterKey = ''created_at'', filterValue = ATime (now - DeleteOlderThan policy), filterOperator = ''lt''\<rparr>] =
     quotaCandidate now userID policy"
  by (rule ext) (auto simp: matching_def quotaCandidate_def visible_def
      matchesFilter_def [of _ "\<lparr>filterKey = ''created_at'', filterValue = ATime _, filterOperator = ''lt''\<rparr>"] applyOperator_def)

text \<open>The number of messages a user's quota counts.\<close>

definition userCount :: "time \<Rightarrow> string \<Rightarrow> Store \<Rightarrow> int" where
  "userCount now userID st = int (length (filter (visible now userID) (map snd (messages st))))"

lemma Count_user: "connected st \<Longrightarrow> Store_Count now [OwnerIs userID] st = Ok (userCount now userID st)"
  by (simp add: Count_eq userCount_def matching_owner [abs_def])

text \<open>
  C6: Enforcing a quota deletes what it should and no more. For a policy that deletes the oldest messages, a run
  ends in a store that lacks exactly a set of messages of that user, each older than the age limit, as many as it
  reports, and never more than the user has above the quota. No deleted message was younger than an old enough one
  that was kept. A run without an error has brought the user down to the quota or has
  left no message that is old enough. All this holds for every behaviour of the context, and every run ends.
\<close>

theorem enforceUserQuota_exact:
  assumes "store_inv (svc_store s)" "connected (svc_store s)"
    and "int (length (messages (svc_store s))) + quotaDeleteBatchSize < 2 ^ 63"
    and "getQuota userID = Inr (Some policy)" "0 < MaxMessages policy" "ExceedAction policy = QuotaActionDeleteOldest"
      "0 < DeleteOlderThan policy" "MaxMessages policy < userCount now userID (svc_store s)"
    and "enforceUserQuota env getQuota ctxErr now userID s = (s', k, e)"
  shows "\<exists>D. trimmed (quotaCandidate now userID policy) (svc_store s) (svc_store s') D \<and> finite D \<and> card D = k \<and>
     int k \<le> userCount now userID (svc_store s) - MaxMessages policy \<and>
     (e = None \<longrightarrow> int k = userCount now userID (svc_store s) - MaxMessages policy \<or>
        (\<forall>j m. msg_of (svc_store s') j = Some m \<longrightarrow> \<not> quotaCandidate now userID policy m))"
proof -
  let ?fs = "[OwnerIs userID, \<lparr>filterKey = ''created_at'', filterValue = ATime (now - DeleteOlderThan policy), filterOperator = ''lt''\<rparr>]"
  let ?excess = "userCount now userID (svc_store s) - MaxMessages policy"
  have "enforceLoop env ctxErr now ?fs ?excess 0 0 s = (s', k, e)"
    using assms(4-9) by (simp add: enforceUserQuota_def Count_user [OF assms(2)] quotaFilters_Ok Let_def)
  from enforceLoop_trims [OF assms(1-3) this]
  have "trims (quotaCandidate now userID policy) ?excess (svc_store s) 0 (svc_store s') k e" unfolding matching_quota .
  then obtain D where D: "trimmed (quotaCandidate now userID policy) (svc_store s) (svc_store s') D" "finite D" "k = card D"
      "int k \<le> ?excess" "e = None \<longrightarrow> ?excess \<le> int k \<or> (\<forall>j m. msg_of (svc_store s') j = Some m \<longrightarrow> \<not> quotaCandidate now userID policy m)"
    unfolding trims_def using assms(8) by (elim exE conjE) (rule that, simp_all)
  have "e = None \<longrightarrow> int k = ?excess \<or> (\<forall>j m. msg_of (svc_store s') j = Some m \<longrightarrow> \<not> quotaCandidate now userID policy m)"
    using D(5)
  proof (intro impI)
    assume "e = None"
    with D(5) consider "?excess \<le> int k" | "\<forall>j m. msg_of (svc_store s') j = Some m \<longrightarrow> \<not> quotaCandidate now userID policy m" by blast
    then show "int k = ?excess \<or> (\<forall>j m. msg_of (svc_store s') j = Some m \<longrightarrow> \<not> quotaCandidate now userID policy m)"
    proof cases
      case 1
      with D(4) have "int k = ?excess" by linarith
      then show ?thesis by (rule disjI1)
    qed (rule disjI2)
  qed
  with D(1-4) show ?thesis by (intro exI [of _ D] conjI) simp_all
qed

definition quotaStore :: Store where
  "quotaStore = demoStore\<lparr>messages := [(''m1'', demoMail ''m1'' ''bob''), (''m2'', demoMail ''m2'' ''bob'')]\<rparr>"

definition onePolicy :: QuotaPolicy where
  "onePolicy = \<lparr>MaxMessages = 1, ExceedAction = QuotaActionDeleteOldest, DeleteOlderThan = 10\<rparr>"

theorem enforceUserQuota_exact_witness:
  "\<exists>s' D. enforceUserQuota demoEnv (\<lambda>_. Inr (Some onePolicy)) (\<lambda>_ _. None) 200 ''bob'' (demoService quotaStore) = (s', 1, None) \<and>
     trimmed (quotaCandidate 200 ''bob'' onePolicy) quotaStore (svc_store s') D \<and> card D = 1"
proof -
  let ?s = "demoService quotaStore" and ?q = "\<lambda>_ :: string. Inr (Some onePolicy)"
  have st: "store_inv quotaStore" "connected quotaStore" "length (messages quotaStore) = 2" by code_simp+
  have cnt: "userCount 200 ''bob'' quotaStore = 2" by code_simp
  obtain s' k e where run: "enforceUserQuota demoEnv ?q (\<lambda>_ _. None) 200 ''bob'' ?s = (s', k, e)" by (metis prod_cases3)
  have "let r = enforceUserQuota demoEnv ?q (\<lambda>_ _. None) 200 ''bob'' ?s in fst (snd r) = 1 \<and> snd (snd r) = None"
    by code_simp
  then have k: "k = 1" "e = None" by (simp_all add: run)
  have h: "store_inv (svc_store ?s)" "connected (svc_store ?s)" "int (length (messages (svc_store ?s))) + quotaDeleteBatchSize < 2 ^ 63"
    by (simp_all add: demoBob(2) st quotaDeleteBatchSize_def)
  have p: "0 < MaxMessages onePolicy" "ExceedAction onePolicy = QuotaActionDeleteOldest" "0 < DeleteOlderThan onePolicy"
    "MaxMessages onePolicy < userCount 200 ''bob'' (svc_store ?s)"
    by (simp_all add: onePolicy_def demoBob(2) cnt)
  obtain D where "trimmed (quotaCandidate 200 ''bob'' onePolicy) (svc_store ?s) (svc_store s') D" "card D = k"
    using enforceUserQuota_exact [OF h HOL.refl p run] by (elim exE conjE)
  with run k show ?thesis unfolding demoBob(2) by (intro exI conjI) simp_all
qed

end
