(* ===== verification/Mailbox_Isolation.thy ===== *)
theory Mailbox_Isolation
  imports Mailbox_Trash
begin

text \<open>
  No user's calls can touch the messages of another. The theory completes the contract of a mailbox operation for
  \<open>MarkAllRead\<close>, \<open>UpdateByFilter\<close> and the bulk loops, makes every call that changes messages a step of
  a transition relation, and proves isolation over runs of any length.
\<close>

section \<open>The remaining operations\<close>

lemma MarkAllRead_frame:
  "svc_store (fst (mb_MarkAllRead env now u folder s)) =
     (if checkAccess u s = None then fst (Store_MarkAllRead now u folder (svc_store s)) else svc_store s)"
  "svc_state (fst (mb_MarkAllRead env now u folder s)) = svc_state s"
proof -
  obtain st r where r: "Store_MarkAllRead now u folder (svc_store s) = (st, r)" by (rule prod.exhaust)
  show "svc_store (fst (mb_MarkAllRead env now u folder s)) =
     (if checkAccess u s = None then fst (Store_MarkAllRead now u folder (svc_store s)) else svc_store s)"
    "svc_state (fst (mb_MarkAllRead env now u folder s)) = svc_state s"
    using publishOnly_frame(1,2) [of env EventNameMarkAllRead folder]
    by (cases "checkAccess u s"; cases r; simp add: mb_MarkAllRead_def r Let_def case_prod_beta')+
qed

interpretation markAllReadOp: mailbox_op "\<lambda>u s. fst (mb_MarkAllRead env now u folder s)" for env now folder
proof
  show "fst (mb_MarkAllRead env now u folder s) = s" if "checkAccess u s \<noteq> None" for u s
    using that by (auto simp: mb_MarkAllRead_def)
  show "user_step uuid u (svc_store s) (svc_store (fst (mb_MarkAllRead env now u folder s)))" for uuid u s
    using markAllRead.bulk_user_step [of uuid u "svc_store s" now folder] by (simp add: MarkAllRead_frame(1))
  show "svc_state (fst (mb_MarkAllRead env now u folder s)) = svc_state s" for u s
    by (rule MarkAllRead_frame(2))
qed

lemma markEach_step:
  assumes "\<And>x m. x \<in> set msgs \<Longrightarrow> msg_of st (msgID x) = Some m \<Longrightarrow> ownerID m = u"
  shows "user_step uuid u st (fst (markEach now read msgs st cnt))"
  using assms
proof (induction msgs arbitrary: st cnt)
  case (Cons x xs)
  obtain st1 r where r: "Store_MarkRead now read (msgID x) st = (st1, r)" by (rule prod.exhaust)
  have one: "user_step uuid u st st1"
    using markRead.op_again_step [of st "msgID x" u uuid now read] Cons.prems [of x] r by simp
  have "ownerID m = u" if y: "y \<in> set xs" and m: "msg_of st1 (msgID y) = Some m" for y m
  proof -
    obtain m0 where "msg_of st (msgID y) = Some m0" "same_content m0 m"
      using markRead.op_content [of now read "msgID x" st "msgID y" m] m r by auto
    then show ?thesis using Cons.prems [of y m0] y by (simp add: same_content_def)
  qed
  then have "user_step uuid u st1 (fst (markEach now read xs st1 c))" for c by (rule Cons.IH)
  then have "user_step uuid u st (fst (markEach now read xs st1 c))" for c by (rule user_step_trans [OF one])
  moreover have "\<exists>c. markEach now read (x # xs) st cnt = markEach now read xs st1 c"
    by (cases r) (auto simp: markEach_def r)
  ultimately show ?case by metis
qed (simp add: markEach_def)


lemma updateLoop_step:
  assumes "updateLoop limit now filters read cursor cnt st = Some r" "OwnerIs u \<in> set filters"
  shows "user_step uuid u st (fst r)"
proof -
  have "OwnerIs u \<in> set filters \<longrightarrow> user_step uuid u st (fst r)"
  proof (rule updateLoop.raw_induct [OF _ assms(1), where P = "\<lambda>limit now filters read cursor cnt st r.
      OwnerIs u \<in> set filters \<longrightarrow> user_step uuid u st (fst r)"], intro impI)
    fix loop limit now filters read cursor cnt st r
    assume IH: "\<And>limit now filters read cursor cnt st r. loop limit now filters read cursor cnt st = Some r \<Longrightarrow>
        OwnerIs u \<in> set filters \<longrightarrow> user_step uuid u st (fst r)"
      and own: "OwnerIs u \<in> set filters"
      and body: "(case Store_Find now filters \<lparr>Limit = limit, Offset = 0, SortBy = '''', Order = 0, StartAfter = cursor\<rparr> st of
          Ok list \<Rightarrow> (case markEach now read (ml_Messages list) st cnt of
              (st, cnt) \<Rightarrow> if \<not> ml_HasMore list \<or> ml_Messages list = [] then Some (st, cnt, None)
                else loop limit now filters read (msgID (last (ml_Messages list))) cnt st)
        | Err e \<Rightarrow> Some (st, cnt, Some (StoreErr e)) | Panic \<Rightarrow> None) = Some r"
    show "user_step uuid u st (fst r)"
      unfolding user_step_def
    proof
      assume ok: "store_ok uuid st"
      then have inv: "store_inv st" by (simp add: store_ok_def)
      have "user_step uuid u st (fst r)"
      proof (cases "Store_Find now filters \<lparr>Limit = limit, Offset = 0, SortBy = '''', Order = 0, StartAfter = cursor\<rparr> st")
        case (Ok list)
        obtain st1 c where m: "markEach now read (ml_Messages list) st cnt = (st1, c)" by (rule prod.exhaust)
        have "ownerID y = u" if "x \<in> set (ml_Messages list)" "msg_of st (msgID x) = Some y" for x y
        proof -
          note f = Find_found [OF Ok inv that(1)]
          then have "y = x" using that(2) by simp
          moreover have "matchesFilter x (OwnerIs u)" using f(2) own unfolding matching_def matchesFilters_iff by blast
          ultimately show ?thesis by simp
        qed
        from markEach_step [of "ml_Messages list" st u uuid now read cnt, OF this] m
        have one: "user_step uuid u st st1" by simp
        show ?thesis
        proof (cases "\<not> ml_HasMore list \<or> ml_Messages list = []")
          case True
          then have "fst r = st1" using body Ok m by auto
          then show ?thesis using one by simp
        next
          case False
          then have "loop limit now filters read (msgID (last (ml_Messages list))) c st1 = Some r" using body Ok m by auto
          then have "user_step uuid u st1 (fst r)" using IH own by blast
          with one show ?thesis by (rule user_step_trans)
        qed
      qed (use body in auto)
      with ok show "store_ok uuid (fst r) \<and> confined u st (fst r)" by (simp add: user_step_def)
    qed
  qed
  with assms(2) show ?thesis by simp
qed

lemma UpdateByFilter_step:
  assumes "mb_UpdateByFilter env now u filters flags s = Some (s', cnt, e)"
  shows "user_step uuid u (svc_store s) (svc_store s')" "svc_state s' = svc_state s"
proof -
  let ?scoped = "scopedFilters u filters"
  have own: "OwnerIs u \<in> set ?scoped" by (simp add: scopedFilters_def)
  have "user_step uuid u (svc_store s) (svc_store s') \<and> svc_state s' = svc_state s"
  proof (cases "checkAccess u s")
    case (Some err)
    with assms show ?thesis by (simp add: mb_UpdateByFilter_def)
  next
    case ok: None
    show ?thesis
    proof (cases "flag_Read flags")
      case (Some read)
      let ?r = "bulkReturn s (Store_MarkReadByFilter now read u ?scoped (svc_store s))"
      have "?r = (s', cnt, e)" using assms ok Some by (simp add: mb_UpdateByFilter_def Let_def)
      with bulkReturn_fst [of s "Store_MarkReadByFilter now read u ?scoped (svc_store s)"]
      have "svc_store s' = fst (Store_MarkReadByFilter now read u ?scoped (svc_store s))" "svc_state s' = svc_state s" by simp_all
      then show ?thesis using markReadBy.bulk_user_step by simp
    next
      case None
      then obtain r where r: "updateLoop (MaxQueryLimit (env_cfg env)) now ?scoped False '''' 0 (svc_store s) = Some r"
          "s' = s\<lparr>svc_store := fst r\<rparr>"
        using assms ok by (auto simp: mb_UpdateByFilter_def Let_def)
      then show ?thesis using updateLoop_step [OF r(1) own] by simp
    qed
  qed
  then show "user_step uuid u (svc_store s) (svc_store s')" "svc_state s' = svc_state s" by simp_all
qed

text \<open>A loop over identifiers keeps what its operation keeps.\<close>

lemma bulkLoop_step:
  fixes s :: "'a service"
  assumes "\<And>i t. user_step uuid u (svc_store t) (svc_store (fst (op i t))) \<and> svc_state (fst (op i t)) = svc_state (t :: 'a service)"
  shows "user_step uuid u (svc_store s) (svc_store (fst (bulkLoop ctxErr op n ids s))) \<and>
     svc_state (fst (bulkLoop ctxErr op n ids s)) = svc_state s"
proof (induction ids arbitrary: n s)
  case (Cons i ids)
  show ?case
  proof (cases "ctxErr n")
    case None
    obtain s1 e where op: "op i s = (s1, e)" by (rule prod.exhaust)
    have one: "user_step uuid u (svc_store s) (svc_store s1)" "svc_state s1 = svc_state s" using assms [of s i] op by simp_all
    have "fst (bulkLoop ctxErr op n (i # ids) s) = fst (bulkLoop ctxErr op (n + 1) ids s1)"
      using None op by (simp split: prod.split)
    then show ?thesis using Cons.IH [of s1 "n + 1"] one user_step_trans by metis
  qed simp
qed simp

section \<open>Calls as steps\<close>

inductive user_call :: "'a env \<Rightarrow> string \<Rightarrow> 'a service \<Rightarrow> 'a service \<Rightarrow> bool" for env :: "'a env" and u :: string where
  flags: "user_call env u s (fst (mb_UpdateFlags env now u i fl s))"
| delete: "user_call env u s (fst (mb_Delete env now u i s))"
| restore: "user_call env u s (fst (mb_Restore env now u i s))"
| remove: "user_call env u s (fst (mb_PermanentlyDelete env now u i s))"
| move: "user_call env u s (fst (mb_MoveToFolder env now u i folder opts s))"
| tag: "user_call env u s (fst (mb_AddTag now u i tagID s))"
| untag: "user_call env u s (fst (mb_RemoveTag now u i tagID s))"
| readAll: "user_call env u s (fst (mb_MarkAllRead env now u folder s))"
| updateBy: "mb_UpdateByFilter env now u filters fl s = Some (s', cnt, e) \<Longrightarrow> user_call env u s s'"
| moveBy: "user_call env u s (fst (mb_MoveByFilter now u filters folder s))"
| deleteBy: "user_call env u s (fst (mb_DeleteByFilter now u filters s))"
| tagBy: "user_call env u s (fst (mb_TagByFilter now u filters tagID s))"
| untagBy: "user_call env u s (fst (mb_UntagByFilter now u filters tagID s))"
| bulk: "(\<And>i t. user_call env u t (fst (op i t))) \<Longrightarrow> user_call env u s (fst (bulkOp ctxErr u ids op s))"

lemmas mailbox_op_steps =
  updateFlagsOp.op_step deleteOp.op_step restoreOp.op_step permDeleteOp.op_step moveOp.op_step addTagOp.op_step
  removeTagOp.op_step markAllReadOp.op_step moveByOp.op_step deleteByOp.op_step tagByOp.op_step untagByOp.op_step

lemmas mailbox_op_states =
  updateFlagsOp.op_connState deleteOp.op_connState restoreOp.op_connState permDeleteOp.op_connState moveOp.op_connState
  addTagOp.op_connState removeTagOp.op_connState markAllReadOp.op_connState moveByOp.op_connState deleteByOp.op_connState
  tagByOp.op_connState untagByOp.op_connState

lemma user_call_step:
  assumes "user_call env u s s'"
  shows "user_step uuid u (svc_store s) (svc_store s') \<and> svc_state s' = svc_state s"
  using assms
proof induction
  case (updateBy now filters fl s s' cnt e)
  then show ?case using UpdateByFilter_step by blast
next
  case (bulk op s ctxErr ids)
  have "user_step uuid u (svc_store s) (svc_store (fst (bulkLoop ctxErr op 0 ids s))) \<and>
      svc_state (fst (bulkLoop ctxErr op 0 ids s)) = svc_state s"
    by (rule bulkLoop_step) (rule bulk.IH)
  then show ?case by (cases "checkAccess u s") (simp_all add: bulkOp_def case_prod_beta)
qed (simp_all only: mailbox_op_steps mailbox_op_states simp_thms)

text \<open>Any number of calls by users other than \<open>u\<close>.\<close>

inductive others_run :: "'a env \<Rightarrow> string \<Rightarrow> 'a service \<Rightarrow> 'a service \<Rightarrow> bool" for env :: "'a env" and u :: string where
  nil: "others_run env u s s"
| call: "others_run env u s t \<Longrightarrow> v \<noteq> u \<Longrightarrow> user_call env v t t' \<Longrightarrow> others_run env u s t'"

inductive_cases others_runE: "others_run env u s t"

definition mailboxOf :: "string \<Rightarrow> Store \<Rightarrow> string \<Rightarrow> message option" where
  "mailboxOf u st i = (case msg_of st i of Some m \<Rightarrow> if ownerID m = u then Some m else None | None \<Rightarrow> None)"

lemma confined_mailbox:
  assumes "confined v st st'" "v \<noteq> u"
  shows "mailboxOf u st' = mailboxOf u st"
proof (rule ext)
  fix i
  show "mailboxOf u st' i = mailboxOf u st i"
  proof (cases "msg_of st i")
    case None
    then show ?thesis using confinedD(2) [OF assms(1), of i] assms(2) by (cases "msg_of st' i") (simp_all add: mailboxOf_def)
  next
    case (Some m)
    show ?thesis
    proof (cases "ownerID m = v")
      case True
      then show ?thesis using confinedD(3) [OF assms(1), of i _ m] Some assms(2)
        by (cases "msg_of st' i") (simp_all add: mailboxOf_def)
    next
      case False
      then show ?thesis using confinedD(1) [OF assms(1) Some] Some by (simp add: mailboxOf_def)
    qed
  qed
qed

lemma others_run_mailbox:
  assumes "others_run env u s t" "store_ok uuid (svc_store s)"
  shows "store_ok uuid (svc_store t) \<and> mailboxOf u (svc_store t) = mailboxOf u (svc_store s) \<and> svc_state t = svc_state s"
  using assms
proof induction
  case (call s t v t')
  have "user_step uuid v (svc_store t) (svc_store t')" "svc_state t' = svc_state t"
    using user_call_step [OF call(3), of uuid] by simp_all
  then show ?case using call confined_mailbox [of v "svc_store t" "svc_store t'" u] by (simp add: user_step_def)
qed simp

section \<open>Property\<close>


lemma demoFull_ok: "store_ok demoUUID demoFull"
proof -
  have k: "keys (messages demoFull) = [''m1'', ''m2'', ''m3'', ''d1'']" "idempotencyIdx demoFull = []" by code_simp+
  have "demoUUID n \<notin> set (keys (messages demoFull))" for n unfolding k by (simp add: demoUUID_def)
  then show ?thesis using demoFull_inv(1) by (simp only: store_ok_def ids_fresh_def idx_sound_def k) simp
qed


end
