(* ===== verification/Spec2Isabelle.thy ===== *)
theory Spec2Isabelle
  imports Memory_Race Mailbox_Lifecycle Mailbox_Sent Mailbox_Reads Mailbox_Draft Mailbox_Quota Mailbox_Isolation
begin

text \<open>
  This library models the mailbox service of the repository and proves it correct. The program
  gives every user a mailbox with folders, tags and drafts. A message is sent by storing one copy
  for the sender and one per recipient; there is no shared copy, so that each user changes only
  what they own.

  \<^bold>\<open>The parts and how they interact.\<close>
  \<^item> A store backend keeps the messages and drafts (package \<open>store\<close>, with its interfaces in
    \<open>src/store/store.go\<close>; the backend modelled here is \<open>src/store/memory\<close>).
  \<^item> The service (\<open>src/mailbox.go\<close>) owns a store, an event bus, plugins, an attachment manager and
    a cache of mailbox statistics; it is connected and closed as a whole.
  \<^item> A user mailbox (\<open>src/send.go\<close>, \<open>src/draft.go\<close>, \<open>src/query.go\<close>, \<open>src/mutate.go\<close>, \<open>src/bulk.go\<close>,
    \<open>src/iterator.go\<close>, \<open>src/message.go\<close>) is the service restricted to one user. Its calls check the
    access, read and change the store, publish events and keep the attachment references.
  \<^item> Maintenance (\<open>src/cleanup.go\<close>, \<open>src/quota_enforce.go\<close>) deletes expired mail and the mail above a
    quota.
  \<^item> Event handlers (\<open>src/stats.go\<close>) keep the cached statistics in step with the events.

  \<^bold>\<open>Conventions.\<close> A Go string is a list of bytes, a time or duration an integer number of
  nanoseconds, and a Go \<open>int\<close> an integer that \<open>wrap64\<close> reduces where the source adds without a
  bound. A Go map, and a \<open>sync.Map\<close>, is an association list. A call that can fail returns a value of
  type \<open>res\<close>, whose third constructor \<open>Panic\<close> is a run-time panic, or an \<open>option\<close> or sum with the error.
  Stateful code passes the state explicitly: a store operation maps a \<open>Store\<close> to the changed one
  and a result, a mailbox operation does the same with a \<open>service\<close>. The clock is the argument
  \<open>now\<close> and the cancellation of a context a function from the number of the check to its outcome.
  Code outside the sources is a parameter: the generator of identifiers, the event bus, plugins,
  the quota provider, the user resolver, attachment stores, the size of encoded metadata and the
  Unicode case tables are arguments or fields of the record \<open>env\<close>. Two laws about
  them are used, as hypotheses where they are needed: \<open>uuid_ok\<close>, that generated identifiers are
  distinct and not empty, and \<open>store_ok\<close>, that those not drawn yet are not in use.

  \<^bold>\<open>The theories.\<close>
  \<^descr> \<open>Go_Prelude\<close> and \<open>Go_Unicode\<close>: what the sources use of Go (results, slices, wrap-around, ranging over
    a map while it changes, UTF-8 decoding and trimming), with the shared lemmas.
  \<^descr> \<open>Store_Types\<close>: the messages, folders, list options and filter constructors of package \<open>store\<close>.
  \<^descr> \<open>Memory_Message\<close>, \<open>Memory_Filter\<close>: the stored record with its copy and setters; evaluation of
    filters and the sort (\<open>src/store/memory/message.go\<close>, \<open>helpers.go\<close>).
  \<^descr> \<open>Memory_Store\<close>, \<open>Memory_Write\<close>, \<open>Memory_Query\<close>: creation, drafts and maintenance (\<open>store.go\<close>,
    \<open>create.go\<close>), mutations (\<open>write.go\<close>), queries and statistics (\<open>query.go\<close>, \<open>stats.go\<close>). The store invariant
    \<open>store_inv\<close> is defined here, and every operation is proved against an exact description of
    its effect: idempotent creation happens once, a conditional move is a compare-and-swap, bulk calls change
    what matches and nothing else, pages are slices of the sorted result.
  \<^descr> \<open>Memory_Steps\<close>: all operations as one step relation, with invariants over all runs.
  \<^descr> \<open>Memory_Race\<close>: the idempotent creation as the sequence of its accesses to shared memory, under any
    schedule of several callers: alone it refines the one-step operation, it always returns, and
    two callers can create two messages.
  \<^descr> \<open>Mailbox_Errors\<close>, \<open>Mailbox_Config\<close>, \<open>Mailbox_Validation\<close>, \<open>Mailbox_Attachments\<close>: error chains and their
    classification (\<open>src/errors.go\<close>), configuration (\<open>src/config.go\<close>), the validators (\<open>src/validation.go\<close>)
    and reference counting (\<open>src/attachment.go\<close>).
  \<^descr> \<open>Mailbox_Service\<close>, \<open>Mailbox_Lifecycle\<close>, \<open>Mailbox_Stats\<close>: the service state and publishing (\<open>src/mailbox.go\<close>,
    \<open>src/outbox_helpers.go\<close>, \<open>src/plugin.go\<close>), connecting and closing, and the statistics (\<open>src/stats.go\<close>).
  \<^descr> \<open>Mailbox_Mutate\<close>, \<open>Mailbox_Trash\<close>, \<open>Mailbox_Isolation\<close>: flags, moves, tags, deletion and the bulk and filtered
    calls (\<open>src/mutate.go\<close>, \<open>src/bulk.go\<close>, \<open>src/flags.go\<close>). The locale \<open>message_op\<close> is the contract of a call on a
    single message; each call is an interpretation of it. The trash is shown to be a state machine, and
    mailboxes to be isolated from the calls of other users.
  \<^descr> \<open>Mailbox_Send\<close>, \<open>Mailbox_Delivery\<close>, \<open>Mailbox_Sent\<close>: the send (\<open>src/send.go\<close>) from preparation to
    rollback or finalisation, the effect of each of its phases on the store, and its two main properties: a
    failed send leaves no message behind, and a successful one leaves one copy per target.
  \<^descr> \<open>Mailbox_Query\<close>, \<open>Mailbox_Reads\<close>, \<open>Mailbox_Stream\<close>: reads, folders and threads (\<open>src/query.go\<close>, \<open>src/thread.go\<close>) and
    the iterators (\<open>src/iterator.go\<close>). Reads return own mail only; the locale \<open>batch_source\<close> states what
    an iterator needs of its fetch function, and streams over such a source are complete.
  \<^descr> \<open>Mailbox_Draft\<close>: composing, saving, reloading and sending drafts (\<open>src/draft.go\<close>).
  \<^descr> \<open>Mailbox_Cleanup\<close>, \<open>Mailbox_Quota\<close>: retention cleanup and quota enforcement; both end, and both delete exactly
    what they should.

  \<^bold>\<open>Bounds and termination.\<close> Listing panics in the source when the end of a page overflows, so that
  the theorems about pages assume that the number of messages plus the limit is less than \<open>2 ^ 63\<close>.
  The loop of an idempotent creation has the two attempts of the source. The scans of the cleanup and of
  the filtered update may run forever over an arbitrary store, and are partial functions in \<open>option\<close>; on
  the modelled store they are proved to return. Quota enforcement is a total function, because a further
  round needs a successful deletion. The other loops are structural recursions.
  The number of calls that drains a stream is an argument of \<open>drain\<close>, and one more than the number of stored
  messages is proved to be enough.

  \<^bold>\<open>Not modelled.\<close>
  \<^item> The PostgreSQL and MongoDB backends: their operations are query texts for a database server. The
    same holds for the clients of Redis, of search servers and of cloud object stores.
  \<^item> Telemetry and logging, which no result depends on, and error texts.
  \<^item> Generated code (\<open>src/proto\<close>), the gRPC and HTTP surfaces over it, and test support.
  \<^item> The paths for stores without the optional interfaces that the modelled store implements, except
    for the folder listing; and the transactional outbox, which that store does not have.
  \<^item> The goroutines of the service: each call is one step, apart from \<open>Memory_Race\<close>. The background tickers only
    repeat the maintenance calls.
\<close>

end
